(* ===== verification/Prelude.thy ===== *)
theory Prelude
  imports Main "HOL-Library.Word" "HOL-Library.Monad_Syntax"
begin

text \<open>
  Shared vocabulary of the development: bounded memory accesses of C code as options,
  C characters, the narrowing of integers to 32 bits, C's truncating division, and the list
  lemmas the components share.

  A C object of \<open>n\<close> bytes is a list of length \<open>n\<close>; an access outside it is
  undefined behaviour and is the value \<^const>\<open>None\<close> of \<open>rd\<close> and \<open>wr\<close>. A function of the
  program that touches such an object therefore returns an option, and \<open>Some\<close> means that the
  call had no out-of-bounds access.
\<close>

named_theorems defined_simps \<open>equations that evaluate an access known to be in bounds\<close>

section \<open>Bounded memory\<close>

definition in_bounds :: "'a list \<Rightarrow> int \<Rightarrow> bool" where
  "in_bounds xs i \<longleftrightarrow> 0 \<le> i \<and> i < int (length xs)"

definition rd :: "'a list \<Rightarrow> int \<Rightarrow> 'a option" where
  "rd xs i = (if in_bounds xs i then Some (xs ! nat i) else None)"

definition wr :: "'a list \<Rightarrow> int \<Rightarrow> 'a \<Rightarrow> 'a list option" where
  "wr xs i x = (if in_bounds xs i then Some (xs[nat i := x]) else None)"

lemma rd_Some [defined_simps]: "0 \<le> i \<Longrightarrow> i < int (length xs) \<Longrightarrow> rd xs i = Some (xs ! nat i)"
  by (simp add: rd_def in_bounds_def)

lemma wr_Some [defined_simps]:
  "0 \<le> i \<Longrightarrow> i < int (length xs) \<Longrightarrow> wr xs i x = Some (xs[nat i := x])"
  by (simp add: wr_def in_bounds_def)

lemma wr_length: "wr xs i x = Some ys \<Longrightarrow> length ys = length xs"
  by (auto simp: wr_def split: if_splits)

text \<open>\<open>store_at\<close> is the effect of a \<open>memcpy\<close>/\<open>memmove\<close>/\<open>read\<close> of \<open>ys\<close> to offset \<open>i\<close>.\<close>

definition store_at :: "'a list \<Rightarrow> nat \<Rightarrow> 'a list \<Rightarrow> 'a list" where
  "store_at xs i ys = take i xs @ ys @ drop (i + length ys) xs"

lemma length_store_at [simp]:
  "i + length ys \<le> length xs \<Longrightarrow> length (store_at xs i ys) = length xs"
  by (simp add: store_at_def)

lemma take_store_at [simp]:
  "i + length ys \<le> length xs \<Longrightarrow> take (i + length ys) (store_at xs i ys) = take i xs @ ys"
  by (simp add: store_at_def)

section \<open>Integers of fixed width\<close>

text \<open>
  The implicit conversion of a wider integer to \<open>int32_t\<close> (or \<open>int\<close>) keeps the low 32 bits,
  read as two's complement.
\<close>

definition to_int32 :: "int \<Rightarrow> int" where
  "to_int32 x = sint (word_of_int x :: 32 word)"

definition to_uint16 :: "int \<Rightarrow> nat" where
  "to_uint16 x = unat (word_of_int x :: 16 word)"

lemma to_int32_id [simp]: "- (2 ^ 31) \<le> x \<Longrightarrow> x < 2 ^ 31 \<Longrightarrow> to_int32 x = x"
  by (simp add: to_int32_def sint_sbintrunc' signed_take_bit_int_eq_self)

lemma to_uint16_id [simp]: "0 \<le> x \<Longrightarrow> x < 2 ^ 16 \<Longrightarrow> to_uint16 x = nat x"
  by (simp add: to_uint16_def unat_eq_nat_uint uint_word_of_int)

lemma to_uint16_lt: "to_uint16 x < 65536"
  using unsigned_less [of "word_of_int x :: 16 word"] by (simp add: to_uint16_def)

text \<open>Integer division of C and C++ truncates towards zero.\<close>

definition c_div :: "int \<Rightarrow> int \<Rightarrow> int" where
  "c_div a b = sgn a * sgn b * (\<bar>a\<bar> div \<bar>b\<bar>)"

definition c_mod :: "int \<Rightarrow> int \<Rightarrow> int" where
  "c_mod a b = a - b * c_div a b"

lemma c_div_nonneg [simp]: "0 \<le> a \<Longrightarrow> 0 < b \<Longrightarrow> c_div a b = a div b"
  by (cases "a = 0") (auto simp: c_div_def)

lemma c_mod_nonneg [simp]: "0 \<le> a \<Longrightarrow> 0 < b \<Longrightarrow> c_mod a b = a mod b"
  by (simp add: c_mod_def minus_mult_div_eq_mod)

section \<open>Lists\<close>

lemma takeWhile_dropWhile_cases:
  "(\<forall>x \<in> set xs. P x) \<or> (\<exists>y ys. \<not> P y \<and> xs = takeWhile P xs @ y # ys)"
proof (cases "dropWhile P xs")
  case Nil
  then show ?thesis by (simp add: dropWhile_eq_Nil_conv)
next
  case (Cons y ys)
  then have "\<not> P y" by (metis hd_dropWhile list.distinct(1) list.sel(1))
  moreover have "xs = takeWhile P xs @ y # ys"
    using Cons by (metis takeWhile_dropWhile_id)
  ultimately show ?thesis by blast
qed

lemma dropWhile_length_less: "xs \<noteq> [] \<Longrightarrow> P (hd xs) \<Longrightarrow> length (dropWhile P xs) < length xs"
  by (cases xs) (auto simp: le_imp_less_Suc length_dropWhile_le)

lemma nth_drop_hd: "i < length xs \<Longrightarrow> drop i xs = xs ! i # drop (Suc i) xs"
  by (simp add: Cons_nth_drop_Suc)

end
