(* ===== verification/Command_Queue.thy ===== *)
theory Command_Queue
  imports Prelude
begin

text \<open>
  \<^verbatim>\<open>apib/apib_commandqueue.{h,cc}\<close>: the mutex-protected queue through which the main thread
  sends commands to an I/O thread. Every operation runs under the lock for its whole body, so
  an operation is one atomic step and the queue is its sequence of commands.
\<close>

section \<open>The code\<close>

datatype ThreadCmd = STOP | SET_CONNECTIONS

record Command =
  cmd :: ThreadCmd
  newNumConnections :: int
  stopTimeoutSecs :: int

type_synonym CommandQueue = "Command list"

definition empty_queue :: CommandQueue where
  "empty_queue = []"

definition Add :: "CommandQueue \<Rightarrow> Command \<Rightarrow> CommandQueue" where
  "Add q c = q @ [c]"

text \<open>\<open>Pop\<close> returns false and leaves \<open>dest\<close> alone, or true with the command taken.\<close>

definition Pop :: "CommandQueue \<Rightarrow> (Command \<times> CommandQueue) option" where
  "Pop q = (case q of [] \<Rightarrow> None | c # q' \<Rightarrow> Some (c, q'))"

section \<open>The contract its clients rely on\<close>

text \<open>
  The client (\<^verbatim>\<open>IOThread\<close>) uses a queue through \<open>add\<close> and \<open>pop\<close> only and relies on
  first-in-first-out order. \<open>pop_all\<close> is the loop \<open>while (commands_.Pop(&cmd))\<close>.
\<close>

locale fifo =
  fixes empty :: "'q"
    and add :: "'q \<Rightarrow> 'c \<Rightarrow> 'q"
    and pop :: "'q \<Rightarrow> ('c \<times> 'q) option"
    and contents :: "'q \<Rightarrow> 'c list"
  assumes contents_empty: "contents empty = []"
    and contents_add: "contents (add q c) = contents q @ [c]"
    and pop_None: "pop q = None \<longleftrightarrow> contents q = []"
    and pop_Some: "pop q = Some (c, q') \<Longrightarrow> contents q = c # contents q'"
begin

lemma contents_adds: "contents (foldl add q cs) = contents q @ cs"
  by (induction cs arbitrary: q) (simp_all add: contents_add)

lemma pop_adds_empty:
  "pop (foldl add empty cs) = Some (c, q') \<Longrightarrow> cs = c # contents q'"
  using pop_Some [of "foldl add empty cs" c q'] by (simp add: contents_adds contents_empty)

lemma pop_never_blocks: "contents q \<noteq> [] \<Longrightarrow> \<exists>c q'. pop q = Some (c, q')"
  using pop_None by (metis not_Some_eq surj_pair)

lemma add_pop_commute:
  "pop q = Some (c, q') \<Longrightarrow> \<exists>q''. pop (add q d) = Some (c, q'') \<and> contents q'' = contents q' @ [d]"
proof -
  assume p: "pop q = Some (c, q')"
  then have cq: "contents (add q d) = c # contents q' @ [d]"
    by (simp add: contents_add pop_Some)
  then obtain c2 q2 where p2: "pop (add q d) = Some (c2, q2)"
    using pop_never_blocks by fastforce
  with cq show ?thesis using pop_Some [OF p2] by simp
qed

end

interpretation cq: fifo empty_queue Add Pop "\<lambda>q. q"
  by unfold_locales (auto simp: empty_queue_def Add_def Pop_def split: list.splits)

end
