(* ===== verification/CText.thy ===== *)
theory CText
  imports Prelude "HOL-Library.Char_ord" "HOL-Library.List_Lexorder"
begin

text \<open>
  The part of the C and C++ standard library that the program uses on text: the character
  classes of \<^verbatim>\<open><cctype>\<close> in the C locale, formatted output of integers to a stream,
  \<^verbatim>\<open>std::stoi\<close> in base 16, \<^verbatim>\<open>atoi\<close>, and C strings. A \<open>char\<close> is one byte; plain
  \<^verbatim>\<open>char\<close> is signed on the platforms the build files name (x86-64 and macOS), so reading
  one as an \<^verbatim>\<open>int\<close> sign-extends it.
\<close>

section \<open>Characters\<close>

abbreviation NUL :: char where "NUL \<equiv> CHR 0x00"
abbreviation LF :: char where "LF \<equiv> CHR 0x0A"
abbreviation CR :: char where "CR \<equiv> CHR 0x0D"
abbreviation TAB :: char where "TAB \<equiv> CHR 0x09"
abbreviation DQUOTE :: char where "DQUOTE \<equiv> CHR 0x22"

definition byte_of :: "char \<Rightarrow> nat" where
  "byte_of c = of_char c"

definition char_to_int :: "char \<Rightarrow> int" where
  "char_to_int c = (if byte_of c < 128 then int (byte_of c) else int (byte_of c) - 256)"

lemma byte_of_lt: "byte_of c < 256"
  by (simp add: byte_of_def)

lemma byte_of_inject [simp]: "byte_of c = byte_of d \<longleftrightarrow> c = d"
  by (simp add: byte_of_def)

lemma char_of_byte_of [simp]: "char_of (byte_of c) = c"
  by (simp add: byte_of_def)

lemma byte_of_char_of: "n < 256 \<Longrightarrow> byte_of (char_of n) = n"
  by (simp add: byte_of_def)

definition is_digit :: "char \<Rightarrow> bool" where
  "is_digit c \<longleftrightarrow> 48 \<le> byte_of c \<and> byte_of c \<le> 57"

definition is_upper :: "char \<Rightarrow> bool" where
  "is_upper c \<longleftrightarrow> 65 \<le> byte_of c \<and> byte_of c \<le> 90"

definition is_lower :: "char \<Rightarrow> bool" where
  "is_lower c \<longleftrightarrow> 97 \<le> byte_of c \<and> byte_of c \<le> 122"

definition isalnum :: "char \<Rightarrow> bool" where
  "isalnum c \<longleftrightarrow> is_digit c \<or> is_upper c \<or> is_lower c"

definition isspace :: "char \<Rightarrow> bool" where
  "isspace c \<longleftrightarrow> byte_of c = 32 \<or> 9 \<le> byte_of c \<and> byte_of c \<le> 13"

definition tolower :: "char \<Rightarrow> char" where
  "tolower c = (if is_upper c then char_of (byte_of c + 32) else c)"

lemma tolower_idem [simp]: "tolower (tolower c) = tolower c"
  by (auto simp: tolower_def is_upper_def byte_of_char_of)

section \<open>C strings\<close>

text \<open>The C string that starts at offset \<open>i\<close> of an object: the bytes up to the first NUL.
  Without a NUL before the end of the object \<^verbatim>\<open>strlen\<close> reads out of bounds.\<close>

definition c_string_at :: "char list \<Rightarrow> int \<Rightarrow> string option" where
  "c_string_at xs i =
     (if 0 \<le> i \<and> i < int (length xs) \<and> NUL \<in> set (drop (nat i) xs)
      then Some (takeWhile (\<lambda>c. c \<noteq> NUL) (drop (nat i) xs)) else None)"

lemma c_string_at_append [defined_simps]:
  "NUL \<notin> set ys \<Longrightarrow> c_string_at (xs @ ys @ NUL # zs) (int (length xs)) = Some ys"
  proof -
  assume "NUL \<notin> set ys"
  then have "takeWhile (\<lambda>c. c \<noteq> NUL) (ys @ NUL # zs) = ys"
    by (subst takeWhile_append2) auto
  then show ?thesis by (simp add: c_string_at_def)
qed

section \<open>Numbers to text\<close>

fun digits_of :: "nat \<Rightarrow> nat \<Rightarrow> nat list" where
  "digits_of b n = (if n < b \<or> b < 2 then [n] else digits_of b (n div b) @ [n mod b])"

declare digits_of.simps [simp del]

definition digit_char :: "nat \<Rightarrow> char" where
  "digit_char d = char_of (if d < 10 then 48 + d else 55 + d)"

definition show_nat :: "nat \<Rightarrow> string" where
  "show_nat n = map digit_char (digits_of 10 n)"

definition show_int :: "int \<Rightarrow> string" where
  "show_int i = (if i < 0 then CHR ''-'' # show_nat (nat (- i)) else show_nat (nat i))"

text \<open>\<^verbatim>\<open>std::hex << std::uppercase\<close> on an \<^verbatim>\<open>int\<close>: the value as a 32-bit unsigned number,
  without padding.\<close>

definition show_hex :: "int \<Rightarrow> string" where
  "show_hex i = map digit_char (digits_of 16 (nat (i mod 2 ^ 32)))"

definition digits_val :: "nat \<Rightarrow> nat list \<Rightarrow> nat" where
  "digits_val b ds = foldl (\<lambda>a d. a * b + d) 0 ds"

lemma digits_val_append [simp]: "digits_val b (ds @ [d]) = digits_val b ds * b + d"
  by (simp add: digits_val_def)

lemma digits_val_of: "2 \<le> b \<Longrightarrow> digits_val b (digits_of b n) = n"
proof (induction b n rule: digits_of.induct)
  case (1 b n)
  then show ?case
    by (cases "n < b") (auto simp: digits_of.simps [of b n] digits_val_def)
qed

lemma digits_of_bound: "2 \<le> b \<Longrightarrow> d \<in> set (digits_of b n) \<Longrightarrow> d < b"
proof (induction b n rule: digits_of.induct)
  case (1 b n)
  then show ?case by (auto simp: digits_of.simps [of b n] split: if_splits)
qed

lemma digits_of_nonempty [simp]: "digits_of b n \<noteq> []"
  by (subst digits_of.simps) simp

lemma show_nat_nonempty [simp]: "show_nat n \<noteq> []"
  by (simp add: show_nat_def)

lemma byte_of_digit_char: "d < 36 \<Longrightarrow> byte_of (digit_char d) = (if d < 10 then 48 + d else 55 + d)"
  by (simp add: digit_char_def byte_of_char_of)

lemma show_nat_is_digit: "c \<in> set (show_nat n) \<Longrightarrow> is_digit c"
  using digits_of_bound [of 10]
  by (fastforce simp: show_nat_def is_digit_def byte_of_digit_char)

section \<open>Text to numbers\<close>

definition digit_value :: "char \<Rightarrow> nat option" where
  "digit_value c =
     (if is_digit c then Some (byte_of c - 48)
      else if is_upper c then Some (byte_of c - 55)
      else if is_lower c then Some (byte_of c - 87)
      else None)"

definition is_base_digit :: "nat \<Rightarrow> char \<Rightarrow> bool" where
  "is_base_digit b c = (case digit_value c of None \<Rightarrow> False | Some d \<Rightarrow> d < b)"

definition read_digits :: "nat \<Rightarrow> string \<Rightarrow> nat" where
  "read_digits b s = digits_val b (map (\<lambda>c. the (digit_value c)) (takeWhile (is_base_digit b) s))"

text \<open>
  \<^verbatim>\<open>strtol\<close>: leading white space, an optional sign, in base 16 an optional \<^verbatim>\<open>0x\<close> when a
  hexadecimal digit follows it, then the longest run of digits; \<^const>\<open>None\<close> when there is no
  digit. \<^verbatim>\<open>std::stoi\<close> throws in that case, and also when the value does not fit an
  \<^verbatim>\<open>int\<close>; both are \<^const>\<open>None\<close> of \<open>stoi\<close>.
\<close>

definition skip_0x :: "nat \<Rightarrow> string \<Rightarrow> string" where
  "skip_0x b s =
     (case s of
        z # x # h # t \<Rightarrow>
          if b = 16 \<and> z = CHR ''0'' \<and> (x = CHR ''x'' \<or> x = CHR ''X'') \<and> is_base_digit 16 h
          then h # t else s
      | _ \<Rightarrow> s)"

definition strtol :: "nat \<Rightarrow> string \<Rightarrow> int option" where
  "strtol b s =
     (let s1 = dropWhile isspace s;
          neg = (s1 \<noteq> [] \<and> hd s1 = CHR ''-'');
          s2 = (if s1 \<noteq> [] \<and> (hd s1 = CHR ''-'' \<or> hd s1 = CHR ''+'') then tl s1 else s1);
          s3 = skip_0x b s2
      in if s3 = [] \<or> \<not> is_base_digit b (hd s3) then None
         else Some (if neg then - int (read_digits b s3) else int (read_digits b s3)))"

definition stoi :: "nat \<Rightarrow> string \<Rightarrow> int option" where
  "stoi b s =
     (case strtol b s of None \<Rightarrow> None
      | Some v \<Rightarrow> if - (2 ^ 31) \<le> v \<and> v < 2 ^ 31 then Some v else None)"

definition atoi :: "string \<Rightarrow> int" where
  "atoi s = (case strtol 10 s of None \<Rightarrow> 0 | Some v \<Rightarrow> v)"

lemma digit_value_digit_char: "d < 16 \<Longrightarrow> digit_value (digit_char d) = Some d"
  by (auto simp: digit_value_def byte_of_digit_char is_digit_def is_upper_def)

lemma is_base_digit_digit_char: "d < b \<Longrightarrow> b \<le> 16 \<Longrightarrow> is_base_digit b (digit_char d)"
  by (simp add: is_base_digit_def digit_value_digit_char)

lemma read_digits_digit_chars:
  assumes "\<forall>d \<in> set ds. d < b" and "b \<le> 16"
  shows "read_digits b (map digit_char ds) = digits_val b ds"
proof -
  have "takeWhile (is_base_digit b) (map digit_char ds) = map digit_char ds"
    using assms by (auto simp: takeWhile_eq_all_conv is_base_digit_digit_char)
  moreover have "map (\<lambda>c. the (digit_value c)) (map digit_char ds) = ds"
    using assms by (induction ds) (auto simp: digit_value_digit_char)
  ultimately show ?thesis by (simp only: read_digits_def)
qed

lemma read_show_nat: "read_digits 10 (show_nat n) = n"
  using digits_of_bound [of 10] by (simp add: show_nat_def read_digits_digit_chars digits_val_of)

lemma not_isspace_digit_char: "d < 16 \<Longrightarrow> \<not> isspace (digit_char d)"
  by (auto simp: isspace_def byte_of_digit_char)

lemma digit_char_not_sign:
  assumes "d < 16"
  shows "digit_char d \<noteq> CHR ''-''" "digit_char d \<noteq> CHR ''+''"
    "digit_char d \<noteq> CHR ''x''" "digit_char d \<noteq> CHR ''X''"
proof -
  have "byte_of (digit_char d) \<in> {48..57} \<union> {65..70}"
    using assms by (auto simp: byte_of_digit_char)
  then show "digit_char d \<noteq> CHR ''-''" "digit_char d \<noteq> CHR ''+''"
    "digit_char d \<noteq> CHR ''x''" "digit_char d \<noteq> CHR ''X''"
    by (auto simp: byte_of_def)
qed

text \<open>Two hexadecimal digits read back as their value: what percent-decoding relies on.\<close>

lemma stoi_two_digits:
  assumes "d < 16" and "e < 16"
  shows "stoi 16 [digit_char d, digit_char e] = Some (int (d * 16 + e))"
proof -
  have r: "read_digits 16 (map digit_char [d, e]) = digits_val 16 [d, e]"
    using assms by (intro read_digits_digit_chars) auto
  have "strtol 16 [digit_char d, digit_char e] = Some (int (d * 16 + e))"
    using assms r
    by (simp add: strtol_def Let_def not_isspace_digit_char digit_char_not_sign skip_0x_def
          is_base_digit_digit_char digits_val_def)
  then show ?thesis using assms by (simp add: stoi_def)
qed

end
