(* ===== verification/Util.thy ===== *)
theory Util
  imports CText
begin

text \<open>
  \<^verbatim>\<open>apib/apib_util.{h,cc}\<close> (case-insensitive comparison) and \<^verbatim>\<open>apib/status.{h,cc}\<close> (the
  error values every other component returns).
\<close>

section \<open>eqcase\<close>

text \<open>The loop over both strings; the caller has compared the sizes, so the third equation is the
  failed \<^verbatim>\<open>assert\<close>, which no call reaches.\<close>

fun eqcase_loop :: "string \<Rightarrow> string \<Rightarrow> bool" where
  "eqcase_loop [] s2 = True"
| "eqcase_loop (c1 # s1) (c2 # s2) =
     (if tolower c1 \<noteq> tolower c2 then False else eqcase_loop s1 s2)"
| "eqcase_loop (c1 # s1) [] = False"

definition eqcase :: "string \<Rightarrow> string \<Rightarrow> bool" where
  "eqcase s1 s2 = (if length s1 \<noteq> length s2 then False else eqcase_loop s1 s2)"

lemma eqcase_loop_iff:
  "length s1 = length s2 \<Longrightarrow> eqcase_loop s1 s2 \<longleftrightarrow> map tolower s1 = map tolower s2"
  by (induction s1 s2 rule: eqcase_loop.induct) auto

lemma eqcase_iff: "eqcase s1 s2 \<longleftrightarrow> map tolower s1 = map tolower s2"
  using eqcase_loop_iff [of s1 s2] map_eq_imp_length_eq [of tolower s1 tolower s2]
  by (auto simp: eqcase_def)

section \<open>Status\<close>

datatype Code =
    OK | SOCKET_ERROR | TLS_ERROR | DNS_ERROR | INVALID_URL | IO_ERROR | INTERNAL_ERROR

record Status =
  code :: Code
  msg :: string

definition kOk :: Status where
  "kOk = \<lparr>code = OK, msg = ''''\<rparr>"

definition Status_of_code :: "Code \<Rightarrow> Status" where
  "Status_of_code c = \<lparr>code = c, msg = ''''\<rparr>"

definition Status_msg :: "Code \<Rightarrow> string \<Rightarrow> Status" where
  "Status_msg c m = \<lparr>code = c, msg = m\<rparr>"

text \<open>\<open>strerror_r n\<close> is what the C library leaves in the message buffer for error \<open>n\<close>.\<close>

definition Status_errno :: "(int \<Rightarrow> string) \<Rightarrow> Code \<Rightarrow> int \<Rightarrow> Status" where
  "Status_errno strerror_r c errnum = \<lparr>code = c, msg = strerror_r errnum\<rparr>"

definition ok :: "Status \<Rightarrow> bool" where
  "ok s \<longleftrightarrow> code s = OK"

fun codeString :: "Code \<Rightarrow> string" where
  "codeString OK = ''ok''"
| "codeString SOCKET_ERROR = ''Socket error''"
| "codeString TLS_ERROR = ''TLS error''"
| "codeString DNS_ERROR = ''DNS error''"
| "codeString INVALID_URL = ''Invalid URL''"
| "codeString IO_ERROR = ''I/O error''"
| "codeString INTERNAL_ERROR = ''Internal error''"

definition str :: "Status \<Rightarrow> string" where
  "str s = codeString (code s) @ (if msg s \<noteq> [] then '': '' @ msg s else [])"

text \<open>\<^verbatim>\<open>StatusOr<T>\<close> holds a status and, when it is \<open>ok\<close>, a value. The program builds it from
  a value or from a status with an error code only.\<close>

type_synonym 'a StatusOr = "Status + 'a"

definition status_of :: "'a StatusOr \<Rightarrow> Status" where
  "status_of so = (case so of Inl s \<Rightarrow> s | Inr _ \<Rightarrow> kOk)"

lemma ok_simps [simp]:
  "ok kOk" "ok (Status_of_code c) \<longleftrightarrow> c = OK" "ok (Status_msg c m) \<longleftrightarrow> c = OK"
  "ok (Status_errno e c n) \<longleftrightarrow> c = OK"
  by (simp_all add: ok_def kOk_def Status_of_code_def Status_msg_def Status_errno_def)

end
