(* ===== verification/Lines.thy ===== *)
theory Lines
  imports CText
begin

text \<open>
  \<^verbatim>\<open>apib/apib_lines.{h,cc}\<close>: \<^verbatim>\<open>LineState\<close>, the line buffer behind the URL file, the
  \<^verbatim>\<open>/proc\<close> readers and the monitoring server. The first section translates the class, one
  definition per member; indices are the code's signed integers and every access to the heap
  block goes through \<open>rd\<close>/\<open>wr\<close>, so \<^const>\<open>None\<close> is an out-of-bounds access. The second section
  states what the buffer delivers as a function of the text put in, and shows that the code
  delivers it however the text is cut into reads.
\<close>

section \<open>The class\<close>

record LineState =
  buf :: "char list"      \<comment> \<open>the heap block \<^verbatim>\<open>buf_\<close>\<close>
  httpMode :: bool
  bufLen :: int
  bufSize :: int
  lineStart :: int
  lineEnd :: int
  lineComplete :: bool
  tokStart :: int
  tokEnd :: int

fun isChar :: "char \<Rightarrow> string \<Rightarrow> bool" where
  "isChar c [] = False"
| "isChar c (m # match) = (if c = m then True else isChar c match)"

lemma isChar_iff: "isChar c match \<longleftrightarrow> c \<in> set match"
  by (induction match) auto

declare isChar.simps [simp del]

definition is_nl :: "char \<Rightarrow> bool" where
  "is_nl c \<longleftrightarrow> c = CR \<or> c = LF"

lemma isChar_newline [simp]: "isChar c [CR, LF] = is_nl c"
  by (auto simp: isChar_iff is_nl_def)

text \<open>The three constructors. The last one takes the uninitialised block \<open>malloc\<close> returned.\<close>

definition LineState_buffer :: "char list \<Rightarrow> int \<Rightarrow> int \<Rightarrow> LineState" where
  "LineState_buffer block sz len =
     \<lparr>buf = block, httpMode = False, bufLen = len, bufSize = sz, lineStart = 0, lineEnd = 0,
      lineComplete = False, tokStart = 0, tokEnd = 0\<rparr>"

definition LineState_string :: "string \<Rightarrow> LineState" where
  "LineState_string s =
     \<lparr>buf = s, httpMode = False, bufLen = int (length s), bufSize = int (length s),
      lineStart = 0, lineEnd = 0, lineComplete = False, tokStart = 0, tokEnd = 0\<rparr>"

definition LineState_empty :: "char list \<Rightarrow> LineState" where
  "LineState_empty block =
     \<lparr>buf = block, httpMode = False, bufLen = 0, bufSize = int (length block),
      lineStart = 0, lineEnd = 0, lineComplete = False, tokStart = 0, tokEnd = 0\<rparr>"

definition clear :: "LineState \<Rightarrow> LineState" where
  "clear s = s\<lparr>bufLen := 0, lineStart := 0, lineEnd := 0, tokStart := 0, tokEnd := 0,
              lineComplete := False\<rparr>"

definition setHttpMode :: "LineState \<Rightarrow> bool \<Rightarrow> LineState" where
  "setHttpMode s on = s\<lparr>httpMode := on\<rparr>"

definition nullLast :: "LineState \<Rightarrow> LineState option" where
  "nullLast s = do {
     b \<leftarrow> wr (buf s) (lineEnd s) NUL;
     Some (s\<lparr>buf := b, lineEnd := lineEnd s + 1\<rparr>)
   }"

lemma nullLast_fields:
  "nullLast s = Some t \<Longrightarrow> bufLen t = bufLen s \<and> lineEnd t = lineEnd s + 1"
  by (auto simp: nullLast_def bind_eq_Some_conv)

text \<open>The first loop of \<open>next\<close>: move to the first newline character.\<close>

function scan_to_newline :: "LineState \<Rightarrow> LineState option" where
  "scan_to_newline s =
     (if lineEnd s < bufLen s then do {
        c \<leftarrow> rd (buf s) (lineEnd s);
        if \<not> isChar c [CR, LF] then scan_to_newline (s\<lparr>lineEnd := lineEnd s + 1\<rparr>) else Some s
      } else Some s)"
  by pat_completeness auto
termination
  by (relation "measure (\<lambda>s. nat (bufLen s - lineEnd s))") auto

declare scan_to_newline.simps [simp del]

text \<open>The second loop, outside HTTP mode: overwrite all newlines with NUL.\<close>

function null_newlines :: "LineState \<Rightarrow> LineState option" where
  "null_newlines s =
     (if lineEnd s < bufLen s then do {
        c \<leftarrow> rd (buf s) (lineEnd s);
        if isChar c [CR, LF] then do { t \<leftarrow> nullLast s; null_newlines t } else Some s
      } else Some s)"
  by pat_completeness auto
termination
  by (relation "measure (\<lambda>s. nat (bufLen s - lineEnd s))") (auto dest!: nullLast_fields)

declare null_newlines.simps [simp del]

text \<open>In HTTP mode: one CR, LF or CRLF. The byte after a CR is read without a bounds check.\<close>

definition null_http_newline :: "LineState \<Rightarrow> LineState option" where
  "null_http_newline s = do {
     c \<leftarrow> rd (buf s) (lineEnd s);
     if c = CR then do {
       t \<leftarrow> nullLast s;
       d \<leftarrow> rd (buf t) (lineEnd t);
       if d = LF then nullLast t else Some t
     } else nullLast s
   }"

definition next_line :: "LineState \<Rightarrow> (bool \<times> LineState) option" where
  "next_line s0 =
     (let s1 = (if lineEnd s0 > 0 then s0\<lparr>lineStart := lineEnd s0\<rparr> else s0) in
      if lineEnd s1 \<ge> bufLen s1 then Some (False, s1\<lparr>lineComplete := False\<rparr>)
      else do {
        s2 \<leftarrow> scan_to_newline s1;
        if lineEnd s2 \<ge> bufLen s2 then Some (False, s2\<lparr>lineComplete := False\<rparr>)
        else do {
          s3 \<leftarrow> (if httpMode s2 then null_http_newline s2 else null_newlines s2);
          Some (True, s3\<lparr>tokStart := lineStart s3, tokEnd := lineStart s3, lineComplete := True\<rparr>)
        }
      })"

definition line :: "LineState \<Rightarrow> string option" where
  "line s = (if \<not> lineComplete s then Some '''' else c_string_at (buf s) (lineStart s))"

text \<open>The two loops of \<open>nextToken\<close>, and that of \<open>skipMatches\<close>.\<close>

function scan_token :: "string \<Rightarrow> LineState \<Rightarrow> LineState option" where
  "scan_token toks s =
     (if tokEnd s < lineEnd s then do {
        c \<leftarrow> rd (buf s) (tokEnd s);
        if \<not> isChar c toks then scan_token toks (s\<lparr>tokEnd := tokEnd s + 1\<rparr>) else Some s
      } else Some s)"
  by pat_completeness auto
termination
  by (relation "measure (\<lambda>(toks, s). nat (lineEnd s - tokEnd s))") auto

function null_matches :: "string \<Rightarrow> LineState \<Rightarrow> LineState option" where
  "null_matches toks s =
     (if tokEnd s < lineEnd s then do {
        c \<leftarrow> rd (buf s) (tokEnd s);
        if isChar c toks then do {
          b \<leftarrow> wr (buf s) (tokEnd s) NUL;
          null_matches toks (s\<lparr>buf := b, tokEnd := tokEnd s + 1\<rparr>)
        } else Some s
      } else Some s)"
  by pat_completeness auto
termination
  by (relation "measure (\<lambda>(toks, s). nat (lineEnd s - tokEnd s))") auto

function skipMatches :: "string \<Rightarrow> LineState \<Rightarrow> LineState option" where
  "skipMatches toks s =
     (if tokEnd s < lineEnd s then do {
        c \<leftarrow> rd (buf s) (tokEnd s);
        if isChar c toks then skipMatches toks (s\<lparr>tokEnd := tokEnd s + 1\<rparr>) else Some s
      } else Some s)"
  by pat_completeness auto
termination
  by (relation "measure (\<lambda>(toks, s). nat (lineEnd s - tokEnd s))") auto

declare scan_token.simps [simp del] null_matches.simps [simp del] skipMatches.simps [simp del]

definition nextToken :: "LineState \<Rightarrow> string \<Rightarrow> (string \<times> LineState) option" where
  "nextToken s toks =
     (if \<not> lineComplete s then Some ('''', s)
      else if tokEnd s \<ge> lineEnd s then Some ('''', s)
      else do {
        let s1 = s\<lparr>tokStart := tokEnd s\<rparr>;
        s2 \<leftarrow> (if toks \<noteq> [] then do { t \<leftarrow> scan_token toks s1; null_matches toks t } else Some s1);
        tok \<leftarrow> c_string_at (buf s2) (tokStart s2);
        Some (tok, s2)
      })"

definition skip :: "LineState \<Rightarrow> int \<Rightarrow> LineState" where
  "skip s toSkip = s\<lparr>lineStart := lineStart s + toSkip, lineEnd := lineEnd s + toSkip\<rparr>"

text \<open>A negative \<open>remaining\<close> becomes a huge \<^verbatim>\<open>size_t\<close> in the \<^verbatim>\<open>memmove\<close>.\<close>

definition consume :: "LineState \<Rightarrow> (bool \<times> LineState) option" where
  "consume s =
     (let remaining = (if \<not> lineComplete s then bufLen s - lineStart s else 0) in
      do {
        b \<leftarrow> (if \<not> lineComplete s then
                if 0 \<le> lineStart s \<and> 0 \<le> remaining \<and> lineStart s + remaining \<le> int (length (buf s))
                then Some (store_at (buf s) 0 (take (nat remaining) (drop (nat (lineStart s)) (buf s))))
                else None
              else Some (buf s));
        Some (remaining < bufSize s,
              s\<lparr>buf := b, bufLen := remaining, lineStart := 0, lineEnd := 0, lineComplete := False\<rparr>)
      })"

text \<open>Bytes arriving at \<^verbatim>\<open>buf_ + bufLen_\<close>, as both read calls store them.\<close>

definition store_read :: "LineState \<Rightarrow> string \<Rightarrow> LineState option" where
  "store_read s bs =
     (if 0 \<le> bufLen s \<and> bufLen s + int (length bs) \<le> int (length (buf s))
      then Some (s\<lparr>buf := store_at (buf s) (nat (bufLen s)) bs, bufLen := bufLen s + int (length bs)\<rparr>)
      else None)"

text \<open>An input stream is the text still to be read; \<open>read\<close> delivers as much as is asked for and
  available. The results are \<open>gcount()\<close>, the new state and the rest of the stream.\<close>

definition readStream :: "LineState \<Rightarrow> string \<Rightarrow> (int \<times> LineState \<times> string) option" where
  "readStream s inp =
     (let bs = take (nat (bufSize s - bufLen s)) inp in
      do {
        t \<leftarrow> store_read s bs;
        Some (int (length bs), t, drop (length bs) inp)
      })"

text \<open>The answer of \<^verbatim>\<open>read(2)\<close>: bytes (none at end of file) or an error.\<close>

datatype read_answer = Read_bytes string | Read_failed

text \<open>
  The result of \<^verbatim>\<open>read\<close> is kept in a \<^verbatim>\<open>size_t\<close>, so \<open>r <= 0\<close> holds for 0 only; after an error
  the code adds \<open>2^64 - 1\<close> to the 32-bit \<open>bufLen_\<close>, which is subtracting 1.
\<close>

definition readFd :: "LineState \<Rightarrow> read_answer \<Rightarrow> (int \<times> LineState) option" where
  "readFd s a =
     (case a of
        Read_failed \<Rightarrow> Some (- 1, s\<lparr>bufLen := to_int32 (bufLen s + (2 ^ 64 - 1))\<rparr>)
      | Read_bytes bs \<Rightarrow>
          if bs = [] then Some (0, s)
          else do { t \<leftarrow> store_read s bs; Some (int (length bs), t) })"

text \<open>\<open>getReadInfo\<close>: the offset at which to write more data, and the space left.\<close>

definition getReadInfo :: "LineState \<Rightarrow> int \<times> int" where
  "getReadInfo s = (bufLen s, bufSize s - bufLen s)"

definition setReadLength :: "LineState \<Rightarrow> int \<Rightarrow> LineState" where
  "setReadLength s len = s\<lparr>bufLen := bufLen s + len\<rparr>"

definition dataRemaining :: "LineState \<Rightarrow> int" where
  "dataRemaining s = bufLen s - lineEnd s"

definition writeRemaining :: "LineState \<Rightarrow> string option" where
  "writeRemaining s =
     (if 0 \<le> lineEnd s \<and> lineEnd s \<le> bufLen s \<and> bufLen s \<le> int (length (buf s))
      then Some (take (nat (bufLen s - lineEnd s)) (drop (nat (lineEnd s)) (buf s))) else None)"

section \<open>What the buffer delivers\<close>

text \<open>
  \<open>split_text acc t\<close> cuts a text at every newline character: the pieces ended by a newline, and
  what follows the last one. \<open>acc\<close> is the beginning of the first piece.
\<close>

fun split_text :: "string \<Rightarrow> string \<Rightarrow> string list \<times> string" where
  "split_text acc [] = ([], acc)"
| "split_text acc (c # cs) =
     (if is_nl c then (acc # fst (split_text [] cs), snd (split_text [] cs))
      else split_text (acc @ [c]) cs)"

definition text_lines :: "string \<Rightarrow> string list" where
  "text_lines t = filter (\<lambda>l. l \<noteq> []) (fst (split_text [] t))"

definition text_rest :: "string \<Rightarrow> string" where
  "text_rest t = snd (split_text [] t)"

lemma split_text_append:
  "split_text acc (s @ t) =
     (fst (split_text acc s) @ fst (split_text (snd (split_text acc s)) t),
      snd (split_text (snd (split_text acc s)) t))"
  by (induction acc s rule: split_text.induct) (auto simp: Let_def)

lemma split_text_no_nl: "\<forall>c \<in> set w. \<not> is_nl c \<Longrightarrow> split_text acc (w @ t) = split_text (acc @ w) t"
  by (induction w arbitrary: acc) auto

lemma split_text_rest_no_nl:
  "\<forall>c \<in> set acc. \<not> is_nl c \<Longrightarrow> c \<in> set (snd (split_text acc t)) \<Longrightarrow> \<not> is_nl c"
  by (induction acc t rule: split_text.induct) (auto split: if_splits)

lemma text_rest_no_nl: "c \<in> set (text_rest t) \<Longrightarrow> \<not> is_nl c"
  using split_text_rest_no_nl [of "[]" c t] by (simp add: text_rest_def)

lemma split_text_newlines:
  "\<forall>c \<in> set ns. is_nl c \<Longrightarrow>
     filter (\<lambda>l. l \<noteq> []) (fst (split_text [] (ns @ t))) = filter (\<lambda>l. l \<noteq> []) (fst (split_text [] t)) \<and>
     snd (split_text [] (ns @ t)) = snd (split_text [] t)"
  by (induction ns) auto

lemma text_lines_append: "text_lines (s @ t) = text_lines s @ text_lines (text_rest s @ t)"
proof -
  have "split_text [] (text_rest s @ t) = split_text (text_rest s) t"
    using split_text_no_nl [of "text_rest s" "[]" t] text_rest_no_nl by auto
  then show ?thesis by (simp add: text_lines_def split_text_append text_rest_def)
qed

lemma text_rest_append: "text_rest (s @ t) = text_rest (text_rest s @ t)"
proof -
  have "split_text [] (text_rest s @ t) = split_text (text_rest s) t"
    using split_text_no_nl [of "text_rest s" "[]" t] text_rest_no_nl by auto
  then show ?thesis by (simp add: split_text_append text_rest_def)
qed

lemma text_no_nl:
  assumes "\<forall>c \<in> set w. \<not> is_nl c"
  shows "text_lines w = []" "text_rest w = w"
  using split_text_no_nl [OF assms, of "[]" "[]"] by (simp_all add: text_lines_def text_rest_def)

lemma text_first_line:
  assumes "\<forall>c \<in> set w. \<not> is_nl c" and "\<forall>c \<in> set ns. is_nl c" and "ns \<noteq> []"
  shows "text_lines (w @ ns @ t) = (if w = [] then text_lines t else w # text_lines t)"
    and "text_rest (w @ ns @ t) = text_rest t"
proof -
  obtain n ns' where ns: "ns = n # ns'" using assms(3) by (cases ns) auto
  with assms(2) have n: "is_nl n" "\<forall>c \<in> set ns'. is_nl c" by auto
  have "split_text [] (w @ ns @ t) = split_text w (n # ns' @ t)"
    using split_text_no_nl [OF assms(1), of "[]" "ns @ t"] ns by simp
  also have "\<dots> = (w # fst (split_text [] (ns' @ t)), snd (split_text [] (ns' @ t)))"
    using n(1) by (auto simp: Let_def)
  finally have eq: "split_text [] (w @ ns @ t) =
      (w # fst (split_text [] (ns' @ t)), snd (split_text [] (ns' @ t)))" .
  show "text_lines (w @ ns @ t) = (if w = [] then text_lines t else w # text_lines t)"
    using split_text_newlines [OF n(2), of t] by (simp add: text_lines_def eq)
  show "text_rest (w @ ns @ t) = text_rest t"
    using split_text_newlines [OF n(2), of t] by (simp add: text_rest_def eq)
qed

section \<open>Invariant and views\<close>

text \<open>
  \<open>wf_line\<close> is the representation invariant. \<open>unread\<close> is the text that \<open>next_line\<close> has not looked
  at yet, \<open>pending\<close> the incomplete line a failed \<open>next_line\<close> leaves for \<open>consume\<close>.
\<close>

definition wf_line :: "LineState \<Rightarrow> bool" where
  "wf_line s \<longleftrightarrow> 0 \<le> lineStart s \<and> lineStart s \<le> lineEnd s \<and> lineEnd s \<le> bufLen s \<and>
     bufLen s \<le> bufSize s \<and> bufSize s = int (length (buf s)) \<and>
     (lineComplete s \<longrightarrow> lineStart s < lineEnd s \<and> buf s ! nat (lineEnd s - 1) = NUL \<and>
        lineStart s \<le> tokStart s \<and> tokStart s \<le> tokEnd s \<and> tokEnd s \<le> lineEnd s)"

definition unread :: "LineState \<Rightarrow> string" where
  "unread s = take (nat (bufLen s - lineEnd s)) (drop (nat (lineEnd s)) (buf s))"

text \<open>The block as four adjacent parts: what is behind, the text, and the unused tail.\<close>

definition parts :: "LineState \<Rightarrow> string \<Rightarrow> string \<Rightarrow> string \<Rightarrow> bool" where
  "parts s pre u post \<longleftrightarrow> buf s = pre @ u @ post \<and> lineEnd s = int (length pre) \<and>
     bufLen s = int (length pre + length u)"

lemma partsD:
  assumes "parts s pre u post"
  shows "buf s = pre @ u @ post" "lineEnd s = int (length pre)"
    "bufLen s = int (length pre + length u)"
  using assms by (auto simp: parts_def)

lemma parts_unread: "parts s pre u post \<Longrightarrow> unread s = u"
  by (auto simp: parts_def unread_def nat_diff_distrib)

lemma wf_parts:
  assumes "0 \<le> lineEnd s" "lineEnd s \<le> bufLen s" "bufLen s \<le> int (length (buf s))"
  obtains pre post where "parts s pre (unread s) post"
proof
  let ?e = "nat (lineEnd s)" and ?l = "nat (bufLen s)"
  have "?e \<le> ?l" "?l \<le> length (buf s)" using assms by auto
  then have "drop ?e (buf s) = take (?l - ?e) (drop ?e (buf s)) @ drop ?l (buf s)"
    by (metis append_take_drop_id drop_drop le_add_diff_inverse2)
  moreover have "nat (bufLen s - lineEnd s) = ?l - ?e" using assms by (simp add: nat_diff_distrib)
  ultimately have "buf s = take ?e (buf s) @ unread s @ drop ?l (buf s)"
    unfolding unread_def by (metis append_take_drop_id)
  moreover have "length (take ?e (buf s)) = ?e" and "length (unread s) = ?l - ?e"
    using \<open>?e \<le> ?l\<close> \<open>?l \<le> length (buf s)\<close> assms by (simp_all add: unread_def nat_diff_distrib)
  ultimately show "parts s (take ?e (buf s)) (unread s) (drop ?l (buf s))"
    using \<open>?e \<le> ?l\<close> assms unfolding parts_def by simp
qed

lemma rd_parts: "rd (pre @ c # xs) (int (length pre)) = Some c"
  by (simp add: rd_def in_bounds_def nth_append)

lemma wr_parts: "wr (pre @ c # xs) (int (length pre)) d = Some (pre @ d # xs)"
  by (simp add: wr_def in_bounds_def)

lemma scan_to_newline_parts:
  "parts s pre u post \<Longrightarrow>
     scan_to_newline s =
       Some (s\<lparr>lineEnd := int (length pre + length (takeWhile (\<lambda>c. \<not> is_nl c) u))\<rparr>)"
proof (induction u arbitrary: s pre)
  case Nil
  then show ?case by (subst scan_to_newline.simps) (simp add: parts_def)
next
  case (Cons c u)
  from Cons.prems have r: "rd (buf s) (lineEnd s) = Some c" and lt: "lineEnd s < bufLen s"
    by (simp_all add: parts_def rd_parts)
  show ?case
  proof (cases "is_nl c")
    case True
    with r lt Cons.prems show ?thesis
      by (subst scan_to_newline.simps) (auto simp: parts_def)
  next
    case False
    let ?s = "s\<lparr>lineEnd := lineEnd s + 1\<rparr>"
    have "parts ?s (pre @ [c]) u post" using Cons.prems by (simp add: parts_def)
    from Cons.IH [OF this] False r lt show ?thesis
      by (subst scan_to_newline.simps) simp
  qed
qed

lemma null_newlines_parts:
  "parts s pre (ns @ rest) post \<Longrightarrow> \<forall>c \<in> set ns. is_nl c \<Longrightarrow> rest = [] \<or> \<not> is_nl (hd rest) \<Longrightarrow>
     null_newlines s =
       Some (s\<lparr>buf := pre @ replicate (length ns) NUL @ rest @ post,
               lineEnd := int (length pre + length ns)\<rparr>)"
proof (induction ns arbitrary: s pre)
  case Nil
  then have "rest = [] \<or> (\<exists>c rs. rest = c # rs \<and> \<not> is_nl c)" by (cases rest) auto
  with Nil.prems show ?case
    by (subst null_newlines.simps) (auto simp: parts_def rd_parts)
next
  case (Cons c ns)
  let ?s = "s\<lparr>buf := pre @ NUL # ns @ rest @ post, lineEnd := lineEnd s + 1\<rparr>"
  from Cons.prems have r: "rd (buf s) (lineEnd s) = Some c" and lt: "lineEnd s < bufLen s"
    and n: "nullLast s = Some ?s"
    by (simp_all add: parts_def rd_parts nullLast_def wr_parts)
  have "parts ?s (pre @ [NUL]) (ns @ rest) post" using Cons.prems(1) by (simp add: parts_def)
  from Cons.IH [OF this] Cons.prems r lt n show ?case
    by (subst null_newlines.simps) simp
qed

section \<open>One line\<close>

lemma next_line_incomplete:
  assumes "parts s pre u post" and "\<forall>c \<in> set u. \<not> is_nl c"
  shows "next_line s =
    Some (False, s\<lparr>lineStart := (if 0 < lineEnd s then lineEnd s else lineStart s),
                   lineEnd := bufLen s, lineComplete := False\<rparr>)"
proof -
  let ?s = "if 0 < lineEnd s then s\<lparr>lineStart := lineEnd s\<rparr> else s"
  have p: "parts ?s pre u post" using assms(1) by (simp add: parts_def)
  have tw: "takeWhile (\<lambda>c. \<not> is_nl c) u = u" using assms(2) by (simp add: takeWhile_eq_all_conv)
  have "scan_to_newline ?s = Some (?s\<lparr>lineEnd := bufLen s\<rparr>)"
    using scan_to_newline_parts [OF p] assms(1) by (simp add: tw parts_def)
  moreover have "bufLen s \<le> lineEnd s \<Longrightarrow> lineEnd s = bufLen s"
    using assms(1) by (simp add: parts_def)
  ultimately show ?thesis by (auto simp: next_line_def Let_def)
qed

lemma next_line_complete:
  assumes p: "parts s pre (w @ ns @ rest) post" and "\<not> httpMode s"
    and w: "\<forall>c \<in> set w. \<not> is_nl c" and ns: "\<forall>c \<in> set ns. is_nl c" "ns \<noteq> []"
    and rest: "rest = [] \<or> \<not> is_nl (hd rest)"
  shows "next_line s =
    Some (True, s\<lparr>buf := pre @ w @ replicate (length ns) NUL @ rest @ post,
                  lineStart := (if 0 < lineEnd s then lineEnd s else lineStart s),
                  lineEnd := int (length pre + length w + length ns), lineComplete := True,
                  tokStart := (if 0 < lineEnd s then lineEnd s else lineStart s),
                  tokEnd := (if 0 < lineEnd s then lineEnd s else lineStart s)\<rparr>)"
proof -
  let ?s = "if 0 < lineEnd s then s\<lparr>lineStart := lineEnd s\<rparr> else s"
  let ?t = "?s\<lparr>lineEnd := int (length pre + length w)\<rparr>"
  have ps: "parts ?s pre (w @ ns @ rest) post" using p by (simp add: parts_def)
  have "takeWhile (\<lambda>c. \<not> is_nl c) (w @ ns @ rest) = w"
    using w ns by (cases ns) (auto simp: takeWhile_append)
  with scan_to_newline_parts [OF ps] have scan: "scan_to_newline ?s = Some ?t" by simp
  have "parts ?t (pre @ w) (ns @ rest) post" using p by (simp add: parts_def)
  from null_newlines_parts [OF this ns(1) rest]
  have null: "null_newlines ?t = Some (?t\<lparr>buf := pre @ w @ replicate (length ns) NUL @ rest @ post,
      lineEnd := int (length pre + length w + length ns)\<rparr>)" by simp
  from p ns(2) have "lineEnd ?s < bufLen ?s" "lineEnd ?t < bufLen ?t" "\<not> httpMode ?t"
    using assms(2) by (cases ns; simp add: parts_def)+
  then show ?thesis using scan null by (simp add: next_line_def Let_def)
qed

lemma wf_lineStart_zero: "wf_line s \<Longrightarrow> (if 0 < lineEnd s then lineEnd s else lineStart s) = lineEnd s"
  by (auto simp: wf_line_def)

text \<open>Every text is a first line, its newlines and the rest, or has no newline.\<close>

lemma first_line_cases:
  obtains (incomplete) "\<forall>c \<in> set u. \<not> is_nl c"
  | (complete) w ns rest where "u = w @ ns @ rest" "\<forall>c \<in> set w. \<not> is_nl c"
      "\<forall>c \<in> set ns. is_nl c" "ns \<noteq> []" "rest = [] \<or> \<not> is_nl (hd rest)"
proof (cases "\<forall>c \<in> set u. \<not> is_nl c")
  case True
  then show ?thesis by (rule incomplete)
next
  case False
  let ?w = "takeWhile (\<lambda>c. \<not> is_nl c) u" and ?d = "dropWhile (\<lambda>c. \<not> is_nl c) u"
  let ?ns = "takeWhile is_nl ?d" and ?r = "dropWhile is_nl ?d"
  have "?d \<noteq> []" using False by (auto simp: dropWhile_eq_Nil_conv)
  then have "is_nl (hd ?d)" using hd_dropWhile [of "\<lambda>c. \<not> is_nl c" u] by auto
  with \<open>?d \<noteq> []\<close> have c: "?ns \<noteq> []" by (cases ?d) auto
  have eq: "u = ?w @ ?ns @ ?r" by simp
  have w: "\<forall>c \<in> set ?w. \<not> is_nl c" and n: "\<forall>c \<in> set ?ns. is_nl c"
    by (auto dest: set_takeWhileD)
  have r: "?r = [] \<or> \<not> is_nl (hd ?r)" using hd_dropWhile [of is_nl ?d] by blast
  show ?thesis by (rule complete [OF eq w n c r])
qed

text \<open>After a complete line: the line is the first piece up to a NUL, the rest is still unread, and
  the invariant holds again.\<close>

lemma c_string_at_parts:
  "k > 0 \<Longrightarrow> c_string_at (pre @ w @ replicate k NUL @ xs) (int (length pre)) =
     Some (takeWhile (\<lambda>c. c \<noteq> NUL) w)"
  by (cases k) (simp_all add: c_string_at_def takeWhile_tail)

lemma next_line_wf_complete:
  assumes wf: "wf_line s" and "\<not> httpMode s" and p: "parts s pre (w @ ns @ rest) post"
    and w: "\<forall>c \<in> set w. \<not> is_nl c" and ns: "\<forall>c \<in> set ns. is_nl c" "ns \<noteq> []"
    and rest: "rest = [] \<or> \<not> is_nl (hd rest)"
  obtains t where "next_line s = Some (True, t)" "wf_line t" "lineComplete t" "unread t = rest"
    "line t = Some (takeWhile (\<lambda>c. c \<noteq> NUL) w)" "httpMode t = httpMode s" "bufSize t = bufSize s"
    "tokEnd t = lineStart t" "lineStart t = lineEnd s"
    "parts t (pre @ w @ replicate (length ns) NUL) rest post"
proof
  let ?t = "s\<lparr>buf := pre @ w @ replicate (length ns) NUL @ rest @ post,
               lineStart := lineEnd s, lineEnd := int (length pre + length w + length ns),
               lineComplete := True, tokStart := lineEnd s, tokEnd := lineEnd s\<rparr>"
  show "next_line s = Some (True, ?t)"
    using next_line_complete [OF p assms(2) w ns rest] wf_lineStart_zero [OF wf] by simp
  show pt: "parts ?t (pre @ w @ replicate (length ns) NUL) rest post"
    using p by (simp add: parts_def)
  then show "unread ?t = rest" by (rule parts_unread)
  show "line ?t = Some (takeWhile (\<lambda>c. c \<noteq> NUL) w)"
    using ns(2) p by (simp add: line_def parts_def c_string_at_parts)
  have le: "lineEnd s = int (length pre)" "0 < int (length w) + int (length ns)"
    using p ns(2) by (cases ns; simp add: parts_def)+
  have "(pre @ w @ replicate (length ns) NUL @ rest @ post) !
      nat (int (length pre + length w + length ns) - 1) = NUL"
    using ns(2) by (cases "length ns") (simp_all add: nth_append nat_add_distrib del: replicate_Suc)
  then show "wf_line ?t" using wf p le by (auto simp: wf_line_def parts_def)
qed simp_all

lemma next_line_wf_incomplete:
  assumes wf: "wf_line s" and p: "parts s pre u post" and u: "\<forall>c \<in> set u. \<not> is_nl c"
  obtains t where "next_line s = Some (False, t)" "wf_line t" "\<not> lineComplete t"
    "httpMode t = httpMode s" "bufSize t = bufSize s" "lineStart t = int (length pre)"
    "lineEnd t = bufLen t" "buf t = pre @ u @ post" "bufLen t = int (length pre + length u)"
proof
  let ?t = "s\<lparr>lineStart := lineEnd s, lineEnd := bufLen s, lineComplete := False\<rparr>"
  show "next_line s = Some (False, ?t)"
    using next_line_incomplete [OF p u] wf_lineStart_zero [OF wf] by simp
  show "wf_line ?t" using wf by (auto simp: wf_line_def)
qed (use p in \<open>simp_all add: parts_def\<close>)

section \<open>The loop over the lines of the buffer\<close>

text \<open>
  \<open>for_lines body s acc\<close> is the loop \<^verbatim>\<open>while (line.next()) { l = line.line(); ... }\<close> every client
  of the class runs; \<open>body\<close> returns \<open>Inl\<close> to leave it with a result of its own. It ends because
  each complete line advances \<open>lineEnd\<close>.
\<close>

lemma scan_to_newline_advances:
  "scan_to_newline s = Some t \<Longrightarrow> bufLen t = bufLen s \<and> lineEnd s \<le> lineEnd t \<and> buf t = buf s \<and>
     (lineEnd t < bufLen t \<longrightarrow> (\<exists>c. rd (buf t) (lineEnd t) = Some c \<and> is_nl c))"
proof (induction s rule: scan_to_newline.induct)
  case (1 s)
  show ?case
    using "1.prems" "1.IH"
    by (subst (asm) scan_to_newline.simps) (fastforce simp: bind_eq_Some_conv split: if_splits)
qed

lemma null_newlines_advances:
  "null_newlines s = Some t \<Longrightarrow> bufLen t = bufLen s \<and> lineEnd s \<le> lineEnd t \<and>
     (lineEnd s < bufLen s \<and> (\<exists>c. rd (buf s) (lineEnd s) = Some c \<and> is_nl c) \<longrightarrow> lineEnd s < lineEnd t)"
proof (induction s rule: null_newlines.induct)
  case (1 s)
  show ?case
    using "1.prems" "1.IH"
    by (subst (asm) null_newlines.simps)
      (fastforce simp: bind_eq_Some_conv dest: nullLast_fields split: if_splits)
qed

lemma null_http_newline_advances:
  "null_http_newline s = Some t \<Longrightarrow> bufLen t = bufLen s \<and> lineEnd s < lineEnd t"
  by (auto simp: null_http_newline_def bind_eq_Some_conv dest!: nullLast_fields split: if_splits)

lemma next_line_advances:
  assumes "next_line s = Some (True, t)"
  shows "nat (bufLen t - lineEnd t) < nat (bufLen s - lineEnd s)"
proof -
  let ?s = "if lineEnd s > 0 then s\<lparr>lineStart := lineEnd s\<rparr> else s"
  from assms obtain s2 s3 where lt: "lineEnd ?s < bufLen ?s" and s2: "scan_to_newline ?s = Some s2"
    and lt2: "lineEnd s2 < bufLen s2"
    and s3: "(if httpMode s2 then null_http_newline s2 else null_newlines s2) = Some s3"
    and t: "t = s3\<lparr>tokStart := lineStart s3, tokEnd := lineStart s3, lineComplete := True\<rparr>"
    by (auto simp: next_line_def Let_def bind_eq_Some_conv split: if_splits)
  from scan_to_newline_advances [OF s2] lt2
  have "bufLen s2 = bufLen s" "lineEnd s \<le> lineEnd s2" "\<exists>c. rd (buf s2) (lineEnd s2) = Some c \<and> is_nl c"
    by (auto split: if_splits)
  moreover from this lt2 s3 have "bufLen s3 = bufLen s2 \<and> lineEnd s2 < lineEnd s3"
    using null_newlines_advances [of s2 s3] null_http_newline_advances [of s2 s3]
    by (auto split: if_splits)
  ultimately show ?thesis using lt2 t by auto
qed

function for_lines :: "(string \<Rightarrow> 'a \<Rightarrow> 'e + 'a) \<Rightarrow> LineState \<Rightarrow> 'a \<Rightarrow> (LineState \<times> ('e + 'a)) option" where
  "for_lines body s acc = do {
     (b, t) \<leftarrow> next_line s;
     if \<not> b then Some (t, Inr acc)
     else do {
       l \<leftarrow> line t;
       case body l acc of Inl e \<Rightarrow> Some (t, Inl e) | Inr acc' \<Rightarrow> for_lines body t acc'
     }
   }"
  by pat_completeness auto
termination
  by (relation "measure (\<lambda>(body, s, acc). nat (bufLen s - lineEnd s))") (auto dest: next_line_advances)

declare for_lines.simps [simp del]

fun fold_lines :: "(string \<Rightarrow> 'a \<Rightarrow> 'e + 'a) \<Rightarrow> string list \<Rightarrow> 'a \<Rightarrow> 'e + 'a" where
  "fold_lines body [] acc = Inr acc"
| "fold_lines body (l # ls) acc =
     (case body l acc of Inl e \<Rightarrow> Inl e | Inr acc' \<Rightarrow> fold_lines body ls acc')"

lemma fold_lines_append:
  "fold_lines body (ls @ ms) acc =
     (case fold_lines body ls acc of Inl e \<Rightarrow> Inl e | Inr a \<Rightarrow> fold_lines body ms a)"
  by (induction ls arbitrary: acc) (auto split: sum.splits)

text \<open>The lines the loop delivers for a buffered text: a text that starts with a newline gives one
  blank line first.\<close>

definition delivered :: "string \<Rightarrow> string list" where
  "delivered u = (if u \<noteq> [] \<and> is_nl (hd u) then [] # text_lines u else text_lines u)"

lemma delivered_step:
  assumes "\<forall>c \<in> set w. \<not> is_nl c" "\<forall>c \<in> set ns. is_nl c" "ns \<noteq> []" "rest = [] \<or> \<not> is_nl (hd rest)"
  shows "delivered (w @ ns @ rest) = w # delivered rest"
  using assms text_first_line(1) [OF assms(1-3), of rest]
  by (cases w; cases ns) (auto simp: delivered_def)

lemma fold_lines_delivered:
  "(\<And>a. body [] a = Inr a) \<Longrightarrow> fold_lines body (delivered u) acc = fold_lines body (text_lines u) acc"
  by (simp add: delivered_def)

text \<open>\<open>leaves t r\<close>: the loop has looked at everything and holds the incomplete line \<open>r\<close>.\<close>

definition leaves :: "LineState \<Rightarrow> string \<Rightarrow> bool" where
  "leaves t r \<longleftrightarrow> \<not> lineComplete t \<and> lineEnd t = bufLen t \<and>
     (\<exists>pre post. buf t = pre @ r @ post \<and> lineStart t = int (length pre) \<and>
        bufLen t = int (length pre + length r))"

lemma for_lines_delivers:
  assumes "wf_line s" and "\<not> httpMode s" and "NUL \<notin> set (unread s)"
  shows "\<exists>t. for_lines body s acc = Some (t, fold_lines body (delivered (unread s)) acc) \<and>
    wf_line t \<and> httpMode t = httpMode s \<and> bufSize t = bufSize s \<and>
    (isl (fold_lines body (delivered (unread s)) acc) \<or> leaves t (text_rest (unread s)))"
  using assms
proof (induction "length (unread s)" arbitrary: s acc rule: less_induct)
  case less
  have "0 \<le> lineEnd s" "lineEnd s \<le> bufLen s" "bufLen s \<le> int (length (buf s))"
    using less.prems(1) by (auto simp: wf_line_def)
  then obtain pre post where p: "parts s pre (unread s) post" by (rule wf_parts)
  show ?case
  proof (cases "unread s" rule: first_line_cases)
    case incomplete
    obtain t where t: "next_line s = Some (False, t)" "wf_line t" "\<not> lineComplete t"
      "httpMode t = httpMode s" "bufSize t = bufSize s" "lineStart t = int (length pre)"
      "lineEnd t = bufLen t" "buf t = pre @ unread s @ post"
      "bufLen t = int (length pre + length (unread s))"
      using next_line_wf_incomplete [OF less.prems(1) p incomplete] by blast
    have d: "delivered (unread s) = []" "text_rest (unread s) = unread s"
      using text_no_nl [OF incomplete] incomplete by (auto simp: delivered_def)
    have "leaves t (unread s)" using t by (auto simp: leaves_def)
    with t d show ?thesis by (subst for_lines.simps) simp
  next
    case (complete w ns rest)
    from p complete(1) have p': "parts s pre (w @ ns @ rest) post" by simp
    obtain t where t: "next_line s = Some (True, t)" "wf_line t" "unread t = rest"
      "line t = Some (takeWhile (\<lambda>c. c \<noteq> NUL) w)" "httpMode t = httpMode s" "bufSize t = bufSize s"
      using next_line_wf_complete [OF less.prems(1,2) p' complete(2-5)] by blast
    have noNUL: "NUL \<notin> set w" "NUL \<notin> set rest" using less.prems(3) complete(1) by auto
    have "takeWhile (\<lambda>c. c \<noteq> NUL) w = w" using noNUL(1) by (auto simp: takeWhile_eq_all_conv)
    then have l: "line t = Some w" using t(4) by simp
    have d: "delivered (unread s) = w # delivered rest"
      using delivered_step [OF complete(2-5)] complete(1) by simp
    have r: "text_rest (unread s) = text_rest rest"
      using text_first_line(2) [OF complete(2-4)] complete(1) by simp
    show ?thesis
    proof (cases "body w acc")
      case (Inl e)
      with t(1,2,5,6) l d show ?thesis by (subst for_lines.simps) simp
    next
      case (Inr acc')
      have lt: "length (unread t) < length (unread s)" using t(3) complete(1,4) by (cases ns) auto
      have "\<not> httpMode t" "NUL \<notin> set (unread t)" using t(3,5) less.prems(2) noNUL(2) by simp_all
      from less.hyps [OF lt t(2) this, of acc']
      show ?thesis using t l d r Inr by (subst for_lines.simps) simp
    qed
  qed
qed

section \<open>Refilling the buffer\<close>

lemma consume_leaves:
  assumes "leaves t r" and "wf_line t"
  obtains v post where "consume t = Some (int (length r) < bufSize t, v)" "parts v [] r post"
    "wf_line v" "\<not> lineComplete v" "bufSize v = bufSize t" "httpMode v = httpMode t" "lineStart v = 0"
proof -
  from assms(1) obtain pre post where b: "buf t = pre @ r @ post" "lineStart t = int (length pre)"
    "bufLen t = int (length pre + length r)" "\<not> lineComplete t" by (auto simp: leaves_def)
  let ?b = "r @ drop (length r) (pre @ r @ post)"
  let ?v = "t\<lparr>buf := ?b, bufLen := int (length r), lineStart := 0, lineEnd := 0, lineComplete := False\<rparr>"
  have "consume t = Some (int (length r) < bufSize t, ?v)"
    using b by (simp add: consume_def Let_def store_at_def)
  moreover have "parts ?v [] r (drop (length r) (pre @ r @ post))" by (simp add: parts_def)
  moreover have "wf_line ?v" using assms(2) b by (auto simp: wf_line_def)
  ultimately show ?thesis using that by simp
qed

lemma store_read_parts:
  assumes p: "parts s pre u post" and len: "length bs \<le> length post"
  obtains t post' where "store_read s bs = Some t" "parts t pre (u @ bs) post'"
    "t = s\<lparr>buf := pre @ u @ bs @ drop (length bs) post, bufLen := bufLen s + int (length bs)\<rparr>"
proof
  let ?t = "s\<lparr>buf := pre @ u @ bs @ drop (length bs) post, bufLen := bufLen s + int (length bs)\<rparr>"
  show "store_read s bs = Some ?t"
    using p len by (simp add: store_read_def parts_def store_at_def nat_add_distrib)
  show "parts ?t pre (u @ bs) (drop (length bs) post)" using p by (simp add: parts_def)
qed simp

section \<open>Reading a whole stream\<close>

text \<open>
  The loop of the clients that read a stream to its end:
  \<^verbatim>\<open>rc = readStream(in); if (rc > 0) { while (line.next()) ...; line.consume(); }\<close>, again while
  \<^verbatim>\<open>rc > 0\<close>. The result of \<^verbatim>\<open>consume\<close> is ignored, as in the code.
\<close>

lemma readStream_progress:
  "readStream s inp = Some (rc, t, inp') \<Longrightarrow> 0 < rc \<Longrightarrow> length inp' < length inp"
  by (auto simp: readStream_def Let_def bind_eq_Some_conv)

function read_lines ::
    "(string \<Rightarrow> 'a \<Rightarrow> 'e + 'a) \<Rightarrow> LineState \<Rightarrow> string \<Rightarrow> 'a \<Rightarrow> ('e + 'a) option" where
  "read_lines body s inp acc = do {
     (rc, t, inp') \<leftarrow> readStream s inp;
     if rc > 0 then do {
       (u, r) \<leftarrow> for_lines body t acc;
       case r of Inl e \<Rightarrow> Some (Inl e)
       | Inr acc' \<Rightarrow> do { (b, v) \<leftarrow> consume u; read_lines body v inp' acc' }
     } else Some (Inr acc)
   }"
  by pat_completeness auto
termination
  by (relation "measure (\<lambda>(body, s, inp, acc). length inp)") (auto dest: readStream_progress)

declare read_lines.simps [simp del]

text \<open>A text is short for a buffer of \<open>n\<close> bytes when every line of it fits with a byte to spare.\<close>

definition short_lines :: "nat \<Rightarrow> string \<Rightarrow> bool" where
  "short_lines n t \<longleftrightarrow>
     list_all (\<lambda>l. length l < n) (fst (split_text [] t)) \<and> length (text_rest t) < n"

lemma split_text_first_piece:
  "\<exists>l. (l \<in> set (fst (split_text acc t)) \<or> l = snd (split_text acc t)) \<and> length acc \<le> length l"
proof (induction acc t rule: split_text.induct)
  case (2 acc c cs)
  then show ?case by (cases "is_nl c") fastforce+
qed auto

lemma short_lines_rest:
  assumes "short_lines n (s @ t)"
  shows "length (text_rest s) < n" and "short_lines n (text_rest s @ t)"
proof -
  have eq: "split_text [] (text_rest s @ t) = split_text (text_rest s) t"
    using split_text_no_nl [of "text_rest s" "[]" t] text_rest_no_nl by auto
  have split: "split_text [] (s @ t) =
      (fst (split_text [] s) @ fst (split_text (text_rest s) t), snd (split_text (text_rest s) t))"
    by (simp add: split_text_append text_rest_def)
  obtain l where "l \<in> set (fst (split_text (text_rest s) t)) \<or> l = snd (split_text (text_rest s) t)"
    "length (text_rest s) \<le> length l" using split_text_first_piece by blast
  with assms split show "length (text_rest s) < n"
    by (auto simp: short_lines_def list_all_iff text_rest_def [of "s @ t"] dest: order.strict_trans1)
  show "short_lines n (text_rest s @ t)"
    using assms split eq by (simp add: short_lines_def text_rest_def [of "s @ t"]
        text_rest_def [of "text_rest s @ t"])
qed

lemma text_rest_subset: "set (text_rest t) \<subseteq> set t"
proof -
  have "set (snd (split_text acc t)) \<subseteq> set acc \<union> set t" for acc
    by (induction acc t rule: split_text.induct) (auto split: if_splits)
  from this [of "[]"] show ?thesis by (simp add: text_rest_def)
qed

text \<open>A text whose newline characters each end a nonempty line.\<close>

fun separated :: "string \<Rightarrow> bool" where
  "separated (c # d # cs) \<longleftrightarrow> \<not> (is_nl c \<and> is_nl d) \<and> separated (d # cs)"
| "separated _ \<longleftrightarrow> True"

definition no_blank_lines :: "string \<Rightarrow> bool" where
  "no_blank_lines t \<longleftrightarrow> separated (LF # t)"

lemma separated_suffix: "separated (xs @ ys) \<Longrightarrow> separated ys"
proof (induction xs)
  case (Cons c xs)
  then show ?case by (cases "xs @ ys") auto
qed simp

lemma separated_LF: "separated (c # t) \<Longrightarrow> is_nl c \<Longrightarrow> separated (LF # t)"
  by (cases t) (auto simp: is_nl_def)

lemma no_blank_lines_start: "no_blank_lines t \<Longrightarrow> t = [] \<or> \<not> is_nl (hd t)"
  by (cases t) (auto simp: no_blank_lines_def is_nl_def)

lemma text_rest_suffix: "\<exists>pre. s = pre @ text_rest s \<and> (pre = [] \<or> is_nl (last pre))"
proof -
  have "\<exists>pre. acc @ s = pre @ snd (split_text acc s) \<and> (pre = [] \<or> is_nl (last pre))" for acc
  proof (induction acc s rule: split_text.induct)
    case (2 acc c cs)
    show ?case
    proof (cases "is_nl c")
      case True
      with "2.IH"(1) obtain pre where pre: "cs = pre @ snd (split_text [] cs)" "pre = [] \<or> is_nl (last pre)"
        by auto
      have "acc @ c # cs = (acc @ c # pre) @ snd (split_text [] cs)" by (subst pre(1)) simp
      moreover have "is_nl (last (acc @ c # pre))" using pre(2) True by auto
      moreover have "snd (split_text acc (c # cs)) = snd (split_text [] cs)" using True by simp
      ultimately show ?thesis by (intro exI [of _ "acc @ c # pre"]) simp
    next
      case False
      with 2 show ?thesis by simp
    qed
  qed simp
  from this [of "[]"] show ?thesis by (simp add: text_rest_def)
qed

lemma no_blank_lines_rest: "no_blank_lines (s @ t) \<Longrightarrow> no_blank_lines (text_rest s @ t)"
proof -
  assume a: "no_blank_lines (s @ t)"
  obtain pre where pre: "s = pre @ text_rest s" "pre = [] \<or> is_nl (last pre)"
    using text_rest_suffix by blast
  show ?thesis
  proof (cases "pre = []")
    case True
    with pre a show ?thesis by simp
  next
    case False
    then have "pre = butlast pre @ [last pre]" by simp
    then have "s = butlast pre @ [last pre] @ text_rest s" using pre(1) by (metis append.assoc)
    then have "LF # s @ t = (LF # butlast pre) @ last pre # text_rest s @ t"
      using arg_cong [of s _ "\<lambda>x. LF # x @ t"] by simp
    with a have "separated ((LF # butlast pre) @ last pre # text_rest s @ t)"
      by (simp add: no_blank_lines_def)
    then have "separated (last pre # text_rest s @ t)" by (rule separated_suffix)
    with False pre(2) show ?thesis by (simp add: no_blank_lines_def separated_LF)
  qed
qed

text \<open>The state between two reads: the buffer starts with the incomplete line \<open>r\<close>, and the stream still
  holds \<open>inp\<close>.\<close>

definition between_reads :: "(string \<Rightarrow> 'a \<Rightarrow> 'e + 'a) \<Rightarrow> LineState \<Rightarrow> string \<Rightarrow> string \<Rightarrow> bool" where
  "between_reads body s r inp \<longleftrightarrow>
     wf_line s \<and> \<not> httpMode s \<and> lineStart s = 0 \<and> \<not> lineComplete s \<and> (\<exists>post. parts s [] r post) \<and>
     (\<forall>c \<in> set r. \<not> is_nl c) \<and> NUL \<notin> set (r @ inp) \<and> short_lines (nat (bufSize s)) (r @ inp) \<and>
     ((\<forall>a. body [] a = Inr a) \<or> no_blank_lines (r @ inp))"

lemma between_reads_empty:
  "NUL \<notin> set inp \<Longrightarrow> short_lines (length block) inp \<Longrightarrow> (\<forall>a. body [] a = Inr a) \<or> no_blank_lines inp \<Longrightarrow>
     between_reads body (LineState_empty block) [] inp"
  by (simp add: between_reads_def LineState_empty_def wf_line_def parts_def)

lemma between_reads_end:
  "between_reads body s r [] \<Longrightarrow> text_lines r = []"
  using text_no_nl(1) unfolding between_reads_def by blast

lemma between_reads_space:
  assumes "between_reads body s r inp"
  shows "0 < nat (bufSize s - bufLen s)"
proof -
  from assms obtain post where p: "wf_line s" "parts s [] r post" "\<forall>c \<in> set r. \<not> is_nl c"
    "short_lines (nat (bufSize s)) (r @ inp)" by (auto simp: between_reads_def)
  have "text_rest r = r" using text_no_nl(2) p(3) by blast
  then show ?thesis using short_lines_rest(1) [OF p(4)] p(1,2)
    by (cases post) (simp_all add: wf_line_def parts_def)
qed

text \<open>What a client sees of a read does not depend on a newline at its start.\<close>

lemma between_reads_delivered:
  assumes "between_reads body s r inp" and "0 < n" "inp \<noteq> []"
  shows "fold_lines body (delivered (r @ take n inp)) acc = fold_lines body (text_lines (r @ take n inp)) acc"
proof (cases "\<forall>a. body [] a = Inr a")
  case True
  then show ?thesis by (intro fold_lines_delivered) blast
next
  case False
  then have "r @ inp = [] \<or> \<not> is_nl (hd (r @ inp))"
    using assms(1) no_blank_lines_start unfolding between_reads_def by blast
  then have "r @ take n inp = [] \<or> \<not> is_nl (hd (r @ take n inp))"
    using assms(2,3) by (cases r; cases inp) (auto simp: take_Cons')
  then show ?thesis by (auto simp: delivered_def)
qed

text \<open>One round of a client: a read of the next \<open>n\<close> bytes, the lines that it completes, and, unless the
  client stops, the rest moved to the front of the buffer for the next round.\<close>

lemma read_round:
  assumes b: "between_reads body s r inp" and n: "0 < n" "n \<le> nat (bufSize s - bufLen s)" and ne: "inp \<noteq> []"
  obtains t u where "store_read s (take n inp) = Some t"
    "for_lines body t acc = Some (u, fold_lines body (text_lines (r @ take n inp)) acc)"
    "\<And>a. fold_lines body (text_lines (r @ take n inp)) acc = Inr a \<Longrightarrow>
       \<exists>v. consume u = Some (True, v) \<and> between_reads body v (text_rest (r @ take n inp)) (drop n inp)"
proof -
  let ?bs = "take n inp" and ?rest = "drop n inp"
  let ?u = "r @ ?bs"
  from b obtain post where s: "wf_line s" "\<not> httpMode s" "lineStart s = 0" "\<not> lineComplete s" "parts s [] r post"
    "NUL \<notin> set (r @ inp)" "short_lines (nat (bufSize s)) (?u @ ?rest)"
    "(\<forall>a. body [] a = Inr a) \<or> no_blank_lines (?u @ ?rest)" by (auto simp: between_reads_def)
  have len: "length ?bs \<le> length post" using n(2) s(1,5) by (simp add: wf_line_def parts_def)
  obtain t post' where t: "store_read s ?bs = Some t" "parts t [] ?u post'"
    "t = s\<lparr>buf := [] @ r @ ?bs @ drop (length ?bs) post, bufLen := bufLen s + int (length ?bs)\<rparr>"
    using store_read_parts [OF s(5) len] by metis
  have wft: "wf_line t" "\<not> httpMode t" "bufSize t = bufSize s" "unread t = ?u"
    using t(3) s(1,2,4,5) len parts_unread [OF t(2)] by (auto simp: wf_line_def parts_def)
  have "NUL \<notin> set (unread t)" using s(6) wft(4) by (auto dest: in_set_takeD)
  from for_lines_delivers [OF wft(1,2) this, of body acc] wft
  obtain u where u: "for_lines body t acc = Some (u, fold_lines body (text_lines ?u) acc)"
    "wf_line u" "\<not> httpMode u" "bufSize u = bufSize s"
    "isl (fold_lines body (text_lines ?u) acc) \<or> leaves u (text_rest ?u)"
    unfolding between_reads_delivered [OF b n(1) ne, symmetric] by auto
  have "\<exists>v. consume u = Some (True, v) \<and> between_reads body v (text_rest ?u) ?rest"
    if "fold_lines body (text_lines ?u) acc = Inr a" for a
  proof -
    have "leaves u (text_rest ?u)" using u(5) that by simp
    from consume_leaves [OF this u(2)] obtain v post2 where
      v: "consume u = Some (int (length (text_rest ?u)) < bufSize u, v)" "parts v [] (text_rest ?u) post2"
      "wf_line v" "\<not> lineComplete v" "bufSize v = bufSize u" "httpMode v = httpMode u" "lineStart v = 0" by blast
    have "NUL \<notin> set (text_rest ?u @ ?rest)"
      using s(6) text_rest_subset [of ?u] by (auto dest: in_set_takeD in_set_dropD)
    moreover have "(\<forall>a. body [] a = Inr a) \<or> no_blank_lines (text_rest ?u @ ?rest)"
      using s(8) no_blank_lines_rest [of ?u ?rest] by blast
    ultimately have "between_reads body v (text_rest ?u) ?rest"
      using v short_lines_rest(2) [OF s(7)] u(3,4) text_rest_no_nl by (auto simp: between_reads_def)
    moreover have "int (length (text_rest ?u)) < bufSize u" using short_lines_rest(1) [OF s(7)] u(4) by simp
    ultimately show ?thesis using v(1) by simp
  qed
  with t(1) u(1) show ?thesis by (rule that)
qed

lemma text_lines_take:
  "text_lines (r @ inp) = text_lines (r @ take n inp) @ text_lines (text_rest (r @ take n inp) @ drop n inp)"
  using text_lines_append [of "r @ take n inp" "drop n inp"] by simp

text \<open>However the stream is cut into reads, the loop sees exactly the nonblank lines of the text.\<close>

lemma read_lines_delivers:
  "between_reads body s r inp \<Longrightarrow>
     read_lines body s inp acc = Some (fold_lines body (text_lines (r @ inp)) acc)"
proof (induction "length inp" arbitrary: s r inp acc rule: less_induct)
  case less
  let ?n = "nat (bufSize s - bufLen s)"
  note n = between_reads_space [OF less.prems]
  show ?case
  proof (cases "inp = []")
    case True
    then have "text_lines (r @ inp) = []" using less.prems between_reads_end by simp
    with True less.prems show ?thesis
      by (subst read_lines.simps) (auto simp: readStream_def Let_def between_reads_def parts_def store_read_def store_at_def)
  next
    case False
    obtain t u where tu: "store_read s (take ?n inp) = Some t"
      "for_lines body t acc = Some (u, fold_lines body (text_lines (r @ take ?n inp)) acc)"
      "\<And>a. fold_lines body (text_lines (r @ take ?n inp)) acc = Inr a \<Longrightarrow>
         \<exists>v. consume u = Some (True, v) \<and> between_reads body v (text_rest (r @ take ?n inp)) (drop ?n inp)"
      using read_round [OF less.prems n order_refl False] by blast
    have rs: "readStream s inp = Some (int (length (take ?n inp)), t, drop ?n inp)"
      using tu(1) by (simp add: readStream_def Let_def min_def)
    have pos: "0 < int (length (take ?n inp))" and len: "length (drop ?n inp) < length inp"
      using False n by auto
    show ?thesis
    proof (cases "fold_lines body (text_lines (r @ take ?n inp)) acc")
      case (Inl e)
      with rs pos tu(2) text_lines_take [of r inp ?n] show ?thesis
        by (subst read_lines.simps) (simp add: fold_lines_append)
    next
      case (Inr acc')
      with tu(3) obtain v where v: "consume u = Some (True, v)"
        "between_reads body v (text_rest (r @ take ?n inp)) (drop ?n inp)" by blast
      from less.hyps [OF len v(2), of acc'] show ?thesis
        using rs pos tu(2) Inr v(1) text_lines_take [of r inp ?n]
        by (subst read_lines.simps) (simp add: fold_lines_append)
    qed
  qed
qed

text \<open>The same loop as the URL file has it: a first read, then a \<^verbatim>\<open>do ... while (rc > 0)\<close> whose body
  runs also when the first read was empty.\<close>

function do_lines ::
    "(string \<Rightarrow> 'a \<Rightarrow> 'e + 'a) \<Rightarrow> LineState \<Rightarrow> string \<Rightarrow> 'a \<Rightarrow> ('e + 'a) option" where
  "do_lines body s inp acc = do {
     (u, r) \<leftarrow> for_lines body s acc;
     case r of Inl e \<Rightarrow> Some (Inl e)
     | Inr acc' \<Rightarrow> do {
         (b, v) \<leftarrow> consume u;
         (rc, t, inp') \<leftarrow> readStream v inp;
         if rc > 0 then do_lines body t inp' acc' else Some (Inr acc')
       }
   }"
  by pat_completeness auto
termination
  by (relation "measure (\<lambda>(body, s, inp, acc). length inp)") (auto dest: readStream_progress)

declare do_lines.simps [simp del]

lemma read_lines_do:
  "readStream s inp = Some (rc, t, inp') \<Longrightarrow>
     read_lines body s inp acc = (if rc > 0 then do_lines body t inp' acc else Some (Inr acc))"
proof (induction "length inp" arbitrary: s inp rc t inp' acc rule: less_induct)
  case less
  show ?case
  proof (cases "rc > 0")
    case True
    have len: "length inp' < length inp" using readStream_progress [OF less.prems True] .
    have "read_lines body v inp' a = do {
        (rc, t, i) \<leftarrow> readStream v inp';
        if rc > 0 then do_lines body t i a else Some (Inr a) }" for v a
      using less.hyps [OF len, of v] by (cases "readStream v inp'") (auto simp: read_lines.simps [of body v])
    then show ?thesis
      using less.prems True
      by (subst read_lines.simps, subst do_lines.simps)
        (auto split: sum.splits simp: Option.bind_eq_Some_conv intro!: Option.bind_cong)
  qed (use less.prems in \<open>subst read_lines.simps; simp\<close>)
qed

section \<open>Tokens\<close>

definition tok_parts :: "LineState \<Rightarrow> string \<Rightarrow> string \<Rightarrow> string \<Rightarrow> bool" where
  "tok_parts s pre w post \<longleftrightarrow> buf s = pre @ w @ post \<and> tokEnd s = int (length pre) \<and>
     lineEnd s = int (length pre + length w)"

lemma scan_token_parts:
  "tok_parts s pre w post \<Longrightarrow>
     scan_token toks s =
       Some (s\<lparr>tokEnd := int (length pre + length (takeWhile (\<lambda>c. c \<notin> set toks) w))\<rparr>)"
proof (induction w arbitrary: s pre)
  case Nil
  then show ?case by (subst scan_token.simps) (simp add: tok_parts_def)
next
  case (Cons c w)
  from Cons.prems have r: "rd (buf s) (tokEnd s) = Some c" and lt: "tokEnd s < lineEnd s"
    by (simp_all add: tok_parts_def rd_parts)
  show ?case
  proof (cases "c \<in> set toks")
    case True
    with r lt Cons.prems show ?thesis
      by (subst scan_token.simps) (auto simp: tok_parts_def isChar_iff)
  next
    case False
    let ?s = "s\<lparr>tokEnd := tokEnd s + 1\<rparr>"
    have "tok_parts ?s (pre @ [c]) w post" using Cons.prems by (simp add: tok_parts_def)
    from Cons.IH [OF this] False r lt show ?thesis
      by (subst scan_token.simps) (simp add: isChar_iff)
  qed
qed

lemma null_matches_parts:
  "tok_parts s pre (ms @ rest) post \<Longrightarrow> set ms \<subseteq> set toks \<Longrightarrow> rest = [] \<or> hd rest \<notin> set toks \<Longrightarrow>
     null_matches toks s =
       Some (s\<lparr>buf := pre @ replicate (length ms) NUL @ rest @ post,
               tokEnd := int (length pre + length ms)\<rparr>)"
proof (induction ms arbitrary: s pre)
  case Nil
  then have "rest = [] \<or> (\<exists>c rs. rest = c # rs \<and> c \<notin> set toks)" by (cases rest) auto
  with Nil.prems show ?case
    by (subst null_matches.simps) (auto simp: tok_parts_def rd_parts isChar_iff)
next
  case (Cons c ms)
  let ?s = "s\<lparr>buf := pre @ NUL # ms @ rest @ post, tokEnd := tokEnd s + 1\<rparr>"
  from Cons.prems have r: "rd (buf s) (tokEnd s) = Some c" and lt: "tokEnd s < lineEnd s"
    and n: "wr (buf s) (tokEnd s) NUL = Some (pre @ NUL # ms @ rest @ post)"
    by (simp_all add: tok_parts_def rd_parts wr_parts)
  have "tok_parts ?s (pre @ [NUL]) (ms @ rest) post" using Cons.prems(1) by (simp add: tok_parts_def)
  from Cons.IH [OF this] Cons.prems r lt n show ?case
    by (subst null_matches.simps) (simp add: isChar_iff)
qed

text \<open>\<open>tok_at s l\<close>: \<open>l\<close> is what is left of the current line at the token position.\<close>

definition tok_at :: "LineState \<Rightarrow> string \<Rightarrow> bool" where
  "tok_at s l \<longleftrightarrow> lineComplete s \<and> NUL \<notin> set l \<and>
     (\<exists>pre k post. tok_parts s pre (l @ replicate k NUL) post \<and> (l \<noteq> [] \<longrightarrow> 0 < k))"

text \<open>The fields and bytes of the state that reading tokens leaves alone.\<close>

definition same_line :: "LineState \<Rightarrow> LineState \<Rightarrow> bool" where
  "same_line s t \<longleftrightarrow> lineStart t = lineStart s \<and> lineEnd t = lineEnd s \<and> bufLen t = bufLen s \<and>
     bufSize t = bufSize s \<and> httpMode t = httpMode s \<and> lineComplete t = lineComplete s \<and>
     unread t = unread s \<and> wf_line t"

text \<open>The text at the token position falls into the token, its separators and the rest.\<close>

definition tok_word :: "string \<Rightarrow> string \<Rightarrow> string" where
  "tok_word toks w = takeWhile (\<lambda>c. c \<notin> set toks) w"

definition tok_seps :: "string \<Rightarrow> string \<Rightarrow> string" where
  "tok_seps toks w = takeWhile (\<lambda>c. c \<in> set toks) (dropWhile (\<lambda>c. c \<notin> set toks) w)"

definition tok_rest :: "string \<Rightarrow> string \<Rightarrow> string" where
  "tok_rest toks w = dropWhile (\<lambda>c. c \<in> set toks) (dropWhile (\<lambda>c. c \<notin> set toks) w)"

abbreviation nulled :: "string \<Rightarrow> string \<Rightarrow> string" where
  "nulled toks w \<equiv> tok_word toks w @ replicate (length (tok_seps toks w)) NUL"

lemma tok_split: "w = tok_word toks w @ tok_seps toks w @ tok_rest toks w"
  by (simp add: tok_word_def tok_seps_def tok_rest_def)

lemma tok_seps_subset: "set (tok_seps toks w) \<subseteq> set toks"
  by (auto simp: tok_seps_def dest: set_takeWhileD)

lemma tok_rest_hd: "tok_rest toks w = [] \<or> hd (tok_rest toks w) \<notin> set toks"
  unfolding tok_rest_def using hd_dropWhile by metis

lemma tok_seps_Nil:
  assumes "tok_seps toks w = []"
  shows "tok_rest toks w = []"
proof (rule ccontr)
  let ?d = "dropWhile (\<lambda>c. c \<notin> set toks) w"
  assume "tok_rest toks w \<noteq> []"
  then have "?d \<noteq> []" unfolding tok_rest_def by (metis dropWhile.simps(1))
  then have "hd ?d \<in> set toks" using hd_dropWhile [of "\<lambda>c. c \<notin> set toks" w] by auto
  with \<open>?d \<noteq> []\<close> assms show False by (cases ?d) (auto simp: tok_seps_def)
qed

lemma nulled_last:
  assumes "w \<noteq> []" "last w = NUL"
  obtains xs where "nulled toks w @ tok_rest toks w = xs @ [NUL]"
proof (cases "tok_rest toks w = []")
  case True
  show ?thesis
  proof (cases "tok_seps toks w = []")
    case True
    have "tok_word toks w = w"
      using tok_split [of w toks, symmetric] True \<open>tok_rest toks w = []\<close> by simp
    with True \<open>tok_rest toks w = []\<close> have "nulled toks w @ tok_rest toks w = w" by simp
    moreover have "w = butlast w @ [NUL]" using assms append_butlast_last_id [of w] by simp
    ultimately show ?thesis using that [of "butlast w"] by argo
  next
    case False
    with True that [of "tok_word toks w @ replicate (length (tok_seps toks w) - 1) NUL"] show ?thesis
      by (cases "tok_seps toks w") (simp_all add: replicate_append_same)
  qed
next
  case False
  then have "last (tok_rest toks w) = last w"
    using arg_cong [OF tok_split [of w toks], of last] by simp
  then have "last (tok_rest toks w) = NUL" using assms by simp
  then have "tok_rest toks w = butlast (tok_rest toks w) @ [NUL]"
    using False append_butlast_last_id by metis
  then have "nulled toks w @ tok_rest toks w = (nulled toks w @ butlast (tok_rest toks w)) @ [NUL]"
    by simp
  then show ?thesis by (rule that)
qed

lemma nulled_c_string:
  assumes "w \<noteq> []" "last w = NUL"
  shows "c_string_at (pre @ nulled toks w @ tok_rest toks w @ post) (int (length pre)) =
    Some (takeWhile (\<lambda>c. c \<noteq> NUL) (tok_word toks w))"
proof (cases "tok_seps toks w")
  case Nil
  have "tok_word toks w = w"
    using tok_split [of w toks, symmetric] Nil tok_seps_Nil [OF Nil] by simp
  then have "tok_word toks w = butlast w @ [NUL]" using assms append_butlast_last_id [of w] by simp
  with Nil tok_seps_Nil [OF Nil] show ?thesis by (simp add: c_string_at_def takeWhile_tail)
next
  case (Cons c cs)
  then show ?thesis by (simp add: c_string_at_def takeWhile_tail)
qed

lemma nextToken_parts:
  assumes p: "tok_parts s pre w post" and w: "w \<noteq> []" "last w = NUL"
    and "lineComplete s" "toks \<noteq> []"
  shows "nextToken s toks =
    Some (takeWhile (\<lambda>c. c \<noteq> NUL) (tok_word toks w),
      s\<lparr>buf := pre @ nulled toks w @ tok_rest toks w @ post, tokStart := tokEnd s,
        tokEnd := int (length pre + length (nulled toks w))\<rparr>)"
proof -
  let ?s1 = "s\<lparr>tokStart := tokEnd s\<rparr>"
  let ?s2 = "?s1\<lparr>tokEnd := int (length pre + length (tok_word toks w))\<rparr>"
  have "tok_parts ?s1 pre w post" using p by (simp add: tok_parts_def)
  from scan_token_parts [OF this] have scan: "scan_token toks ?s1 = Some ?s2"
    by (simp add: tok_word_def)
  have "w @ post = tok_word toks w @ tok_seps toks w @ tok_rest toks w @ post"
    using arg_cong [OF tok_split [of w toks], of "\<lambda>x. x @ post"] by simp
  moreover have "length w = length (tok_word toks w) + length (tok_seps toks w @ tok_rest toks w)"
    using arg_cong [OF tok_split [of w toks], of length] by simp
  ultimately have "tok_parts ?s2 (pre @ tok_word toks w) (tok_seps toks w @ tok_rest toks w) post"
    using p by (simp add: tok_parts_def)
  from null_matches_parts [OF this tok_seps_subset tok_rest_hd]
  have null: "null_matches toks ?s2 =
      Some (?s2\<lparr>buf := pre @ nulled toks w @ tok_rest toks w @ post,
                tokEnd := int (length pre + length (nulled toks w))\<rparr>)" by simp
  have "tokEnd s < lineEnd s" "tokEnd s = int (length pre)"
    using p w(1) by (auto simp: tok_parts_def)
  with scan null nulled_c_string [OF w, of pre toks post] assms(4,5) show ?thesis
    by (simp add: nextToken_def Let_def)
qed

lemma nextToken_same_line:
  assumes "wf_line s" "tok_parts s pre w post" "w \<noteq> []" "last w = NUL" "lineComplete s"
  shows "same_line s (s\<lparr>buf := pre @ nulled toks w @ tok_rest toks w @ post, tokStart := tokEnd s,
        tokEnd := int (length pre + length (nulled toks w))\<rparr>)" (is "same_line s ?t")
proof -
  have len: "length w = length (nulled toks w @ tok_rest toks w)"
    using arg_cong [OF tok_split [of w toks], of length] by simp
  obtain xs where xs: "nulled toks w @ tok_rest toks w = xs @ [NUL]"
    using nulled_last [OF assms(3,4)] .
  then have b: "buf ?t = pre @ xs @ NUL # post" by simp
  have n: "(pre @ xs @ NUL # post) ! (length pre + length xs) = NUL" by (simp add: nth_append)
  have "length w = Suc (length xs)" unfolding len xs by simp
  then have "nat (lineEnd s - 1) = length pre + length xs"
    using assms(2) by (simp add: tok_parts_def nat_add_distrib)
  with b n have "buf ?t ! nat (lineEnd s - 1) = NUL" by (simp only:)
  moreover have "length (buf ?t) = length (buf s)" using assms(2) len by (simp add: tok_parts_def)
  moreover have "unread ?t = unread s" using assms(2) len by (simp add: unread_def tok_parts_def)
  moreover have "tokEnd s \<le> int (length pre + length (nulled toks w))"
    "int (length pre + length (nulled toks w)) \<le> lineEnd s"
    using assms(2) len by (auto simp: tok_parts_def)
  ultimately show ?thesis using assms(1,5) by (auto simp: same_line_def wf_line_def)
qed

lemma tok_word_NULs:
  assumes "NUL \<notin> set l" "NUL \<notin> set toks"
  shows "takeWhile (\<lambda>c. c \<noteq> NUL) (tok_word toks (l @ replicate k NUL)) = tok_word toks l"
proof (cases "\<exists>c \<in> set l. c \<in> set toks")
  case True
  then have "tok_word toks (l @ replicate k NUL) = tok_word toks l"
    by (auto simp: tok_word_def intro: takeWhile_append1)
  moreover have "takeWhile (\<lambda>c. c \<noteq> NUL) (tok_word toks l) = tok_word toks l"
    using assms(1) by (auto simp: takeWhile_eq_all_conv tok_word_def dest: set_takeWhileD)
  ultimately show ?thesis by simp
next
  case False
  then have "tok_word toks (l @ replicate k NUL) = l @ replicate k NUL" "tok_word toks l = l"
    using assms(2) by (auto simp: tok_word_def takeWhile_eq_all_conv)
  moreover have "takeWhile (\<lambda>c. c \<noteq> NUL) (l @ replicate k NUL) = takeWhile (\<lambda>c. c \<noteq> NUL) l"
    by (cases k) (simp_all add: takeWhile_tail)
  moreover have "takeWhile (\<lambda>c. c \<noteq> NUL) l = l"
    using assms(1) by (auto simp: takeWhile_eq_all_conv)
  ultimately show ?thesis by (simp only:)
qed

lemma tok_rest_NULs:
  assumes "NUL \<notin> set toks"
  shows "tok_rest toks (l @ replicate k NUL) =
    (if \<exists>c \<in> set l. c \<in> set toks then tok_rest toks l @ replicate k NUL else [])"
    and "\<not> (\<exists>c \<in> set l. c \<in> set toks) \<Longrightarrow> tok_rest toks l = []"
proof -
  have N: "dropWhile (\<lambda>c. c \<in> set toks) (replicate k NUL) = replicate k NUL"
    using assms by (cases k) auto
  show "tok_rest toks (l @ replicate k NUL) =
    (if \<exists>c \<in> set l. c \<in> set toks then tok_rest toks l @ replicate k NUL else [])"
  proof (cases "\<exists>c \<in> set l. c \<in> set toks")
    case True
    then obtain c where c: "c \<in> set l" "c \<in> set toks" by blast
    have "dropWhile (\<lambda>c. c \<notin> set toks) (l @ replicate k NUL) =
        dropWhile (\<lambda>c. c \<notin> set toks) l @ replicate k NUL"
      using dropWhile_append1 [of c l "\<lambda>c. c \<notin> set toks"] c by simp
    then have "tok_rest toks (l @ replicate k NUL) =
        dropWhile (\<lambda>c. c \<in> set toks) (dropWhile (\<lambda>c. c \<notin> set toks) l @ replicate k NUL)"
      by (simp only: tok_rest_def)
    also have "\<dots> = tok_rest toks l @ replicate k NUL"
    proof (cases "\<forall>c \<in> set (dropWhile (\<lambda>c. c \<notin> set toks) l). c \<in> set toks")
      case True
      then have "tok_rest toks l = []" unfolding tok_rest_def dropWhile_eq_Nil_conv .
      moreover have "dropWhile (\<lambda>c. c \<in> set toks)
          (dropWhile (\<lambda>c. c \<notin> set toks) l @ replicate k NUL) = replicate k NUL"
        by (rule trans [OF dropWhile_append2 N]) (use True in blast)
      ultimately show ?thesis by simp
    next
      case False
      then show ?thesis unfolding tok_rest_def using dropWhile_append1 by metis
    qed
    finally show ?thesis using True by simp
  next
    case False
    then have "dropWhile (\<lambda>c. c \<notin> set toks) (l @ replicate k NUL) = []"
      using assms by (auto simp: dropWhile_eq_Nil_conv)
    then show ?thesis unfolding tok_rest_def using False by (simp only: dropWhile.simps if_False)
  qed
  show "tok_rest toks l = []" if "\<not> (\<exists>c \<in> set l. c \<in> set toks)"
  proof -
    have "dropWhile (\<lambda>c. c \<notin> set toks) l = []" using that by (auto simp: dropWhile_eq_Nil_conv)
    then show ?thesis unfolding tok_rest_def by (simp only: dropWhile.simps)
  qed
qed

lemma tok_atI:
  "lineComplete t \<Longrightarrow> NUL \<notin> set l \<Longrightarrow> tok_parts t pre w post \<Longrightarrow>
     w = l @ replicate k NUL \<Longrightarrow> (l \<noteq> [] \<Longrightarrow> 0 < k) \<Longrightarrow> tok_at t l"
  unfolding tok_at_def by blast

lemma nextToken_tok_at:
  assumes "wf_line s" "tok_at s l" "toks \<noteq> []" "NUL \<notin> set toks"
  shows "\<exists>t. nextToken s toks = Some (tok_word toks l, t) \<and> tok_at t (tok_rest toks l) \<and> same_line s t"
proof -
  from assms(2) obtain pre k post where
    t: "lineComplete s" "NUL \<notin> set l" "tok_parts s pre (l @ replicate k NUL) post" "l \<noteq> [] \<Longrightarrow> 0 < k"
    by (auto simp: tok_at_def)
  let ?w = "l @ replicate k NUL"
  show ?thesis
  proof (cases "?w = []")
    case True
    then have "nextToken s toks = Some ('''', s)" using t(3) by (simp add: nextToken_def tok_parts_def)
    moreover have "same_line s s" using assms(1) by (simp add: same_line_def)
    ultimately show ?thesis using True assms(2) by (auto simp: tok_word_def tok_rest_def)
  next
    case False
    with t(4) have k: "0 < k" by (cases l) auto
    then have last: "last ?w = NUL" by (cases k) (auto simp: replicate_append_same [symmetric])
    let ?t = "s\<lparr>buf := pre @ nulled toks ?w @ tok_rest toks ?w @ post, tokStart := tokEnd s,
        tokEnd := int (length pre + length (nulled toks ?w))\<rparr>"
    have len: "length (nulled toks ?w @ tok_rest toks ?w) = length ?w"
      using arg_cong [OF tok_split [of ?w toks], of length] by simp
    then have parts: "tok_parts ?t (pre @ nulled toks ?w) (tok_rest toks ?w) post"
      using t(3) by (simp add: tok_parts_def)
    obtain j where j: "tok_rest toks ?w = tok_rest toks l @ replicate j NUL" "tok_rest toks l \<noteq> [] \<Longrightarrow> 0 < j"
      using tok_rest_NULs(1) [OF assms(4), of l k] tok_rest_NULs(2) [OF assms(4), of l] k by (cases "\<exists>c \<in> set l. c \<in> set toks") auto
    have "NUL \<notin> set (tok_rest toks l)"
      using t(2) by (auto simp: tok_rest_def dest: set_dropWhileD)
    then have "tok_at ?t (tok_rest toks l)"
      using t(1) by (intro tok_atI [OF _ _ parts j(1) j(2)]) simp_all
    moreover have "nextToken s toks = Some (tok_word toks l, ?t)"
      using nextToken_parts [OF t(3) False last t(1) assms(3)] tok_word_NULs [OF t(2) assms(4)] by simp
    moreover have "same_line s ?t"
      by (rule nextToken_same_line [OF assms(1) t(3) False last t(1)])
    ultimately show ?thesis by blast
  qed
qed

text \<open>The tokens of a line, as a sequence of calls with the same separators delivers them.\<close>

lemma tok_rest_shorter: "l \<noteq> [] \<Longrightarrow> length (tok_rest toks l) < length l"
proof (cases l)
  case (Cons c cs)
  have "length (tok_rest toks l) \<le> length (dropWhile (\<lambda>c. c \<notin> set toks) l)"
    by (simp add: tok_rest_def length_dropWhile_le)
  moreover have "length (dropWhile (\<lambda>c. c \<notin> set toks) l) < length l" if "c \<notin> set toks"
    using that Cons by (simp add: le_imp_less_Suc length_dropWhile_le)
  moreover have "length (tok_rest toks l) < length l" if "c \<in> set toks"
    using that Cons by (simp add: tok_rest_def le_imp_less_Suc length_dropWhile_le)
  ultimately show ?thesis by linarith
qed simp

function tokens :: "string \<Rightarrow> string \<Rightarrow> string list" where
  "tokens toks l = (if l = [] then [] else tok_word toks l # tokens toks (tok_rest toks l))"
  by pat_completeness auto
termination
  by (relation "measure (\<lambda>(toks, l). length l)") (auto intro: tok_rest_shorter)

declare tokens.simps [simp del]

fun nextTokens :: "nat \<Rightarrow> string \<Rightarrow> LineState \<Rightarrow> (string list \<times> LineState) option" where
  "nextTokens 0 toks s = Some ([], s)"
| "nextTokens (Suc n) toks s = do {
     (tok, t) \<leftarrow> nextToken s toks;
     (ts, u) \<leftarrow> nextTokens n toks t;
     Some (tok # ts, u)
   }"

lemma nextTokens_tok_at:
  assumes "wf_line s" "tok_at s l" "toks \<noteq> []" "NUL \<notin> set toks"
  shows "\<exists>t. nextTokens n toks s =
      Some (take n (tokens toks l @ replicate n []), t) \<and> same_line s t"
  using assms(1,2)
proof (induction n arbitrary: s l)
  case 0
  then show ?case by (simp add: same_line_def)
next
  case (Suc n)
  obtain t where t: "nextToken s toks = Some (tok_word toks l, t)" "tok_at t (tok_rest toks l)"
    "same_line s t" using nextToken_tok_at [OF Suc.prems assms(3,4)] by blast
  have "wf_line t" using t(3) by (simp add: same_line_def)
  from Suc.IH [OF this t(2)] obtain u where
    u: "nextTokens n toks t = Some (take n (tokens toks (tok_rest toks l) @ replicate n []), u)"
    "same_line t u" by blast
  have "same_line s u" using t(3) u(2) by (simp add: same_line_def)
  moreover have "take (Suc n) (tokens toks l @ replicate (Suc n) []) =
      tok_word toks l # take n (tokens toks (tok_rest toks l) @ replicate n [])"
  proof (cases "l = []")
    case True
    then show ?thesis by (simp add: tokens.simps [of toks "[]"] tok_word_def tok_rest_def)
  next
    case False
    then show ?thesis by (simp add: tokens.simps [of toks l] take_append replicate_append_same [symmetric])
  qed
  ultimately show ?case using t(1) u(1) by simp
qed

lemma next_line_tok_at:
  assumes "wf_line s" and "\<not> httpMode s" and "NUL \<notin> set (unread s)"
    and "\<not> (\<forall>c \<in> set (unread s). \<not> is_nl c)"
  shows "\<exists>w ns rest t. unread s = w @ ns @ rest \<and> next_line s = Some (True, t) \<and> line t = Some w \<and>
    tok_at t w \<and> wf_line t \<and> unread t = rest \<and> \<not> httpMode t \<and> bufSize t = bufSize s \<and>
    delivered (unread s) = w # delivered rest \<and> length rest < length (unread s)"
proof -
  have "0 \<le> lineEnd s" "lineEnd s \<le> bufLen s" "bufLen s \<le> int (length (buf s))"
    using assms(1) by (auto simp: wf_line_def)
  then obtain pre post where p: "parts s pre (unread s) post" by (rule wf_parts)
  show ?thesis
  proof (cases "unread s" rule: first_line_cases)
    case incomplete
    with assms(4) show ?thesis by blast
  next
    case (complete w ns rest)
    from p complete(1) have p': "parts s pre (w @ ns @ rest) post" by simp
    obtain t where t: "next_line s = Some (True, t)" "wf_line t" "lineComplete t" "unread t = rest"
      "line t = Some (takeWhile (\<lambda>c. c \<noteq> NUL) w)" "httpMode t = httpMode s" "bufSize t = bufSize s"
      "tokEnd t = lineStart t" "lineStart t = lineEnd s"
      "parts t (pre @ w @ replicate (length ns) NUL) rest post"
      using next_line_wf_complete [OF assms(1,2) p' complete(2-5)] by metis
    have noNUL: "NUL \<notin> set w" using assms(3) complete(1) by auto
    then have "takeWhile (\<lambda>c. c \<noteq> NUL) w = w" by (auto simp: takeWhile_eq_all_conv)
    then have l: "line t = Some w" using t(5) by simp
    have "tok_parts t pre (w @ replicate (length ns) NUL) (rest @ post)"
      using t(8-10) p by (simp add: tok_parts_def parts_def)
    with t(3) noNUL complete(4) have tok: "tok_at t w" by (auto simp: tok_at_def)
    have "length rest < length (unread s)" using complete(1,4) by (cases ns) auto
    with t l tok complete(1) delivered_step [OF complete(2-5)] assms(2) show ?thesis by auto
  qed
qed

section \<open>Every sequence of calls is safe\<close>

text \<open>The public operations as data, each with what its environment supplies.\<close>

datatype line_call =
    Next | NextToken string | SkipMatches string | Line | Consume | Clear
  | ReadStream string | ReadFd read_answer | WriteRemaining

fun call_line :: "line_call \<Rightarrow> LineState \<Rightarrow> LineState option" where
  "call_line Next s = map_option snd (next_line s)"
| "call_line (NextToken toks) s = map_option snd (nextToken s toks)"
| "call_line (SkipMatches toks) s = skipMatches toks s"
| "call_line Line s = map_option (\<lambda>_. s) (line s)"
| "call_line Consume s = map_option snd (consume s)"
| "call_line Clear s = Some (clear s)"
| "call_line (ReadStream inp) s = map_option (\<lambda>(_, t, _). t) (readStream s inp)"
| "call_line (ReadFd a) s = map_option snd (readFd s a)"
| "call_line WriteRemaining s = map_option (\<lambda>_. s) (writeRemaining s)"

fun run_calls :: "line_call list \<Rightarrow> LineState \<Rightarrow> LineState option" where
  "run_calls [] s = Some s"
| "run_calls (c # cs) s = do { t \<leftarrow> call_line c s; run_calls cs t }"

text \<open>\<^verbatim>\<open>read(2)\<close> keeps to the length it is given; a failed read is not among the calls here.\<close>

fun call_ok :: "line_call \<Rightarrow> LineState \<Rightarrow> bool" where
  "call_ok (ReadFd Read_failed) s \<longleftrightarrow> False"
| "call_ok (ReadFd (Read_bytes bs)) s \<longleftrightarrow> int (length bs) \<le> bufSize s - bufLen s"
| "call_ok c s \<longleftrightarrow> True"

fun calls_ok :: "line_call list \<Rightarrow> LineState \<Rightarrow> bool" where
  "calls_ok [] s \<longleftrightarrow> True"
| "calls_ok (c # cs) s \<longleftrightarrow>
     call_ok c s \<and> (case call_line c s of None \<Rightarrow> True | Some t \<Rightarrow> calls_ok cs t)"

definition line_inv :: "LineState \<Rightarrow> bool" where
  "line_inv s \<longleftrightarrow> wf_line s \<and> \<not> httpMode s \<and> 0 \<le> tokEnd s"

lemma line_inv_parts:
  assumes "line_inv s"
  obtains pre post where "parts s pre (unread s) post"
  using assms wf_parts [of s] by (auto simp: line_inv_def wf_line_def)

lemma next_line_inv:
  assumes "line_inv s"
  obtains b t where "next_line s = Some (b, t)" "line_inv t" "b \<longleftrightarrow> (\<exists>c \<in> set (unread s). is_nl c)"
    "bufSize t = bufSize s" "lineComplete t = b"
proof -
  from assms have wf: "wf_line s" "\<not> httpMode s" "0 \<le> tokEnd s" by (auto simp: line_inv_def)
  from line_inv_parts [OF assms] obtain pre post where p: "parts s pre (unread s) post" .
  show ?thesis
  proof (cases "unread s" rule: first_line_cases)
    case incomplete
    let ?t = "s\<lparr>lineStart := lineEnd s, lineEnd := bufLen s, lineComplete := False\<rparr>"
    have "next_line s = Some (False, ?t)"
      using next_line_incomplete [OF p incomplete] wf_lineStart_zero [OF wf(1)] by simp
    moreover have "line_inv ?t" using wf by (auto simp: line_inv_def wf_line_def)
    ultimately show ?thesis using that [of False ?t] incomplete by simp
  next
    case (complete w ns rest)
    from p complete(1) have p': "parts s pre (w @ ns @ rest) post" by simp
    obtain t where t: "next_line s = Some (True, t)" "wf_line t" "lineComplete t"
      "httpMode t = httpMode s" "bufSize t = bufSize s"
      using next_line_wf_complete [OF wf(1,2) p' complete(2-5)] by metis
    then have "line_inv t" using wf by (auto simp: line_inv_def wf_line_def)
    moreover have "\<exists>c \<in> set (unread s). is_nl c" using complete(1,3,4) by (cases ns) auto
    ultimately show ?thesis using that [of True t] t by simp
  qed
qed

lemma complete_tok_parts:
  assumes "wf_line s" "lineComplete s" "tokEnd s < lineEnd s"
  obtains pre w post where "tok_parts s pre w post" "w \<noteq> []" "last w = NUL"
proof -
  let ?a = "nat (tokEnd s)" and ?e = "nat (lineEnd s)"
  have b: "?a < ?e" "?e \<le> length (buf s)" "0 \<le> tokEnd s" "0 \<le> lineEnd s"
    and last: "buf s ! (?e - 1) = NUL"
    using assms by (auto simp: wf_line_def nat_diff_distrib)
  let ?w = "take (?e - ?a) (drop ?a (buf s))"
  have "buf s = take ?a (buf s) @ ?w @ drop (?e - ?a) (drop ?a (buf s))"
    unfolding append_take_drop_id ..
  moreover have "length ?w = ?e - ?a" using b by simp
  moreover have "length (take ?a (buf s)) = ?a" using b unfolding length_take by (intro min_absorb2) linarith
  moreover have "tokEnd s = int ?a" "lineEnd s = int (?a + (?e - ?a))" using b by linarith+
  ultimately have tp: "tok_parts s (take ?a (buf s)) ?w (drop (?e - ?a) (drop ?a (buf s)))"
    unfolding tok_parts_def by (simp only: simp_thms)
  have ne: "?w \<noteq> []" using \<open>length ?w = ?e - ?a\<close> b(1) by auto
  have "last ?w = ?w ! (?e - ?a - 1)" using ne \<open>length ?w = ?e - ?a\<close> by (metis last_conv_nth)
  also have "\<dots> = drop ?a (buf s) ! (?e - ?a - 1)" using b(1) by (intro nth_take) linarith
  also have "\<dots> = buf s ! (?a + (?e - ?a - 1))" using b(1,2) by (intro nth_drop) linarith
  also have "?a + (?e - ?a - 1) = ?e - 1" using b(1) by linarith
  finally have "last ?w = NUL" using last by simp
  with tp ne show ?thesis by (rule that)
qed

lemma nextToken_inv:
  assumes "line_inv s"
  obtains tok t where "nextToken s toks = Some (tok, t)" "line_inv t" "bufSize t = bufSize s"
proof (cases "lineComplete s \<and> tokEnd s < lineEnd s")
  case False
  then show ?thesis using that [of "''''" s] assms by (auto simp: nextToken_def)
next
  case True
  from assms have wf: "wf_line s" by (simp add: line_inv_def)
  obtain pre w post where p: "tok_parts s pre w post" "w \<noteq> []" "last w = NUL"
    using complete_tok_parts [OF wf] True by blast
  show ?thesis
  proof (cases "toks = []")
    case True
    let ?t = "s\<lparr>tokStart := tokEnd s\<rparr>"
    have w: "w = butlast w @ [NUL]" using p append_butlast_last_id [of w] by simp
    have tp: "tokEnd s = int (length pre)" "buf s = pre @ w @ post" using p(1) by (auto simp: tok_parts_def)
    have "NUL \<in> set w" using p(2,3) last_in_set [of w] by auto
    then have "c_string_at (buf ?t) (tokStart ?t) \<noteq> None"
      using tp p(2) by (cases w) (auto simp: c_string_at_def)
    then obtain tok where "c_string_at (buf ?t) (tokStart ?t) = Some tok" by blast
    then have "nextToken s toks = Some (tok, ?t)"
      using True \<open>lineComplete s \<and> tokEnd s < lineEnd s\<close> by (simp add: nextToken_def Let_def)
    moreover have "line_inv ?t"
      using assms by (auto simp: line_inv_def wf_line_def)
    ultimately show ?thesis using that [of tok ?t] by simp
  next
    case False
    let ?t = "s\<lparr>buf := pre @ nulled toks w @ tok_rest toks w @ post, tokStart := tokEnd s,
        tokEnd := int (length pre + length (nulled toks w))\<rparr>"
    have "lineComplete s" using True by simp
    from nextToken_parts [OF p this False] nextToken_same_line [OF wf p this, of toks]
    show ?thesis using that [of _ ?t] assms by (auto simp: line_inv_def same_line_def)
  qed
qed

lemma skipMatches_inv:
  "line_inv s \<Longrightarrow> \<exists>t. skipMatches toks s = Some t \<and> line_inv t \<and> bufSize t = bufSize s"
proof (induction toks s rule: skipMatches.induct)
  case (1 toks s)
  show ?case
  proof (cases "tokEnd s < lineEnd s")
    case True
    with "1.prems" have "0 \<le> tokEnd s" "tokEnd s < int (length (buf s))"
      by (auto simp: line_inv_def wf_line_def)
    then have r: "rd (buf s) (tokEnd s) = Some (buf s ! nat (tokEnd s))" by (simp add: defined_simps)
    show ?thesis
    proof (cases "isChar (buf s ! nat (tokEnd s)) toks")
      case c: True
      have "line_inv (s\<lparr>tokEnd := tokEnd s + 1\<rparr>)"
        using "1.prems" True by (auto simp: line_inv_def wf_line_def)
      with "1.IH" [OF True r c this] r c show ?thesis
        using True by (subst skipMatches.simps) simp
    qed (use r "1.prems" in \<open>subst skipMatches.simps; simp\<close>)
  qed (use "1.prems" in \<open>subst skipMatches.simps; simp\<close>)
qed

lemma line_defined:
  assumes "line_inv s"
  obtains l where "line s = Some l"
proof (cases "lineComplete s")
  case True
  with assms have b: "0 \<le> lineStart s" "lineStart s < lineEnd s" "lineEnd s \<le> int (length (buf s))"
    and nul: "buf s ! nat (lineEnd s - 1) = NUL" by (auto simp: line_inv_def wf_line_def)
  have "nat (lineStart s) + nat (lineEnd s - 1 - lineStart s) = nat (lineEnd s - 1)"
    using b by linarith
  then have "drop (nat (lineStart s)) (buf s) ! nat (lineEnd s - 1 - lineStart s) = NUL"
    using b nul by (simp add: nth_drop)
  moreover have "nat (lineEnd s - 1 - lineStart s) < length (drop (nat (lineStart s)) (buf s))"
    using b by auto
  ultimately have "NUL \<in> set (drop (nat (lineStart s)) (buf s))" by (metis nth_mem)
  then show ?thesis using True b that by (simp add: line_def c_string_at_def)
qed (use that in \<open>simp add: line_def\<close>)

lemma consume_inv:
  assumes "line_inv s"
  obtains b t where "consume s = Some (b, t)" "line_inv t" "bufSize t = bufSize s"
proof -
  have "\<exists>b t. consume s = Some (b, t) \<and> line_inv t \<and> bufSize t = bufSize s"
    using assms by (auto simp: line_inv_def wf_line_def consume_def Let_def)
  then show ?thesis using that by blast
qed

lemma store_read_inv:
  assumes "line_inv s" "int (length bs) \<le> bufSize s - bufLen s"
  obtains t where "store_read s bs = Some t" "line_inv t" "bufSize t = bufSize s"
proof -
  from line_inv_parts [OF assms(1)] obtain pre post where p: "parts s pre (unread s) post" .
  have len: "length bs \<le> length post"
    using assms p by (auto simp: line_inv_def wf_line_def parts_def)
  obtain t where t: "store_read s bs = Some t"
    "t = s\<lparr>buf := pre @ unread s @ bs @ drop (length bs) post, bufLen := bufLen s + int (length bs)\<rparr>"
    using store_read_parts [OF p len] by metis
  have "buf t ! nat (lineEnd s - 1) = buf s ! nat (lineEnd s - 1)" if "lineStart s < lineEnd s"
  proof -
    have "0 \<le> lineStart s" using assms by (simp add: line_inv_def wf_line_def)
    then have "nat (lineEnd s - 1) < length pre" using that p unfolding parts_def by linarith
    then show ?thesis using p t(2) by (simp add: parts_def nth_append)
  qed
  then have "line_inv t"
    using assms p t(2) len by (auto simp: line_inv_def wf_line_def parts_def)
  with t that show ?thesis by simp
qed

lemma call_line_inv:
  assumes "line_inv s" "call_ok c s"
  shows "\<exists>t. call_line c s = Some t \<and> line_inv t \<and> bufSize t = bufSize s"
proof (cases c)
  case Next
  then show ?thesis using next_line_inv [OF assms(1)] by (metis call_line.simps(1) option.map(2) snd_conv)
next
  case (NextToken toks)
  then show ?thesis using nextToken_inv [OF assms(1), of toks] by (metis call_line.simps(2) option.map(2) snd_conv)
next
  case (SkipMatches toks)
  then show ?thesis using skipMatches_inv [OF assms(1)] by simp
next
  case Line
  then show ?thesis using line_defined [OF assms(1)] assms(1) by (metis call_line.simps(4) option.map(2))
next
  case Consume
  then show ?thesis using consume_inv [OF assms(1)] by (metis call_line.simps(5) option.map(2) snd_conv)
next
  case Clear
  then show ?thesis using assms(1) by (auto simp: line_inv_def wf_line_def clear_def)
next
  case (ReadStream inp)
  let ?bs = "take (nat (bufSize s - bufLen s)) inp"
  have "int (length ?bs) \<le> bufSize s - bufLen s"
    using assms(1) by (auto simp: line_inv_def wf_line_def)
  then obtain t where "store_read s ?bs = Some t" "line_inv t" "bufSize t = bufSize s"
    using store_read_inv [OF assms(1)] by blast
  then show ?thesis using ReadStream by (simp add: readStream_def Let_def)
next
  case (ReadFd a)
  then obtain bs where a: "a = Read_bytes bs" "int (length bs) \<le> bufSize s - bufLen s"
    using assms(2) by (cases a) auto
  obtain t where "store_read s bs = Some t" "line_inv t" "bufSize t = bufSize s"
    using store_read_inv [OF assms(1) a(2)] by blast
  then show ?thesis using ReadFd a assms(1) by (simp add: readFd_def)
next
  case WriteRemaining
  then show ?thesis using assms(1) by (auto simp: line_inv_def wf_line_def writeRemaining_def)
qed

lemma run_calls_inv:
  "line_inv s \<Longrightarrow> calls_ok cs s \<Longrightarrow>
     \<exists>t. run_calls cs s = Some t \<and> line_inv t \<and> bufSize t = bufSize s"
proof (induction cs arbitrary: s)
  case (Cons c cs)
  obtain t where t: "call_line c s = Some t" "line_inv t" "bufSize t = bufSize s"
    using call_line_inv [of s c] Cons.prems by auto
  with Cons.IH [OF t(2)] Cons.prems(2) show ?case by simp
qed simp

lemma line_inv_empty: "line_inv (LineState_empty block)"
  by (simp add: line_inv_def wf_line_def LineState_empty_def)

lemma line_inv_string: "line_inv (LineState_string s)"
  by (simp add: line_inv_def wf_line_def LineState_string_def)

section \<open>Words of a line\<close>

text \<open>A line built from words, each followed by its separators, and a last word.\<close>

definition spaced :: "(string \<times> string) list \<Rightarrow> string" where
  "spaced ps = concat (map (\<lambda>(w, sp). w @ sp) ps)"

definition spaced_ok :: "string \<Rightarrow> (string \<times> string) list \<Rightarrow> bool" where
  "spaced_ok toks ps \<longleftrightarrow>
     list_all (\<lambda>(w, sp). w \<noteq> [] \<and> sp \<noteq> [] \<and> list_all (\<lambda>c. c \<notin> set toks) w \<and>
                        list_all (\<lambda>c. c \<in> set toks) sp) ps"

lemma tok_word_spaced:
  assumes "\<forall>c \<in> set w. c \<notin> set toks" "\<forall>c \<in> set sp. c \<in> set toks" "sp \<noteq> []"
    "r = [] \<or> hd r \<notin> set toks"
  shows "tok_word toks (w @ sp @ r) = w" "tok_rest toks (w @ sp @ r) = r"
proof -
  from assms(2,3) obtain c sp' where c: "sp = c # sp'" "c \<in> set toks" by (cases sp) auto
  show "tok_word toks (w @ sp @ r) = w"
    unfolding tok_word_def using assms(1) c by (subst takeWhile_append2) auto
  have d: "dropWhile (\<lambda>c. c \<notin> set toks) (w @ sp @ r) = sp @ r"
    using assms(1) c by (subst dropWhile_append2) auto
  have "dropWhile (\<lambda>c. c \<in> set toks) (sp @ r) = dropWhile (\<lambda>c. c \<in> set toks) r"
    using assms(2) by (subst dropWhile_append2) auto
  also have "\<dots> = r" using assms(4) by (cases r) auto
  finally show "tok_rest toks (w @ sp @ r) = r" unfolding tok_rest_def d .
qed

lemma tokens_spaced:
  assumes "spaced_ok toks ps" "w \<noteq> []" "\<forall>c \<in> set w. c \<notin> set toks"
  shows "tokens toks (spaced ps @ w) = map fst ps @ [w]"
  using assms(1)
proof (induction ps)
  case Nil
  have "tok_word toks w = w" "dropWhile (\<lambda>c. c \<notin> set toks) w = []"
    using assms(3) by (auto simp: tok_word_def takeWhile_eq_all_conv dropWhile_eq_Nil_conv)
  then have "tok_rest toks w = []" unfolding tok_rest_def by (simp only: dropWhile.simps)
  then show ?case using assms(2) \<open>tok_word toks w = w\<close>
    by (simp add: spaced_def tokens.simps [of toks w] tokens.simps [of toks "[]"])
next
  case (Cons p ps)
  obtain v sp where p: "p = (v, sp)" by (cases p)
  from Cons.prems p have v: "v \<noteq> []" "sp \<noteq> []" "\<forall>c \<in> set v. c \<notin> set toks"
    "\<forall>c \<in> set sp. c \<in> set toks" and ps: "spaced_ok toks ps"
    by (auto simp: spaced_ok_def list_all_iff)
  let ?r = "spaced ps @ w"
  have "hd ?r \<notin> set toks"
    using ps assms(2,3) by (cases ps) (auto simp: spaced_def spaced_ok_def list_all_iff neq_Nil_conv)
  then have h: "?r = [] \<or> hd ?r \<notin> set toks" ..
  have "spaced (p # ps) @ w = v @ sp @ ?r" by (simp add: spaced_def p)
  moreover have "tokens toks (v @ sp @ ?r) = v # tokens toks ?r"
    using tok_word_spaced [OF v(3,4,2) h] v(1) by (simp add: tokens.simps [of toks "v @ sp @ ?r"])
  ultimately show ?case using Cons.IH [OF ps] p by simp
qed

section \<open>Properties\<close>





text \<open>C33. \<open>nextToken\<close> splits a line into its words: for a line of words with any separators between
  them, the calls that follow a successful \<open>next\<close> return the words in order and then the empty
  string, and the text after the line is untouched.\<close>

theorem nextTokens_words:
  assumes "spaced_ok toks ps" "w \<noteq> []" "\<forall>c \<in> set w. c \<notin> set toks" "toks \<noteq> []" "NUL \<notin> set toks"
    and "\<forall>c \<in> set (spaced ps @ w). \<not> is_nl c \<and> c \<noteq> NUL" "NUL \<notin> set rest" "rest = [] \<or> \<not> is_nl (hd rest)"
  shows "\<exists>t u. next_line (LineState_string (spaced ps @ w @ LF # rest)) = Some (True, t) \<and>
    nextTokens (length ps + 2) toks t = Some (map fst ps @ [w, []], u) \<and> unread u = rest"
proof -
  let ?l = "spaced ps @ w"
  let ?s = "LineState_string (?l @ [LF] @ rest)"
  have inv: "wf_line ?s" "\<not> httpMode ?s" using line_inv_string by (auto simp: line_inv_def)
  have p: "parts ?s [] (?l @ [LF] @ rest) []" by (simp add: LineState_string_def parts_def)
  have l: "\<forall>c \<in> set ?l. \<not> is_nl c" and n: "\<forall>c \<in> set [LF]. is_nl c" "[LF] \<noteq> []"
    using assms(6) by (auto simp: is_nl_def)
  obtain t where t: "next_line ?s = Some (True, t)" "wf_line t" "lineComplete t" "unread t = rest"
    "tokEnd t = lineStart t" "lineStart t = lineEnd ?s" "parts t ([] @ ?l @ replicate (length [LF]) NUL) rest []"
    using next_line_wf_complete [OF inv p l n assms(8)] by metis
  have tp: "tok_parts t [] (?l @ replicate 1 NUL) rest"
    using t(5-7) by (simp add: tok_parts_def parts_def LineState_string_def)
  have "NUL \<notin> set ?l" using assms(6) by blast
  then have tok: "tok_at t ?l" by (rule tok_atI [OF t(3) _ tp refl]) simp
  obtain u where u: "nextTokens (length ps + 2) toks t =
      Some (take (length ps + 2) (tokens toks ?l @ replicate (length ps + 2) []), u)" "same_line t u"
    using nextTokens_tok_at [OF t(2) tok assms(4,5)] by blast
  have "take (length ps + 2) (tokens toks ?l @ replicate (length ps + 2) []) = map fst ps @ [w, []]"
    using tokens_spaced [OF assms(1-3)] by simp
  with t(1,4) u show ?thesis by (auto simp: same_line_def)
qed

lemma nextTokens_words_witness:
  "\<exists>t u. next_line (LineState_string (spaced [(''cpu'', ''  ''), (''10'', '' '')] @ ''20'' @ LF # ''x'')) = Some (True, t) \<and>
    nextTokens (length [(''cpu'', ''  ''), (''10'', '' '')] + 2) '' '' t =
      Some (map fst [(''cpu'', ''  ''), (''10'', '' '')] @ [''20'', []], u) \<and> unread u = ''x''"
  by (rule nextTokens_words) (simp_all add: spaced_ok_def spaced_def is_nl_def)

text \<open>In HTTP mode \<open>next\<close> is not memory safe: after a carriage return it reads the following byte
  without comparing with \<^verbatim>\<open>bufLen_\<close>. For every text without newline characters, a buffer built
  from that text and a final CR is read one byte past its end, while LF or CRLF endings are
  handled.\<close>

theorem http_mode_cr_out_of_bounds:
  assumes "\<forall>c \<in> set w. \<not> is_nl c"
  shows "next_line (setHttpMode (LineState_string (w @ [CR])) True) = None \<and>
    next_line (setHttpMode (LineState_string (w @ [LF])) True) \<noteq> None \<and>
    next_line (setHttpMode (LineState_string (w @ [CR, LF])) True) \<noteq> None"
proof -
  have scan: "scan_to_newline s = Some (s\<lparr>lineEnd := int (length w)\<rparr>)"
    if "s = setHttpMode (LineState_string (w @ c # r)) True" "is_nl c" for s c r
  proof -
    have "parts s [] (w @ c # r) []" using that by (simp add: parts_def setHttpMode_def LineState_string_def)
    from scan_to_newline_parts [OF this] show ?thesis
      using assms that(2) by (simp add: takeWhile_tail takeWhile_append)
  qed
  have nls: "is_nl CR" "is_nl LF" by (simp_all add: is_nl_def)
  have "next_line (setHttpMode (LineState_string (w @ [CR])) True) = None"
    using scan [OF refl nls(1), of "[]"]
    by (simp add: next_line_def Let_def null_http_newline_def nullLast_def rd_def wr_def in_bounds_def
        setHttpMode_def LineState_string_def nat_add_distrib)
  moreover have "next_line (setHttpMode (LineState_string (w @ [LF])) True) \<noteq> None"
    using scan [OF refl nls(2), of "[]"]
    by (simp add: next_line_def Let_def null_http_newline_def nullLast_def rd_def wr_def in_bounds_def
        setHttpMode_def LineState_string_def nat_add_distrib)
  moreover have "next_line (setHttpMode (LineState_string (w @ [CR, LF])) True) \<noteq> None"
    using scan [OF refl nls(1), of "[LF]"]
    by (simp add: next_line_def Let_def null_http_newline_def nullLast_def rd_def wr_def in_bounds_def
        setHttpMode_def LineState_string_def nat_add_distrib nth_append list_update_append)
  ultimately show ?thesis by blast
qed

lemma http_mode_cr_out_of_bounds_witness:
  "next_line (setHttpMode (LineState_string (''ab'' @ [CR])) True) = None \<and>
   next_line (setHttpMode (LineState_string (''ab'' @ [LF])) True) \<noteq> None \<and>
   next_line (setHttpMode (LineState_string (''ab'' @ [CR, LF])) True) \<noteq> None"
  by (rule http_mode_cr_out_of_bounds) (simp add: is_nl_def)

text \<open>A failed \<^verbatim>\<open>read\<close> corrupts the buffer: its result goes through a \<^verbatim>\<open>size_t\<close>, so the test
  \<^verbatim>\<open>r <= 0\<close> misses -1 and \<^verbatim>\<open>bufLen_\<close> loses a byte. The call still reports -1, but on an empty
  buffer the length becomes negative and a following \<open>consume\<close> moves a block of negative size.\<close>

theorem readFd_failure_loses_byte:
  assumes "- (2 ^ 31) < bufLen s" and "bufLen s < 2 ^ 31"
  shows "readFd s Read_failed = Some (- 1, s\<lparr>bufLen := bufLen s - 1\<rparr>) \<and>
    consume (s\<lparr>bufLen := - 1, lineStart := 0, lineComplete := False\<rparr>) = None"
proof -
  have "to_int32 (bufLen s + (2 ^ 64 - 1)) = to_int32 (bufLen s - 1 + 2 ^ 64)" by (simp add: algebra_simps)
  also have "\<dots> = to_int32 (bufLen s - 1)"
    unfolding to_int32_def by (rule arg_cong [where f = sint]) (simp add: word_of_int_eq_iff take_bit_eq_mod flip: mod_add_right_eq)
  also have "\<dots> = bufLen s - 1" using assms by simp
  finally show ?thesis by (simp add: readFd_def consume_def Let_def)
qed

lemma readFd_failure_loses_byte_witness:
  "readFd (LineState_empty [NUL]) Read_failed =
     Some (- 1, (LineState_empty [NUL])\<lparr>bufLen := bufLen (LineState_empty [NUL]) - 1\<rparr>) \<and>
   consume ((LineState_empty [NUL])\<lparr>bufLen := - 1, lineStart := 0, lineComplete := False\<rparr>) = None"
  by (rule readFd_failure_loses_byte) (simp_all add: LineState_empty_def)

end
