(* ===== verification/Absl.thy ===== *)
theory Absl
  imports CText
begin

text \<open>
  The functions of the Abseil string library the program calls. The library is not part of the
  repository: its functions are fields of a record that the definitions of the model take as an
  argument, and \<open>absl_ok\<close> states what its documentation promises of them. \<open>absl_reference\<close> is
  one implementation with this behaviour, which the examples use.
\<close>

datatype absl_arg = Text string | Number nat

fun arg_text :: "absl_arg \<Rightarrow> string" where
  "arg_text (Text s) = s"
| "arg_text (Number n) = show_nat n"

record absl =
  StrCat :: "absl_arg list \<Rightarrow> string"
  StrSplit :: "string \<Rightarrow> char \<Rightarrow> string list"
  StrJoin :: "string list \<Rightarrow> string \<Rightarrow> string"
  SimpleAtoi :: "string \<Rightarrow> int option"      \<comment> \<open>to an \<^verbatim>\<open>int32_t\<close> or an \<^verbatim>\<open>int\<close>\<close>
  SimpleAtoi64 :: "string \<Rightarrow> int option"    \<comment> \<open>to an \<^verbatim>\<open>int64_t\<close>\<close>

text \<open>\<^verbatim>\<open>absl::StrAppend(&dest, ...)\<close>.\<close>

definition StrAppend :: "absl \<Rightarrow> string \<Rightarrow> absl_arg list \<Rightarrow> string" where
  "StrAppend A dest args = StrCat A (Text dest # args)"

section \<open>The documented behaviour\<close>

fun join_with :: "string \<Rightarrow> string list \<Rightarrow> string" where
  "join_with sep [] = []"
| "join_with sep [p] = p"
| "join_with sep (p # q # ps) = p @ sep @ join_with sep (q # ps)"

fun split_at :: "char \<Rightarrow> string \<Rightarrow> string list" where
  "split_at c [] = [[]]"
| "split_at c (d # s) =
     (if d = c then [] # split_at c s
      else case split_at c s of [] \<Rightarrow> [[d]] | p # ps \<Rightarrow> (d # p) # ps)"

text \<open>Optional white space and sign around a nonempty run of digits, and nothing else.\<close>

definition decimal_value :: "string \<Rightarrow> int option" where
  "decimal_value s =
     (let s1 = rev (dropWhile isspace (rev (dropWhile isspace s)));
          neg = (s1 \<noteq> [] \<and> hd s1 = CHR ''-'');
          ds = (if s1 \<noteq> [] \<and> (hd s1 = CHR ''-'' \<or> hd s1 = CHR ''+'') then tl s1 else s1)
      in if ds = [] \<or> \<not> list_all is_digit ds then None
         else Some (if neg then - int (read_digits 10 ds) else int (read_digits 10 ds)))"

definition within :: "int \<Rightarrow> int option \<Rightarrow> int option" where
  "within bound v = (case v of Some i \<Rightarrow> if - bound \<le> i \<and> i < bound then Some i else None | None \<Rightarrow> None)"

definition absl_ok :: "absl \<Rightarrow> bool" where
  "absl_ok A \<longleftrightarrow>
     (\<forall>args. StrCat A args = concat (map arg_text args)) \<and>
     (\<forall>s c. StrSplit A s c \<noteq> [] \<and> join_with [c] (StrSplit A s c) = s \<and>
            (\<forall>p \<in> set (StrSplit A s c). c \<notin> set p)) \<and>
     (\<forall>ps sep. StrJoin A ps sep = join_with sep ps) \<and>
     (\<forall>s. SimpleAtoi A s = within (2 ^ 31) (decimal_value s)) \<and>
     (\<forall>s. SimpleAtoi64 A s = within (2 ^ 63) (decimal_value s))"

definition absl_reference :: absl where
  "absl_reference =
     \<lparr>StrCat = (\<lambda>args. concat (map arg_text args)), StrSplit = (\<lambda>s c. split_at c s),
      StrJoin = (\<lambda>ps sep. join_with sep ps),
      SimpleAtoi = (\<lambda>s. within (2 ^ 31) (decimal_value s)),
      SimpleAtoi64 = (\<lambda>s. within (2 ^ 63) (decimal_value s))\<rparr>"

lemma split_at_nonempty [simp]: "split_at c s \<noteq> []"
  by (induction s) (auto split: list.splits)

lemma join_with_Cons_nonempty: "ps \<noteq> [] \<Longrightarrow> join_with sep (p # ps) = p @ sep @ join_with sep ps"
  by (cases ps) auto

lemma join_with_hd: "join_with sep ((d # p) # ps) = d # join_with sep (p # ps)"
  by (cases ps) auto

lemma split_at_join: "join_with [c] (split_at c s) = s"
  by (induction s) (auto simp: join_with_Cons_nonempty join_with_hd split: list.splits)

lemma split_at_no_sep: "p \<in> set (split_at c s) \<Longrightarrow> c \<notin> set p"
  by (induction s arbitrary: p) (auto split: list.splits if_splits)

lemma absl_reference_ok: "absl_ok absl_reference"
  by (auto simp: absl_ok_def absl_reference_def split_at_join dest: split_at_no_sep)

section \<open>Consequences\<close>

lemma absl_StrCat: "absl_ok A \<Longrightarrow> StrCat A args = concat (map arg_text args)"
  by (simp add: absl_ok_def)

lemma absl_StrAppend: "absl_ok A \<Longrightarrow> StrAppend A s args = s @ concat (map arg_text args)"
  by (simp add: absl_ok_def StrAppend_def)

text \<open>The documented laws of \<^verbatim>\<open>StrSplit\<close> determine it.\<close>

lemma split_unique:
  "ps \<noteq> [] \<Longrightarrow> join_with [c] ps = s \<Longrightarrow> \<forall>p \<in> set ps. c \<notin> set p \<Longrightarrow> ps = split_at c s"
proof (induction s arbitrary: ps)
  case Nil
  then show ?case by (cases ps rule: remdups_adj.cases) auto
next
  case (Cons d s)
  obtain p qs where ps: "ps = p # qs" using Cons.prems(1) by (cases ps) auto
  show ?case
  proof (cases p)
    case Nil
    then have q: "qs \<noteq> []" using Cons.prems(2) ps by auto
    then have "d = c" "join_with [c] qs = s" using Cons.prems(2) ps Nil by (auto simp: join_with_Cons_nonempty)
    with Cons.IH [OF q] Cons.prems(3) ps Nil show ?thesis by simp
  next
    case p: (Cons e p')
    then have e: "e = d" "join_with [c] (p' # qs) = s" using Cons.prems(2) ps by (auto simp: join_with_hd)
    have "d \<noteq> c" using Cons.prems(3) ps p e(1) by auto
    moreover have "p' # qs = split_at c s" using Cons.IH [OF _ e(2)] Cons.prems(3) ps p by auto
    ultimately show ?thesis using ps p e(1) by (simp split: list.splits) (metis list.inject)
  qed
qed

lemma absl_StrSplit: "absl_ok A \<Longrightarrow> StrSplit A s c = split_at c s"
  by (rule split_unique) (auto simp: absl_ok_def)

lemma split_at_none: "c \<notin> set p \<Longrightarrow> split_at c p = [p]"
  by (induction p) auto

lemma split_at_append: "c \<notin> set p \<Longrightarrow> split_at c (p @ c # s) = p # split_at c s"
  by (induction p) auto


end
