(* ===== verification/Codec.thy ===== *)
theory Codec
  imports Main
begin

text \<open>
  The contract of an encoding that can be undone: what is encoded from a valid value decodes to it.
  The encodings of the program (port numbers in network byte order, Base64, percent encoding) are
  interpretations, and the signature of a request is a chain of two of them.
\<close>

locale codec =
  fixes enc :: "'a \<Rightarrow> 'b" and dec :: "'b \<Rightarrow> 'a option" and valid :: "'a \<Rightarrow> bool"
  assumes dec_enc: "valid x \<Longrightarrow> dec (enc x) = Some x"
begin

lemma enc_eq_iff: "valid x \<Longrightarrow> valid y \<Longrightarrow> enc x = enc y \<longleftrightarrow> x = y"
  by (metis dec_enc option.inject)

lemma dec_unique: "valid x \<Longrightarrow> dec (enc x) = Some y \<longleftrightarrow> y = x"
  by (auto simp: dec_enc)

end

text \<open>One encoding after another.\<close>

locale codec_chain = first: codec enc1 dec1 valid1 + second: codec enc2 dec2 valid2
  for enc1 :: "'a \<Rightarrow> 'b" and dec1 valid1 and enc2 :: "'b \<Rightarrow> 'c" and dec2 valid2 +
  assumes fits: "valid1 x \<Longrightarrow> valid2 (enc1 x)"

sublocale codec_chain \<subseteq> chained: codec "\<lambda>x. enc2 (enc1 x)" "\<lambda>y. Option.bind (dec2 y) dec1" valid1
  by unfold_locales (simp add: fits first.dec_enc second.dec_enc)

end
