(* ===== verification/Addresses.thy ===== *)
theory Addresses
  imports Util Codec "HOL-Library.Multiset"
begin

text \<open>
  \<^verbatim>\<open>apib/addresses.{h,cc}\<close>: one socket address, and the list of addresses DNS gave for a name.
  A \<^verbatim>\<open>sockaddr_storage\<close> is its family and the bytes that follow it; only the bytes copied in
  are there, so reading the others is \<^const>\<open>None\<close>, like a failed \<^verbatim>\<open>assert\<close>. The resolver itself
  (\<^verbatim>\<open>getaddrinfo\<close>) is an argument.
\<close>

section \<open>Address\<close>

datatype family = AF_UNSPEC | AF_INET | AF_INET6 | AF_OTHER nat

record Address =
  ss_family :: family
  sa_data :: "char list"   \<comment> \<open>the bytes after the two of the family\<close>

definition Address_none :: Address where
  "Address_none = \<lparr>ss_family = AF_UNSPEC, sa_data = []\<rparr>"

text \<open>The port is in network byte order in the first two bytes, for both families.\<close>

definition htons :: "nat \<Rightarrow> char list" where
  "htons p = [char_of (p div 256), char_of (p mod 256)]"

definition ntohs :: "char \<Rightarrow> char \<Rightarrow> nat" where
  "ntohs hi lo = byte_of hi * 256 + byte_of lo"

interpretation po: codec htons "\<lambda>bs. Some (ntohs (bs ! 0) (bs ! 1))" "\<lambda>p. p < 65536"
  by unfold_locales (simp add: htons_def ntohs_def byte_of_def)

definition setPort :: "Address \<Rightarrow> nat \<Rightarrow> Address option" where
  "setPort a p =
     (case ss_family a of
        AF_INET \<Rightarrow> Some (a\<lparr>sa_data := store_at (sa_data a) 0 (htons p)\<rparr>)
      | AF_INET6 \<Rightarrow> Some (a\<lparr>sa_data := store_at (sa_data a) 0 (htons p)\<rparr>)
      | _ \<Rightarrow> None)"

definition Address_new :: "family \<Rightarrow> char list \<Rightarrow> nat \<Rightarrow> Address option" where
  "Address_new fam data p = setPort \<lparr>ss_family = fam, sa_data = data\<rparr> p"

definition length_addr :: "Address \<Rightarrow> nat option" where
  "length_addr a =
     (case ss_family a of
        AF_INET \<Rightarrow> Some 16 | AF_INET6 \<Rightarrow> Some 28 | AF_UNSPEC \<Rightarrow> Some 0 | AF_OTHER _ \<Rightarrow> None)"

definition port_of :: "Address \<Rightarrow> nat option" where
  "port_of a =
     (let p = do { hi \<leftarrow> rd (sa_data a) 0; lo \<leftarrow> rd (sa_data a) 1; Some (ntohs hi lo) } in
      case ss_family a of
        AF_INET \<Rightarrow> p | AF_INET6 \<Rightarrow> p | AF_UNSPEC \<Rightarrow> Some 0 | AF_OTHER _ \<Rightarrow> None)"

definition valid :: "Address \<Rightarrow> bool" where
  "valid a \<longleftrightarrow> ss_family a \<noteq> AF_UNSPEC"

text \<open>\<open>get\<close> copies the first \<open>length\<close> bytes of the structure; \<open>==\<close> compares as many. Both count
  the two bytes of the family, which the comparison has found equal.\<close>

definition get_addr :: "Address \<Rightarrow> (nat \<times> char list) option" where
  "get_addr a = do {
     n \<leftarrow> length_addr a;
     if n - 2 \<le> length (sa_data a) then Some (n, take (n - 2) (sa_data a)) else None
   }"

definition eq_addr :: "Address \<Rightarrow> Address \<Rightarrow> bool option" where
  "eq_addr a1 a2 =
     (if ss_family a1 \<noteq> ss_family a2 then Some False
      else do {
        n \<leftarrow> length_addr a1;
        if n - 2 \<le> length (sa_data a1) \<and> n - 2 \<le> length (sa_data a2)
        then Some (take (n - 2) (sa_data a1) = take (n - 2) (sa_data a2)) else None
      })"

section \<open>Addresses\<close>

type_synonym Addresses = "Address list"

text \<open>The answer of \<^verbatim>\<open>getaddrinfo\<close>: the list of results, \<^verbatim>\<open>EAI_SYSTEM\<close> with an \<^verbatim>\<open>errno\<close>, or
  another error code.\<close>

datatype lookup_answer = Resolved "(family \<times> char list) list" | System_error int | Lookup_error int

fun Addresses_new :: "(family \<times> char list) list \<Rightarrow> Addresses option" where
  "Addresses_new [] = Some []"
| "Addresses_new ((fam, data) # rest) = do {
     a \<leftarrow> Address_new fam data 0;
     as \<leftarrow> Addresses_new rest;
     Some (a # as)
   }"

text \<open>What the program takes from the C library for a lookup.\<close>

record resolver =
  getaddrinfo :: "string \<Rightarrow> lookup_answer"
  gai_strerror :: "int \<Rightarrow> string"
  strerror :: "int \<Rightarrow> string"

definition lookup_addrs :: "resolver \<Rightarrow> string \<Rightarrow> Addresses StatusOr option" where
  "lookup_addrs R name =
     (case getaddrinfo R name of
        System_error e \<Rightarrow> Some (Inl (Status_errno (strerror R) SOCKET_ERROR e))
      | Lookup_error s \<Rightarrow> Some (Inl (Status_msg DNS_ERROR (gai_strerror R s)))
      | Resolved results \<Rightarrow> map_option Inr (Addresses_new results))"

text \<open>The index is computed in \<^verbatim>\<open>size_t\<close>: a negative \<open>sequence\<close> becomes a large number first.\<close>

definition Addresses_get :: "Addresses \<Rightarrow> nat \<Rightarrow> int \<Rightarrow> Address option" where
  "Addresses_get as p sequence =
     (if as = [] then Some Address_none
      else let ix = (sequence mod 2 ^ 64) mod int (length as) in
           do { a \<leftarrow> rd as ix; setPort a p })"

section \<open>Well-formed addresses\<close>

definition addr_ok :: "Address \<Rightarrow> bool" where
  "addr_ok a \<longleftrightarrow>
     (ss_family a = AF_INET \<and> length (sa_data a) = 14) \<or>
     (ss_family a = AF_INET6 \<and> length (sa_data a) = 26)"

text \<open>The documented results of \<^verbatim>\<open>getaddrinfo\<close> for stream sockets of IPv4 and IPv6.\<close>

definition answer_ok :: "lookup_answer \<Rightarrow> bool" where
  "answer_ok ans =
     (case ans of Resolved rs \<Rightarrow>
        list_all (\<lambda>(fam, data). (fam = AF_INET \<and> length data = 14) \<or> (fam = AF_INET6 \<and> length data = 26)) rs
      | _ \<Rightarrow> True)"

definition stamp :: "nat \<Rightarrow> Address \<Rightarrow> Address" where
  "stamp p a = a\<lparr>sa_data := htons p @ drop 2 (sa_data a)\<rparr>"

lemma setPort_ok: "addr_ok a \<Longrightarrow> setPort a p = Some (stamp p a)"
  by (auto simp: addr_ok_def setPort_def stamp_def store_at_def htons_def numeral_2_eq_2)

lemma stamp_ok: "addr_ok a \<Longrightarrow> addr_ok (stamp p a)"
  by (auto simp: addr_ok_def stamp_def htons_def)

lemma stamp_fields [simp]: "ss_family (stamp p a) = ss_family a"
  by (simp add: stamp_def)

lemma port_stamp:
  assumes "addr_ok a" "p < 65536"
  shows "port_of (stamp p a) = Some p"
proof -
  have "p div 256 < 256" using assms(2) by simp
  then have "ntohs (char_of (p div 256)) (char_of (p mod 256)) = p"
    by (simp add: ntohs_def byte_of_def)
  then show ?thesis
    using assms(1) by (auto simp: addr_ok_def port_of_def stamp_def htons_def rd_def in_bounds_def)
qed

lemma Addresses_new_ok:
  assumes "answer_ok (Resolved rs)"
  obtains as where "Addresses_new rs = Some as" "list_all addr_ok as" "length as = length rs"
proof -
  have "\<exists>as. Addresses_new rs = Some as \<and> list_all addr_ok as \<and> length as = length rs"
    using assms
  proof (induction rs)
    case (Cons r rs)
    obtain fam data where r: "r = (fam, data)" by (cases r)
    with Cons.prems have "addr_ok \<lparr>ss_family = fam, sa_data = data\<rparr>"
      by (auto simp: answer_ok_def addr_ok_def)
    then have "Address_new fam data 0 = Some (stamp 0 \<lparr>ss_family = fam, sa_data = data\<rparr>)"
      "addr_ok (stamp 0 \<lparr>ss_family = fam, sa_data = data\<rparr>)"
      by (simp_all add: Address_new_def setPort_ok stamp_ok)
    moreover from Cons obtain as where "Addresses_new rs = Some as" "list_all addr_ok as" "length as = length rs"
      by (auto simp: answer_ok_def)
    ultimately show ?case using r by simp
  qed simp
  then show ?thesis using that by blast
qed

lemma lookup_addrs_ok:
  assumes "answer_ok (getaddrinfo R name)"
  obtains s where "lookup_addrs R name = Some (Inl s)" "\<not> ok s"
  | as where "lookup_addrs R name = Some (Inr as)" "list_all addr_ok as"
proof (cases "getaddrinfo R name")
  case (Resolved rs)
  with assms Addresses_new_ok [of rs] that(2) show ?thesis by (auto simp: lookup_addrs_def)
qed (use that(1) in \<open>simp_all add: lookup_addrs_def\<close>)

lemma Addresses_get_ok:
  assumes "list_all addr_ok as" "as \<noteq> []" "0 \<le> i" "i < 2 ^ 64"
  shows "Addresses_get as p i = Some (stamp p (as ! (nat i mod length as)))"
proof -
  have m: "(i mod 2 ^ 64) mod int (length as) = int (nat i mod length as)"
    using assms(3,4) by (simp add: zmod_int)
  have lt: "nat i mod length as < length as" using assms(2) by simp
  then have "rd as (int (nat i mod length as)) = Some (as ! (nat i mod length as))"
    by (simp add: rd_def in_bounds_def)
  moreover have "addr_ok (as ! (nat i mod length as))" using assms(1) lt by (simp add: list_all_length)
  ultimately show ?thesis using assms(2) m by (simp add: Addresses_get_def Let_def setPort_ok)
qed

lemma eq_addr_ok:
  assumes "addr_ok a" "addr_ok b"
  shows "eq_addr a b = Some (a = b)"
  using assms by (cases a; cases b) (auto simp: addr_ok_def eq_addr_def length_addr_def)

text \<open>A full round of consecutive indices visits every position once.\<close>

lemma mset_rotation: "mset (map (\<lambda>i. xs ! (i mod length xs)) [k..<k + length xs]) = mset xs"
proof (induction k)
  case 0
  have "map (\<lambda>i. xs ! (i mod length xs)) [0..<length xs] = map ((!) xs) [0..<length xs]"
    by (intro map_cong) simp_all
  then show ?case by (simp add: map_nth)
next
  case (Suc k)
  show ?case
  proof (cases "xs = []")
    case False
    then have "0 < length xs" by simp
    then have "[k..<k + length xs] = k # [Suc k..<k + length xs]"
      "[Suc k..<Suc k + length xs] = [Suc k..<k + length xs] @ [k + length xs]"
      by (simp_all add: upt_conv_Cons del: length_greater_0_conv)
    with Suc show ?thesis by simp
  qed simp
qed

section \<open>Properties\<close>



end
