(* ===== verification/Url_Parser.thy ===== *)
theory Url_Parser
  imports CText
begin

text \<open>
  The URL parser the program embeds, \<^verbatim>\<open>third_party/http_parser/http_parser.c\<close>:
  \<^verbatim>\<open>parse_url_char\<close>, \<^verbatim>\<open>http_parse_host_char\<close>, \<^verbatim>\<open>http_parse_host\<close> and
  \<^verbatim>\<open>http_parser_parse_url\<close>, as the build compiles it (\<^verbatim>\<open>HTTP_PARSER_STRICT\<close> is 0). Offsets
  and lengths are the code's 16-bit fields; the text the parser reads is the one it is given,
  and reading outside it or failing an \<^verbatim>\<open>assert\<close> is an error value of its own.
\<close>

section \<open>Character classes\<close>

definition LOWER :: "char \<Rightarrow> nat" where
  "LOWER c = semiring_bit_operations_class.or (byte_of c) 32"

definition IS_ALPHA :: "char \<Rightarrow> bool" where
  "IS_ALPHA c \<longleftrightarrow> 97 \<le> LOWER c \<and> LOWER c \<le> 122"

definition IS_NUM :: "char \<Rightarrow> bool" where
  "IS_NUM c \<longleftrightarrow> is_digit c"

definition IS_ALPHANUM :: "char \<Rightarrow> bool" where
  "IS_ALPHANUM c \<longleftrightarrow> IS_ALPHA c \<or> IS_NUM c"

definition IS_HEX :: "char \<Rightarrow> bool" where
  "IS_HEX c \<longleftrightarrow> IS_NUM c \<or> (97 \<le> LOWER c \<and> LOWER c \<le> 102)"

definition IS_MARK :: "char \<Rightarrow> bool" where
  "IS_MARK c \<longleftrightarrow> c \<in> set ''-_.!~*'' \<or> c = CHR 0x27 \<or> c \<in> set ''()''"

definition IS_USERINFO_CHAR :: "char \<Rightarrow> bool" where
  "IS_USERINFO_CHAR c \<longleftrightarrow> IS_ALPHANUM c \<or> IS_MARK c \<or> c \<in> set ''%;:&=+$,''"

text \<open>The bit table of the printable characters that may occur in a path, with tab and form feed
  as in the non-strict build.\<close>

definition normal_url_char :: "nat list" where
  "normal_url_char =
     [0, 2 + 16, 0, 0,
      2 + 4 + 16 + 32 + 64 + 128, 255, 255, 127,
      255, 255, 255, 255, 255, 255, 255, 127] @ replicate 16 0"

definition BIT_AT :: "nat list \<Rightarrow> nat \<Rightarrow> bool" where
  "BIT_AT a i \<longleftrightarrow> bit (a ! (i div 8)) (i mod 8)"

definition IS_URL_CHAR :: "char \<Rightarrow> bool" where
  "IS_URL_CHAR c \<longleftrightarrow> BIT_AT normal_url_char (byte_of c) \<or> 128 \<le> byte_of c"

definition IS_HOST_CHAR :: "char \<Rightarrow> bool" where
  "IS_HOST_CHAR c \<longleftrightarrow> IS_ALPHANUM c \<or> c \<in> set ''.-_''"

section \<open>The automaton over the whole URL\<close>

datatype state =
    s_dead | s_req_spaces_before_url | s_req_schema | s_req_schema_slash
  | s_req_schema_slash_slash | s_req_server_start | s_req_server | s_req_server_with_at
  | s_req_path | s_req_query_string_start | s_req_query_string | s_req_fragment_start
  | s_req_fragment

text \<open>The cases \<^verbatim>\<open>s_req_server_start\<close> and \<^verbatim>\<open>s_req_server\<close>, into which
  \<^verbatim>\<open>s_req_server_with_at\<close> falls through.\<close>

definition parse_server_char :: "char \<Rightarrow> state" where
  "parse_server_char ch =
     (if ch = CHR ''/'' then s_req_path
      else if ch = CHR ''?'' then s_req_query_string_start
      else if ch = CHR ''@'' then s_req_server_with_at
      else if IS_USERINFO_CHAR ch \<or> ch = CHR ''['' \<or> ch = CHR '']'' then s_req_server
      else s_dead)"

definition parse_url_char :: "state \<Rightarrow> char \<Rightarrow> state" where
  "parse_url_char s ch =
     (if ch = CHR '' '' \<or> ch = CR \<or> ch = LF then s_dead
      else case s of
        s_req_spaces_before_url \<Rightarrow>
          if ch = CHR ''/'' \<or> ch = CHR ''*'' then s_req_path
          else if IS_ALPHA ch then s_req_schema else s_dead
      | s_req_schema \<Rightarrow>
          if IS_ALPHA ch then s else if ch = CHR '':'' then s_req_schema_slash else s_dead
      | s_req_schema_slash \<Rightarrow>
          if ch = CHR ''/'' then s_req_schema_slash_slash else s_dead
      | s_req_schema_slash_slash \<Rightarrow>
          if ch = CHR ''/'' then s_req_server_start else s_dead
      | s_req_server_with_at \<Rightarrow> if ch = CHR ''@'' then s_dead else parse_server_char ch
      | s_req_server_start \<Rightarrow> parse_server_char ch
      | s_req_server \<Rightarrow> parse_server_char ch
      | s_req_path \<Rightarrow>
          if IS_URL_CHAR ch then s
          else if ch = CHR ''?'' then s_req_query_string_start
          else if ch = CHR ''#'' then s_req_fragment_start else s_dead
      | s_req_query_string_start \<Rightarrow>
          if IS_URL_CHAR ch then s_req_query_string
          else if ch = CHR ''?'' then s_req_query_string
          else if ch = CHR ''#'' then s_req_fragment_start else s_dead
      | s_req_query_string \<Rightarrow>
          if IS_URL_CHAR ch then s_req_query_string
          else if ch = CHR ''?'' then s_req_query_string
          else if ch = CHR ''#'' then s_req_fragment_start else s_dead
      | s_req_fragment_start \<Rightarrow>
          if IS_URL_CHAR ch then s_req_fragment
          else if ch = CHR ''?'' then s_req_fragment
          else if ch = CHR ''#'' then s else s_dead
      | s_req_fragment \<Rightarrow>
          if IS_URL_CHAR ch then s
          else if ch = CHR ''?'' \<or> ch = CHR ''#'' then s else s_dead
      | s_dead \<Rightarrow> s_dead)"

section \<open>The fields of a URL\<close>

datatype url_field =
    UF_SCHEMA | UF_HOST | UF_PORT | UF_PATH | UF_QUERY | UF_FRAGMENT | UF_USERINFO

record field_data =
  off :: nat
  len :: nat

record http_parser_url =
  field_set :: "url_field set"
  url_port :: nat
  field_data :: "url_field \<Rightarrow> field_data"

definition http_parser_url_init :: http_parser_url where
  "http_parser_url_init =
     \<lparr>field_set = {}, url_port = 0, field_data = (\<lambda>_. \<lparr>off = 0, len = 0\<rparr>)\<rparr>"

text \<open>Assignments to a 16-bit field keep the low 16 bits.\<close>

definition start_field :: "url_field \<Rightarrow> nat \<Rightarrow> nat \<Rightarrow> http_parser_url \<Rightarrow> http_parser_url" where
  "start_field f i n u =
     u\<lparr>field_data := (field_data u)(f := \<lparr>off = i mod 65536, len = n\<rparr>),
       field_set := insert f (field_set u)\<rparr>"

definition set_off :: "url_field \<Rightarrow> nat \<Rightarrow> http_parser_url \<Rightarrow> http_parser_url" where
  "set_off f i u =
     u\<lparr>field_data := (field_data u)(f := (field_data u f)\<lparr>off := i mod 65536\<rparr>)\<rparr>"

definition set_len :: "url_field \<Rightarrow> nat \<Rightarrow> http_parser_url \<Rightarrow> http_parser_url" where
  "set_len f n u =
     u\<lparr>field_data := (field_data u)(f := (field_data u f)\<lparr>len := n\<rparr>)\<rparr>"

definition incr_len :: "url_field \<Rightarrow> http_parser_url \<Rightarrow> http_parser_url" where
  "incr_len f u = set_len f ((len (field_data u f) + 1) mod 65536) u"

text \<open>What the parser returns besides 0: 1 for a rejected URL, or a stop in undefined behaviour.\<close>

datatype parse_error = Rejected | Assertion_failed | Out_of_bounds

section \<open>The host part\<close>

datatype http_host_state =
    s_http_host_dead | s_http_userinfo_start | s_http_userinfo | s_http_host_start
  | s_http_host_v6_start | s_http_host | s_http_host_v6 | s_http_host_v6_end
  | s_http_host_v6_zone_start | s_http_host_v6_zone | s_http_host_port_start | s_http_host_port

definition http_parse_host_char :: "http_host_state \<Rightarrow> char \<Rightarrow> http_host_state" where
  "http_parse_host_char s ch =
     (let colon = (if ch = CHR '':'' then s_http_host_port_start else s_http_host_dead);
          v6 = (if IS_HEX ch \<or> ch = CHR '':'' \<or> ch = CHR ''.'' then s_http_host_v6
                else if s = s_http_host_v6 \<and> ch = CHR ''%'' then s_http_host_v6_zone_start
                else s_http_host_dead);
          zone = (if IS_ALPHANUM ch \<or> ch \<in> set ''%.-_~'' then s_http_host_v6_zone
                  else s_http_host_dead);
          userinfo = (if ch = CHR ''@'' then s_http_host_start
                      else if IS_USERINFO_CHAR ch then s_http_userinfo else s_http_host_dead);
          port = (if IS_NUM ch then s_http_host_port else s_http_host_dead)
      in case s of
           s_http_userinfo \<Rightarrow> userinfo
         | s_http_userinfo_start \<Rightarrow> userinfo
         | s_http_host_start \<Rightarrow>
             if ch = CHR ''['' then s_http_host_v6_start
             else if IS_HOST_CHAR ch then s_http_host else s_http_host_dead
         | s_http_host \<Rightarrow> if IS_HOST_CHAR ch then s_http_host else colon
         | s_http_host_v6_end \<Rightarrow> colon
         | s_http_host_v6 \<Rightarrow> if ch = CHR '']'' then s_http_host_v6_end else v6
         | s_http_host_v6_start \<Rightarrow> v6
         | s_http_host_v6_zone \<Rightarrow> if ch = CHR '']'' then s_http_host_v6_end else zone
         | s_http_host_v6_zone_start \<Rightarrow> zone
         | s_http_host_port \<Rightarrow> port
         | s_http_host_port_start \<Rightarrow> port
         | s_http_host_dead \<Rightarrow> s_http_host_dead)"

text \<open>The switch on the new state in the loop of \<^verbatim>\<open>http_parse_host\<close>, at offset \<open>i\<close>.\<close>

definition host_update ::
    "http_host_state \<Rightarrow> http_host_state \<Rightarrow> nat \<Rightarrow> http_parser_url \<Rightarrow> http_parser_url" where
  "host_update s new_s i u =
     (case new_s of
        s_http_host \<Rightarrow> incr_len UF_HOST (if s \<noteq> s_http_host then set_off UF_HOST i u else u)
      | s_http_host_v6 \<Rightarrow> incr_len UF_HOST (if s \<noteq> s_http_host_v6 then set_off UF_HOST i u else u)
      | s_http_host_v6_zone_start \<Rightarrow> incr_len UF_HOST u
      | s_http_host_v6_zone \<Rightarrow> incr_len UF_HOST u
      | s_http_host_port \<Rightarrow>
          incr_len UF_PORT (if s \<noteq> s_http_host_port then start_field UF_PORT i 0 u else u)
      | s_http_userinfo \<Rightarrow>
          incr_len UF_USERINFO (if s \<noteq> s_http_userinfo then start_field UF_USERINFO i 0 u else u)
      | _ \<Rightarrow> u)"

fun host_loop ::
    "string \<Rightarrow> nat \<Rightarrow> http_host_state \<Rightarrow> http_parser_url \<Rightarrow> parse_error + (http_host_state \<times> http_parser_url)" where
  "host_loop [] i s u = Inr (s, u)"
| "host_loop (c # cs) i s u =
     (let new_s = http_parse_host_char s c in
      if new_s = s_http_host_dead then Inl Rejected
      else host_loop cs (i + 1) new_s (host_update s new_s i u))"

definition http_parse_host :: "string \<Rightarrow> http_parser_url \<Rightarrow> bool \<Rightarrow> parse_error + http_parser_url" where
  "http_parse_host b u found_at =
     (let start = off (field_data u UF_HOST);
          buflen = start + len (field_data u UF_HOST)
      in if UF_HOST \<notin> field_set u then Inl Assertion_failed
         else if buflen > length b then Inl Out_of_bounds
         else case host_loop (drop start (take buflen b)) start
                     (if found_at then s_http_userinfo_start else s_http_host_start)
                     (set_len UF_HOST 0 u) of
           Inl e \<Rightarrow> Inl e
         | Inr (s, u') \<Rightarrow>
             if s \<in> {s_http_host_start, s_http_host_v6_start, s_http_host_v6,
                     s_http_host_v6_zone_start, s_http_host_v6_zone, s_http_host_port_start,
                     s_http_userinfo, s_http_userinfo_start}
             then Inl Rejected else Inr u')"

section \<open>The whole URL\<close>

text \<open>The switch that finds the field of a state: a dead state, a delimiter, or a field.\<close>

datatype url_step = Dead | Delimiter | Field url_field | Unexpected

fun step_of :: "state \<Rightarrow> url_step" where
  "step_of s_dead = Dead"
| "step_of s_req_schema_slash = Delimiter"
| "step_of s_req_schema_slash_slash = Delimiter"
| "step_of s_req_server_start = Delimiter"
| "step_of s_req_query_string_start = Delimiter"
| "step_of s_req_fragment_start = Delimiter"
| "step_of s_req_schema = Field UF_SCHEMA"
| "step_of s_req_server_with_at = Field UF_HOST"
| "step_of s_req_server = Field UF_HOST"
| "step_of s_req_path = Field UF_PATH"
| "step_of s_req_query_string = Field UF_QUERY"
| "step_of s_req_fragment = Field UF_FRAGMENT"
| "step_of s_req_spaces_before_url = Unexpected"

text \<open>\<open>old_uf = None\<close> is \<^verbatim>\<open>UF_MAX\<close>.\<close>

fun url_loop ::
    "string \<Rightarrow> nat \<Rightarrow> state \<Rightarrow> url_field option \<Rightarrow> bool \<Rightarrow> http_parser_url \<Rightarrow>
     parse_error + (bool \<times> http_parser_url)" where
  "url_loop [] i s old_uf found_at u = Inr (found_at, u)"
| "url_loop (c # cs) i s old_uf found_at u =
     (let s' = parse_url_char s c in
      case step_of s' of
        Dead \<Rightarrow> Inl Rejected
      | Delimiter \<Rightarrow> url_loop cs (i + 1) s' old_uf found_at u
      | Unexpected \<Rightarrow> Inl Assertion_failed
      | Field uf \<Rightarrow>
          let found = (found_at \<or> s' = s_req_server_with_at) in
          if Some uf = old_uf then url_loop cs (i + 1) s' old_uf found (incr_len uf u)
          else url_loop cs (i + 1) s' (Some uf) found (start_field uf i 1 u))"

text \<open>The port number, in the 64-bit arithmetic of \<^verbatim>\<open>unsigned long\<close>; \<open>None\<close> is the early return.\<close>

fun port_loop :: "string \<Rightarrow> int \<Rightarrow> int option" where
  "port_loop [] v = Some v"
| "port_loop (c # cs) v =
     (let v' = (v * 10 + (char_to_int c - 48)) mod 2 ^ 64 in
      if v' > 65535 then None else port_loop cs v')"

definition parse_port :: "string \<Rightarrow> http_parser_url \<Rightarrow> parse_error + http_parser_url" where
  "parse_port b u =
     (if UF_PORT \<in> field_set u then
        let o' = off (field_data u UF_PORT); l = len (field_data u UF_PORT) in
        if o' + l > length b then Inl Assertion_failed
        else case port_loop (take l (drop o' b)) 0 of
               None \<Rightarrow> Inl Rejected
             | Some v \<Rightarrow> Inr (u\<lparr>url_port := nat v mod 65536\<rparr>)
      else Inr u)"

definition http_parser_parse_url ::
    "string \<Rightarrow> bool \<Rightarrow> http_parser_url \<Rightarrow> parse_error + http_parser_url" where
  "http_parser_parse_url b is_connect u0 =
     (if b = [] then Inl Rejected
      else case url_loop b 0 (if is_connect then s_req_server_start else s_req_spaces_before_url)
                  None False (u0\<lparr>url_port := 0, field_set := {}\<rparr>) of
        Inl e \<Rightarrow> Inl e
      | Inr (found_at, u1) \<Rightarrow>
          if UF_SCHEMA \<in> field_set u1 \<and> UF_HOST \<notin> field_set u1 then Inl Rejected
          else case (if UF_HOST \<in> field_set u1 then http_parse_host b u1 found_at else Inr u1) of
            Inl e \<Rightarrow> Inl e
          | Inr u2 \<Rightarrow>
              if is_connect \<and> field_set u2 \<noteq> {UF_HOST, UF_PORT} then Inl Rejected
              else parse_port b u2)"

section \<open>The parser is defined on every text\<close>

lemma parse_url_char_not_start: "parse_url_char s c \<noteq> s_req_spaces_before_url"
  by (cases s) (simp_all add: parse_url_char_def parse_server_char_def)

lemma step_of_parse_url_char: "step_of (parse_url_char s c) \<noteq> Unexpected"
proof
  assume "step_of (parse_url_char s c) = Unexpected"
  then have "parse_url_char s c = s_req_spaces_before_url"
    by (cases "parse_url_char s c") simp_all
  then show False by (simp add: parse_url_char_not_start)
qed

text \<open>\<open>fits F n u\<close>: the fields of \<open>F\<close> lie within the first \<open>n\<close> bytes.\<close>

definition fits :: "url_field set \<Rightarrow> nat \<Rightarrow> http_parser_url \<Rightarrow> bool" where
  "fits F n u \<longleftrightarrow> (\<forall>f \<in> F. off (field_data u f) + len (field_data u f) \<le> n)"

lemma fitsD: "fits F n u \<Longrightarrow> f \<in> F \<Longrightarrow> off (field_data u f) + len (field_data u f) \<le> n"
  by (simp add: fits_def)

lemma fits_mono: "fits F n u \<Longrightarrow> n \<le> m \<Longrightarrow> fits F m u"
  unfolding fits_def by (meson le_trans)

lemma mod_le_self: "i mod m \<le> (i::nat)"
  by (rule mod_less_eq_dividend)

lemma fits_incr_len: "fits F n u \<Longrightarrow> fits F (n + 1) (incr_len f u)"
proof -
  assume a: "fits F n u"
  have "(len (field_data u f) + 1) mod 65536 \<le> len (field_data u f) + 1" by (rule mod_le_self)
  with fitsD [OF a, of f]
  have "f \<in> F \<Longrightarrow> off (field_data u f) + (len (field_data u f) + 1) mod 65536 \<le> n + 1"
    by linarith
  with a show ?thesis by (auto simp: fits_def incr_len_def set_len_def intro: le_SucI)
qed

lemma fits_start_field: "fits F n u \<Longrightarrow> i + k \<le> m \<Longrightarrow> n \<le> m \<Longrightarrow> fits F m (start_field f i k u)"
  using mod_le_self [of i 65536] by (auto simp: fits_def start_field_def intro: le_trans)

lemma fits_set_off:
  "fits F n u \<Longrightarrow> i + len (field_data u f) \<le> m \<Longrightarrow> n \<le> m \<Longrightarrow> fits F m (set_off f i u)"
  using mod_le_self [of i 65536] by (auto simp: fits_def set_off_def intro: le_trans)

lemma url_loop_fits:
  "fits F i u \<Longrightarrow> url_loop cs i s old_uf found u = Inr (fa, u') \<Longrightarrow> fits F (i + length cs) u'"
proof (induction cs i s old_uf found u rule: url_loop.induct)
  case (2 c cs i s old_uf found u)
  show ?case
  proof (cases "step_of (parse_url_char s c)")
    case Delimiter
    with 2 show ?thesis by (simp add: fits_mono [of F i u "Suc i"])
  next
    case (Field uf)
    have "fits F (i + 1) (incr_len uf u)" "fits F (i + 1) (start_field uf i 1 u)"
      using "2.prems"(1) by (auto intro: fits_incr_len [simplified] fits_start_field)
    with 2 Field show ?thesis by (auto simp: Let_def split: if_splits)
  qed (use "2.prems" in simp_all)
qed (simp add: Let_def)

lemma url_loop_error: "url_loop cs i s old_uf found u = Inl e \<Longrightarrow> e = Rejected"
proof (induction cs i s old_uf found u rule: url_loop.induct)
  case (2 c cs i s old_uf found u)
  then show ?case using step_of_parse_url_char [of s c]
    by (cases "step_of (parse_url_char s c)") (auto simp: Let_def split: if_splits)
qed simp

text \<open>While the host is read, its length counts the bytes since its own start.\<close>

definition host_len_ok :: "http_host_state \<Rightarrow> nat \<Rightarrow> http_parser_url \<Rightarrow> bool" where
  "host_len_ok s i u \<longleftrightarrow>
     (s \<in> {s_http_userinfo_start, s_http_userinfo, s_http_host_start, s_http_host_v6_start}
       \<longrightarrow> len (field_data u UF_HOST) = 0)"

lemma host_update_fits:
  assumes "fits F i u" "host_len_ok s i u" "new_s = http_parse_host_char s c" "new_s \<noteq> s_http_host_dead"
  shows "fits F (i + 1) (host_update s new_s i u)" "host_len_ok new_s (i + 1) (host_update s new_s i u)"
proof -
  have new_host: "s = s_http_host_start" if "new_s = s_http_host" "s \<noteq> s_http_host"
    using that assms(3)
    by (cases s) (simp_all add: http_parse_host_char_def Let_def split: if_splits)
  have new_v6: "s = s_http_host_v6_start" if "new_s = s_http_host_v6" "s \<noteq> s_http_host_v6"
    using that assms(3)
    by (cases s) (simp_all add: http_parse_host_char_def Let_def split: if_splits)
  have z: "len (field_data u UF_HOST) = 0" if "s = s_http_host_start \<or> s = s_http_host_v6_start"
    using that assms(2) by (auto simp: host_len_ok_def)
  have so: "fits F i (set_off UF_HOST i u)" if "s = s_http_host_start \<or> s = s_http_host_v6_start"
    using assms(1) z [OF that] by (auto intro: fits_set_off)
  have sf: "fits F i (start_field f i 0 u)" for f using assms(1) by (auto intro: fits_start_field)
  show "fits F (i + 1) (host_update s new_s i u)"
    using assms(1) new_host new_v6 so sf
    by (cases new_s) (auto simp: host_update_def intro: fits_incr_len [simplified] fits_mono)
  show "host_len_ok new_s (i + 1) (host_update s new_s i u)"
    using assms(2,3)
    by (cases s; cases new_s)
      (simp_all add: host_len_ok_def host_update_def incr_len_def set_len_def start_field_def
        http_parse_host_char_def Let_def split: if_splits)
qed

lemma host_loop_fits:
  "fits F i u \<Longrightarrow> host_len_ok s i u \<Longrightarrow> host_loop cs i s u = Inr (s', u') \<Longrightarrow> fits F (i + length cs) u'"
proof (induction cs arbitrary: i s u)
  case (Cons c cs)
  let ?n = "http_parse_host_char s c"
  from Cons.prems(3) have n: "?n \<noteq> s_http_host_dead"
    and r: "host_loop cs (i + 1) ?n (host_update s ?n i u) = Inr (s', u')"
    by (auto simp: Let_def split: if_splits)
  show ?case
    using Cons.IH [OF host_update_fits [OF Cons.prems(1,2) refl n] r] by simp
qed simp

lemma host_loop_error: "host_loop cs i s u = Inl e \<Longrightarrow> e = Rejected"
  by (induction cs arbitrary: i s u) (auto simp: Let_def split: if_splits)


text \<open>The two loops change only the fields they are about.\<close>

lemma host_update_other:
  "f \<notin> {UF_HOST, UF_PORT, UF_USERINFO} \<Longrightarrow> field_data (host_update s n i u) f = field_data u f"
  by (cases n) (auto simp: host_update_def incr_len_def set_len_def set_off_def start_field_def)

lemma host_loop_other:
  "host_loop cs i s u = Inr (s', u') \<Longrightarrow> f \<notin> {UF_HOST, UF_PORT, UF_USERINFO} \<Longrightarrow>
     field_data u' f = field_data u f"
proof (induction cs arbitrary: i s u)
  case (Cons c cs)
  from Cons.prems(1) have "host_loop cs (i + 1) (http_parse_host_char s c)
      (host_update s (http_parse_host_char s c) i u) = Inr (s', u')"
    by (simp add: Let_def split: if_splits)
  from Cons.IH [OF this Cons.prems(2)] show ?case using host_update_other [OF Cons.prems(2)] by simp
qed simp

lemma step_of_field: "step_of s = Field uf \<Longrightarrow> uf \<noteq> UF_PORT \<and> uf \<noteq> UF_USERINFO"
  by (cases s) auto

lemma url_loop_other:
  "url_loop cs i s old_uf found u = Inr (fa, u') \<Longrightarrow> f \<in> {UF_PORT, UF_USERINFO} \<Longrightarrow>
     field_data u' f = field_data u f \<and> (f \<in> field_set u' \<longleftrightarrow> f \<in> field_set u)"
proof (induction cs i s old_uf found u rule: url_loop.induct)
  case (2 c cs i s old_uf found u)
  show ?case
  proof (cases "step_of (parse_url_char s c)")
    case (Field uf)
    with 2 step_of_field [OF Field] show ?thesis
      by (auto simp: Let_def start_field_def incr_len_def set_len_def split: if_splits)
  qed (use 2 in simp_all)
qed simp

lemma http_parse_host_cases:
  assumes "http_parse_host b u fa = Inr u'"
  obtains s where "off (field_data u UF_HOST) + len (field_data u UF_HOST) \<le> length b"
    "host_loop (drop (off (field_data u UF_HOST))
        (take (off (field_data u UF_HOST) + len (field_data u UF_HOST)) b)) (off (field_data u UF_HOST))
        (if fa then s_http_userinfo_start else s_http_host_start) (set_len UF_HOST 0 u) = Inr (s, u')"
  using assms that
  by (simp add: http_parse_host_def Let_def split: if_splits sum.splits prod.splits)

lemma http_parse_host_fits:
  assumes "fits UNIV (length b) u" "http_parse_host b u fa = Inr u'"
    and "field_data u UF_PORT = \<lparr>off = 0, len = 0\<rparr>" "field_data u UF_USERINFO = \<lparr>off = 0, len = 0\<rparr>"
  shows "fits UNIV (length b) u'"
proof -
  let ?o = "off (field_data u UF_HOST)"
  let ?e = "?o + len (field_data u UF_HOST)"
  let ?s = "if fa then s_http_userinfo_start else s_http_host_start"
  let ?F = "{UF_HOST, UF_PORT, UF_USERINFO}"
  obtain s where le: "?e \<le> length b"
    and l: "host_loop (drop ?o (take ?e b)) ?o ?s (set_len UF_HOST 0 u) = Inr (s, u')"
    using http_parse_host_cases [OF assms(2)] by metis
  have "fits ?F ?o (set_len UF_HOST 0 u)" using assms(3,4) by (simp add: fits_def set_len_def)
  moreover have "host_len_ok ?s ?o (set_len UF_HOST 0 u)" by (simp add: host_len_ok_def set_len_def)
  ultimately have "fits ?F (?o + length (drop ?o (take ?e b))) u'" using l by (rule host_loop_fits)
  then have F: "fits ?F (length b) u'" using le by (auto intro: fits_mono)
  have "off (field_data u' f) + len (field_data u' f) \<le> length b" for f
  proof (cases "f \<in> ?F")
    case True
    with F show ?thesis by (rule fitsD)
  next
    case False
    with host_loop_other [OF l False] fitsD [OF assms(1), of f] show ?thesis
      by (auto simp: set_len_def)
  qed
  then show ?thesis by (simp add: fits_def)
qed

lemma http_parse_host_error:
  assumes "fits UNIV (length b) u" "UF_HOST \<in> field_set u" "http_parse_host b u fa = Inl e"
  shows "e = Rejected"
  using assms fitsD [OF assms(1), of UF_HOST]
  by (auto simp: http_parse_host_def Let_def split: if_splits sum.splits prod.splits
      dest: host_loop_error)

lemma fits_init: "fits UNIV n (http_parser_url_init\<lparr>url_port := p, field_set := S\<rparr>)"
  by (simp add: fits_def http_parser_url_init_def)

lemma parse_url_fits:
  assumes "http_parser_parse_url b is_connect http_parser_url_init = Inr u"
  shows "fits UNIV (length b) u"
proof -
  let ?u0 = "http_parser_url_init\<lparr>url_port := 0, field_set := {}\<rparr>"
  let ?s = "if is_connect then s_req_server_start else s_req_spaces_before_url"
  from assms obtain fa u1 u2 where l: "url_loop b 0 ?s None False ?u0 = Inr (fa, u1)"
    and h: "(if UF_HOST \<in> field_set u1 then http_parse_host b u1 fa else Inr u1) = Inr u2"
    and p: "parse_port b u2 = Inr u"
    by (auto simp: http_parser_parse_url_def split: if_splits sum.splits prod.splits)
  have f1: "fits UNIV (length b) u1" using url_loop_fits [OF fits_init l] by simp
  have "field_data u1 UF_PORT = \<lparr>off = 0, len = 0\<rparr>" "field_data u1 UF_USERINFO = \<lparr>off = 0, len = 0\<rparr>"
    using url_loop_other [OF l] by (simp_all add: http_parser_url_init_def)
  then have "fits UNIV (length b) u2"
    using h f1 http_parse_host_fits [OF f1] by (auto split: if_splits)
  moreover have "field_data u = field_data u2"
    using p by (auto simp: parse_port_def Let_def split: if_splits option.splits)
  ultimately show ?thesis by (simp add: fits_def)
qed

lemma parse_url_error:
  assumes "http_parser_parse_url b is_connect http_parser_url_init = Inl e"
  shows "e = Rejected"
proof -
  let ?u0 = "http_parser_url_init\<lparr>url_port := 0, field_set := {}\<rparr>"
  let ?s = "if is_connect then s_req_server_start else s_req_spaces_before_url"
  show ?thesis
  proof (cases "url_loop b 0 ?s None False ?u0")
    case (Inl e')
    then show ?thesis using assms url_loop_error [OF Inl]
      by (auto simp: http_parser_parse_url_def split: if_splits)
  next
    case (Inr r)
    obtain fa u1 where r: "r = (fa, u1)" by (cases r)
    with Inr have l: "url_loop b 0 ?s None False ?u0 = Inr (fa, u1)" by simp
    have f1: "fits UNIV (length b) u1" using url_loop_fits [OF fits_init l] by simp
    have z: "field_data u1 UF_PORT = \<lparr>off = 0, len = 0\<rparr>" "field_data u1 UF_USERINFO = \<lparr>off = 0, len = 0\<rparr>"
      using url_loop_other [OF l] by (simp_all add: http_parser_url_init_def)
    let ?h = "if UF_HOST \<in> field_set u1 then http_parse_host b u1 fa else Inr u1"
    show ?thesis
    proof (cases ?h)
      case (Inl e')
      then have "e' = Rejected" using http_parse_host_error [OF f1] by (auto split: if_splits)
      with Inl assms l show ?thesis by (auto simp: http_parser_parse_url_def split: if_splits)
    next
      case h: (Inr u2)
      then have "fits UNIV (length b) u2"
        using f1 http_parse_host_fits [OF f1 _ z] by (auto split: if_splits)
      then have "off (field_data u2 UF_PORT) + len (field_data u2 UF_PORT) \<le> length b"
        by (rule fitsD) simp
      with h assms l show ?thesis
        by (auto simp: http_parser_parse_url_def parse_port_def Let_def split: if_splits option.splits)
    qed
  qed
qed

section \<open>Well-formed URLs\<close>

text \<open>The shape of the URLs the program is documented to take, as their parts.\<close>

datatype host = Host_name string | Host_v6 string

record url_parts =
  scheme :: string
  userinfo :: "string option"
  server_host :: host
  port_digits :: "string option"
  path_part :: string
  query_part :: string
  fragment_part :: string

fun host_name :: "host \<Rightarrow> string" where
  "host_name (Host_name h) = h"
| "host_name (Host_v6 h) = h"

fun host_text :: "host \<Rightarrow> string" where
  "host_text (Host_name h) = h"
| "host_text (Host_v6 h) = CHR ''['' # h @ [CHR '']'']"

definition server_text :: "url_parts \<Rightarrow> string" where
  "server_text p =
     (case userinfo p of None \<Rightarrow> [] | Some x \<Rightarrow> x @ ''@'') @ host_text (server_host p) @
     (case port_digits p of None \<Rightarrow> [] | Some d \<Rightarrow> CHR '':'' # d)"

definition tail_text :: "url_parts \<Rightarrow> string" where
  "tail_text p = path_part p @ (if query_part p = [] then [] else CHR ''?'' # query_part p) @
     (if fragment_part p = [] then [] else CHR ''#'' # fragment_part p)"

definition url_text :: "url_parts \<Rightarrow> string" where
  "url_text p = scheme p @ ''://'' @ server_text p @ tail_text p"

fun host_ok :: "host \<Rightarrow> bool" where
  "host_ok (Host_name h) \<longleftrightarrow> h \<noteq> [] \<and> list_all IS_HOST_CHAR h"
| "host_ok (Host_v6 h) \<longleftrightarrow> h \<noteq> [] \<and> list_all (\<lambda>c. IS_HEX c \<or> c = CHR '':'' \<or> c = CHR ''.'') h"

definition query_char :: "char \<Rightarrow> bool" where
  "query_char c \<longleftrightarrow> IS_URL_CHAR c \<or> c = CHR ''?''"

definition fragment_char :: "char \<Rightarrow> bool" where
  "fragment_char c \<longleftrightarrow> IS_URL_CHAR c \<or> c = CHR ''?'' \<or> c = CHR ''#''"

definition parts_ok :: "url_parts \<Rightarrow> bool" where
  "parts_ok p \<longleftrightarrow>
     scheme p \<noteq> [] \<and> list_all IS_ALPHA (scheme p) \<and>
     (case userinfo p of None \<Rightarrow> True | Some x \<Rightarrow> x \<noteq> [] \<and> list_all IS_USERINFO_CHAR x) \<and>
     host_ok (server_host p) \<and>
     (case port_digits p of None \<Rightarrow> True
      | Some d \<Rightarrow> d \<noteq> [] \<and> list_all is_digit d \<and> read_digits 10 d < 65536) \<and>
     (path_part p = [] \<or> hd (path_part p) = CHR ''/'' \<and> list_all IS_URL_CHAR (path_part p)) \<and>
     list_all query_char (query_part p) \<and>
     (fragment_part p = [] \<or> hd (fragment_part p) \<noteq> CHR ''#'') \<and>
     list_all fragment_char (fragment_part p) \<and>
     (fragment_part p \<noteq> [] \<longrightarrow> path_part p \<noteq> [] \<or> query_part p \<noteq> []) \<and>
     length (url_text p) < 65536"

lemma class_separators [simp]:
  "\<not> IS_ALPHA (CHR '':'')" "\<not> IS_ALPHA (CHR ''/'')" "\<not> IS_ALPHA (CHR ''*'')"
  "\<not> IS_ALPHA (CHR '' '')" "\<not> IS_ALPHA CR" "\<not> IS_ALPHA LF"
  "\<not> IS_USERINFO_CHAR (CHR ''/'')" "\<not> IS_USERINFO_CHAR (CHR ''?'')" "\<not> IS_USERINFO_CHAR (CHR ''@'')"
  "\<not> IS_USERINFO_CHAR (CHR '' '')" "\<not> IS_USERINFO_CHAR CR" "\<not> IS_USERINFO_CHAR LF"
  "IS_USERINFO_CHAR (CHR '':'')" "IS_USERINFO_CHAR (CHR ''.'')"
  "\<not> IS_URL_CHAR (CHR ''?'')" "\<not> IS_URL_CHAR (CHR ''#'')"
  "\<not> IS_URL_CHAR (CHR '' '')" "\<not> IS_URL_CHAR CR" "\<not> IS_URL_CHAR LF"
  "\<not> IS_HOST_CHAR (CHR ''['')" "\<not> IS_HOST_CHAR (CHR '':'')" "\<not> IS_HOST_CHAR (CHR ''@'')"
  "\<not> IS_HEX (CHR '']'')" "\<not> IS_HEX (CHR '':'')" "IS_URL_CHAR (CHR ''/'')"
  by code_simp+

lemma host_char_userinfo: "IS_HOST_CHAR c \<Longrightarrow> IS_USERINFO_CHAR c"
  by (auto simp: IS_HOST_CHAR_def IS_USERINFO_CHAR_def IS_MARK_def)

lemma hex_userinfo: "IS_HEX c \<Longrightarrow> IS_USERINFO_CHAR c"
  by (auto simp: IS_HEX_def IS_USERINFO_CHAR_def IS_ALPHANUM_def IS_ALPHA_def)

lemma digit_userinfo: "is_digit c \<Longrightarrow> IS_USERINFO_CHAR c"
  by (simp add: IS_USERINFO_CHAR_def IS_ALPHANUM_def IS_NUM_def)

section \<open>Runs of the automata within one field\<close>

text \<open>\<open>stays uf s w s' fa\<close>: reading \<open>w\<close> from \<open>s\<close> every state belongs to the field \<open>uf\<close>, the last one
  is \<open>s'\<close>, and \<open>fa\<close> tells whether an at sign was met.\<close>

fun stays :: "url_field \<Rightarrow> state \<Rightarrow> string \<Rightarrow> state \<Rightarrow> bool \<Rightarrow> bool" where
  "stays uf s [] s' fa \<longleftrightarrow> s' = s \<and> \<not> fa"
| "stays uf s (c # w) s' fa \<longleftrightarrow>
     (let t = parse_url_char s c in
      step_of t = Field uf \<and>
      (if t = s_req_server_with_at then fa \<and> (stays uf t w s' True \<or> stays uf t w s' False)
       else stays uf t w s' fa))"

definition add_len :: "url_field \<Rightarrow> nat \<Rightarrow> http_parser_url \<Rightarrow> http_parser_url" where
  "add_len f n u = set_len f ((len (field_data u f) + n) mod 65536) u"

lemma add_len_incr: "add_len f n (incr_len f u) = add_len f (Suc n) u"
  by (auto simp: add_len_def incr_len_def set_len_def mod_simps fun_upd_def fun_eq_iff)

lemma add_len_start:
  "n < 65536 \<Longrightarrow> k + n < 65536 \<Longrightarrow> add_len f n (start_field f i k u) = start_field f i (k + n) u"
  by (auto simp: add_len_def start_field_def set_len_def fun_upd_def fun_eq_iff)

lemma url_loop_stays:
  "stays uf s w s' fb \<Longrightarrow>
     url_loop (w @ r) i s (Some uf) fa u =
     url_loop r (i + length w) s' (Some uf) (fa \<or> fb) (if w = [] then u else add_len uf (length w) u)"
proof (induction w arbitrary: i s fa fb u)
  case (Cons c w)
  let ?t = "parse_url_char s c"
  from Cons.prems have t: "step_of ?t = Field uf" by (simp add: Let_def)
  obtain fc where st: "stays uf ?t w s' fc" and fc: "(fa \<or> ?t = s_req_server_with_at) \<or> fc \<longleftrightarrow> fa \<or> fb"
    using Cons.prems by (cases "?t = s_req_server_with_at") (auto simp: Let_def)
  have l: "(if w = [] then incr_len uf u else add_len uf (length w) (incr_len uf u)) = add_len uf (length (c # w)) u"
    by (simp add: add_len_incr) (simp add: add_len_def incr_len_def)
  show ?case
    using Cons.IH [OF st, of "i + 1" "fa \<or> ?t = s_req_server_with_at" "incr_len uf u"] t fc l
    by (simp add: Let_def)
qed simp

text \<open>A field that starts here, after another one: its first character and the rest of its run.\<close>

lemma url_loop_field:
  assumes "parse_url_char s c = t" "step_of t = Field uf" "t \<noteq> s_req_server_with_at" "old_uf \<noteq> Some uf"
    and "stays uf t w s' fb" "length w + 1 < 65536"
  shows "url_loop (c # w @ r) i s old_uf fa u =
    url_loop r (i + 1 + length w) s' (Some uf) (fa \<or> fb) (start_field uf i (length w + 1) u)"
proof -
  have "url_loop (c # w @ r) i s old_uf fa u = url_loop (w @ r) (i + 1) t (Some uf) fa (start_field uf i 1 u)"
    using assms(1-4) by (auto simp: Let_def)
  also have "\<dots> = url_loop r (i + 1 + length w) s' (Some uf) (fa \<or> fb)
      (if w = [] then start_field uf i 1 u else add_len uf (length w) (start_field uf i 1 u))"
    by (rule url_loop_stays [OF assms(5)])
  also have "(if w = [] then start_field uf i 1 u else add_len uf (length w) (start_field uf i 1 u)) =
      start_field uf i (length w + 1) u"
    using assms(6) add_len_start [of "length w" 1 uf i u] by simp
  finally show ?thesis .
qed

lemma url_loop_delimiter:
  "parse_url_char s c = t \<Longrightarrow> step_of t = Delimiter \<Longrightarrow>
     url_loop (c # r) i s old_uf fa u = url_loop r (i + 1) t old_uf fa u"
  by (simp add: Let_def)

text \<open>Runs of one state.\<close>

lemma stays_same:
  "step_of s = Field uf \<Longrightarrow> s \<noteq> s_req_server_with_at \<Longrightarrow> \<forall>c \<in> set w. parse_url_char s c = s \<Longrightarrow>
     stays uf s w s False"
  by (induction w) (auto simp: Let_def)

lemma stays_append:
  "stays uf s v t fa \<Longrightarrow> stays uf t w s' fb \<Longrightarrow> stays uf s (v @ w) s' (fa \<or> fb)"
proof (induction v arbitrary: s fa)
  case (Cons c v)
  let ?t = "parse_url_char s c"
  show ?case
  proof (cases "?t = s_req_server_with_at")
    case True
    with Cons.prems(1) obtain fc where "stays uf ?t v t fc" "fa" by (auto simp: Let_def)
    with Cons.IH [of ?t fc] Cons.prems True show ?thesis by (cases "fc \<or> fb") (auto simp: Let_def)
  next
    case False
    with Cons show ?thesis by (simp add: Let_def)
  qed
qed auto

lemma server_char:
  assumes "IS_USERINFO_CHAR c \<or> c = CHR ''['' \<or> c = CHR '']''"
  shows "parse_url_char s_req_server c = s_req_server"
    "parse_url_char s_req_server_start c = s_req_server"
    "parse_url_char s_req_server_with_at c = s_req_server"
proof -
  have n': "\<not> IS_USERINFO_CHAR d \<Longrightarrow> d \<noteq> CHR ''['' \<Longrightarrow> d \<noteq> CHR '']'' \<Longrightarrow> c \<noteq> d" for d
    using assms by blast
  have n: "c \<noteq> CHR ''/''" "c \<noteq> CHR ''?''" "c \<noteq> CHR ''@''" "c \<noteq> CHR '' ''" "c \<noteq> CR" "c \<noteq> LF"
    using n' by simp_all
  then have "parse_server_char c = s_req_server" using assms by (simp add: parse_server_char_def)
  with n show "parse_url_char s_req_server c = s_req_server"
    "parse_url_char s_req_server_start c = s_req_server"
    "parse_url_char s_req_server_with_at c = s_req_server"
    by (simp_all add: parse_url_char_def)
qed

lemma server_run:
  "\<forall>c \<in> set w. IS_USERINFO_CHAR c \<or> c = CHR ''['' \<or> c = CHR '']'' \<Longrightarrow>
     stays UF_HOST s_req_server w s_req_server False"
  by (rule stays_same) (simp_all add: server_char)

section \<open>A well-formed URL in the outer automaton\<close>

lemma url_class_neq:
  assumes "IS_URL_CHAR c"
  shows "c \<noteq> CHR ''?''" "c \<noteq> CHR ''#''" "c \<noteq> CHR '' ''" "c \<noteq> CR" "c \<noteq> LF"
proof -
  have n: "\<not> IS_URL_CHAR d \<Longrightarrow> c \<noteq> d" for d using assms by blast
  show "c \<noteq> CHR ''?''" "c \<noteq> CHR ''#''" "c \<noteq> CHR '' ''" "c \<noteq> CR" "c \<noteq> LF"
    using n by simp_all
qed

lemma alpha_class_neq:
  assumes "IS_ALPHA c"
  shows "c \<noteq> CHR '':''" "c \<noteq> CHR ''/''" "c \<noteq> CHR ''*''" "c \<noteq> CHR '' ''" "c \<noteq> CR" "c \<noteq> LF"
proof -
  have n: "\<not> IS_ALPHA d \<Longrightarrow> c \<noteq> d" for d using assms by blast
  show "c \<noteq> CHR '':''" "c \<noteq> CHR ''/''" "c \<noteq> CHR ''*''" "c \<noteq> CHR '' ''" "c \<noteq> CR" "c \<noteq> LF"
    using n by simp_all
qed

lemma url_loop_schema:
  assumes "w \<noteq> []" "list_all IS_ALPHA w" "length w < 65536"
  shows "url_loop (w @ ''://'' @ r) 0 s_req_spaces_before_url None False u =
    url_loop r (length w + 3) s_req_server_start (Some UF_SCHEMA) False (start_field UF_SCHEMA 0 (length w) u)"
proof -
  obtain c v where w: "w = c # v" using assms(1) by (cases w) auto
  have alpha: "IS_ALPHA c" "\<forall>d \<in> set v. IS_ALPHA d" using assms(2) w by (auto simp: list_all_iff)
  have c: "parse_url_char s_req_spaces_before_url c = s_req_schema"
    using alpha(1) alpha_class_neq [OF alpha(1)] by (simp add: parse_url_char_def)
  have v: "stays UF_SCHEMA s_req_schema v s_req_schema False"
    using alpha(2) by (intro stays_same) (auto simp: parse_url_char_def alpha_class_neq)
  have len: "length v + 1 < 65536" using assms(3) w by simp
  have "url_loop (c # v @ (''://'' @ r)) 0 s_req_spaces_before_url None False u =
      url_loop (''://'' @ r) (0 + 1 + length v) s_req_schema (Some UF_SCHEMA) (False \<or> False)
        (start_field UF_SCHEMA 0 (length v + 1) u)"
    by (rule url_loop_field [OF c _ _ _ v len]) simp_all
  also have "\<dots> = url_loop r (length w + 3) s_req_server_start (Some UF_SCHEMA) False
      (start_field UF_SCHEMA 0 (length w) u)"
    by (simp add: w parse_url_char_def eval_nat_numeral)
  finally show ?thesis by (simp add: w)
qed

text \<open>The server part: the automaton stays in the host field, and notes an at sign.\<close>

lemma host_text_server:
  "host_ok h \<Longrightarrow> c \<in> set (host_text h) \<Longrightarrow> IS_USERINFO_CHAR c \<or> c = CHR ''['' \<or> c = CHR '']''"
  by (cases h) (auto simp: list_all_iff host_char_userinfo hex_userinfo)

lemma server_text_cons:
  assumes "parts_ok p"
  obtains c w where "server_text p = c # w" "parse_url_char s_req_server_start c = s_req_server"
    "stays UF_HOST s_req_server w s_req_server (userinfo p \<noteq> None)"
proof -
  let ?port = "case port_digits p of None \<Rightarrow> [] | Some d \<Rightarrow> CHR '':'' # d"
  let ?hp = "host_text (server_host p) @ ?port"
  have hp: "\<forall>c \<in> set ?hp. IS_USERINFO_CHAR c \<or> c = CHR ''['' \<or> c = CHR '']''"
    using assms host_text_server [of "server_host p"]
    by (auto simp: parts_ok_def list_all_iff digit_userinfo split: option.splits)
  obtain c w where cw: "?hp = c # w"
    using assms by (cases "server_host p"; cases ?hp) (auto simp: parts_ok_def)
  show ?thesis
  proof (cases "userinfo p")
    case None
    have "parse_url_char s_req_server_start c = s_req_server" using server_char(2) [of c] hp cw by simp
    moreover have "stays UF_HOST s_req_server w s_req_server False"
      using hp cw by (intro server_run) simp
    moreover have "server_text p = c # w" using None cw by (simp add: server_text_def)
    ultimately show ?thesis using that None by simp
  next
    case (Some x)
    with assms have x: "x \<noteq> []" "\<forall>c \<in> set x. IS_USERINFO_CHAR c"
      by (auto simp: parts_ok_def list_all_iff)
    then obtain d v where dv: "x = d # v" by (cases x) auto
    have "server_text p = d # v @ CHR ''@'' # c # w" using Some dv cw by (simp add: server_text_def)
    moreover have "parse_url_char s_req_server_start d = s_req_server" using x dv by (simp add: server_char)
    moreover have "stays UF_HOST s_req_server v s_req_server False"
      using x dv by (intro server_run) simp
    moreover have "parse_url_char s_req_server_with_at c = s_req_server" using server_char(3) [of c] hp cw by simp
    moreover have "stays UF_HOST s_req_server w s_req_server False"
      using hp cw by (intro server_run) simp
    ultimately have "stays UF_HOST s_req_server (CHR ''@'' # c # w) s_req_server True"
      "stays UF_HOST s_req_server v s_req_server False"
      by (simp_all add: Let_def parse_url_char_def [of s_req_server] parse_server_char_def)
    from stays_append [OF this(2,1)]
    show ?thesis using that [of d "v @ CHR ''@'' # c # w"] Some dv cw
      \<open>parse_url_char s_req_server_start d = s_req_server\<close>
      by (simp add: server_text_def)
  qed
qed

definition tail_fields :: "url_parts \<Rightarrow> nat \<Rightarrow> http_parser_url \<Rightarrow> http_parser_url" where
  "tail_fields p i u =
     (let i1 = i + length (path_part p);
          u1 = (if path_part p = [] then u else start_field UF_PATH i (length (path_part p)) u);
          i2 = i1 + (if query_part p = [] then 0 else 1 + length (query_part p));
          u2 = (if query_part p = [] then u1 else start_field UF_QUERY (i1 + 1) (length (query_part p)) u1)
      in if fragment_part p = [] then u2
         else start_field UF_FRAGMENT (i2 + 1) (length (fragment_part p)) u2)"

lemma query_step:
  assumes "query_char c"
  shows "parse_url_char s_req_query_string_start c = s_req_query_string"
    "parse_url_char s_req_query_string c = s_req_query_string"
proof -
  consider "IS_URL_CHAR c" | "c = CHR ''?''" using assms by (auto simp: query_char_def)
  then show "parse_url_char s_req_query_string_start c = s_req_query_string"
    "parse_url_char s_req_query_string c = s_req_query_string"
    by (cases; simp add: parse_url_char_def url_class_neq)+
qed

lemma fragment_step:
  assumes "fragment_char c"
  shows "parse_url_char s_req_fragment c = s_req_fragment"
    "c \<noteq> CHR ''#'' \<Longrightarrow> parse_url_char s_req_fragment_start c = s_req_fragment"
proof -
  consider "IS_URL_CHAR c" | "c = CHR ''?''" | "c = CHR ''#''"
    using assms by (auto simp: fragment_char_def)
  then show "parse_url_char s_req_fragment c = s_req_fragment"
    "c \<noteq> CHR ''#'' \<Longrightarrow> parse_url_char s_req_fragment_start c = s_req_fragment"
    by (cases; simp add: parse_url_char_def url_class_neq)+
qed

lemma url_loop_fragment:
  assumes "f = [] \<or> hd f \<noteq> CHR ''#''" "list_all fragment_char f" "length f < 65536"
    "s \<in> {s_req_path, s_req_query_string}" "uf \<noteq> Some UF_FRAGMENT"
  shows "url_loop (if f = [] then [] else CHR ''#'' # f) i s uf fa u =
    Inr (fa, if f = [] then u else start_field UF_FRAGMENT (i + 1) (length f) u)"
proof (cases f)
  case (Cons c w)
  have c: "fragment_char c" "c \<noteq> CHR ''#''" "\<forall>d \<in> set w. fragment_char d"
    using assms(1,2) Cons by (auto simp: list_all_iff)
  have s: "parse_url_char s (CHR ''#'') = s_req_fragment_start"
    using assms(4) by (auto simp: parse_url_char_def)
  have sc: "parse_url_char s_req_fragment_start c = s_req_fragment"
    using c by (simp add: fragment_step)
  have st: "stays UF_FRAGMENT s_req_fragment w s_req_fragment False"
    using c(3) by (intro stays_same) (simp_all add: fragment_step)
  have len: "length w + 1 < 65536" using assms(3) Cons by simp
  have "url_loop (c # w @ []) (i + 1) s_req_fragment_start uf fa u =
      url_loop [] (i + 1 + 1 + length w) s_req_fragment (Some UF_FRAGMENT) (fa \<or> False)
        (start_field UF_FRAGMENT (i + 1) (length w + 1) u)"
    using assms(5) by (intro url_loop_field [OF sc _ _ _ st len]) auto
  then show ?thesis using s Cons by (simp del: url_loop.simps(2) add: url_loop_delimiter)
qed simp

lemma url_loop_query:
  assumes "list_all query_char q" "length q < 65536"
    "s \<in> {s_req_path, s_req_server}" "uf \<noteq> Some UF_QUERY" "q \<noteq> []"
  shows "url_loop (CHR ''?'' # q @ r) i s uf fa u =
    url_loop r (i + 1 + length q) s_req_query_string (Some UF_QUERY) fa (start_field UF_QUERY (i + 1) (length q) u)"
proof (cases q)
  case (Cons c w)
  have c: "query_char c" "\<forall>d \<in> set w. query_char d"
    using assms(1) Cons by (auto simp: list_all_iff)
  have s: "parse_url_char s (CHR ''?'') = s_req_query_string_start"
    using assms(3) by (auto simp: parse_url_char_def parse_server_char_def)
  have sc: "parse_url_char s_req_query_string_start c = s_req_query_string"
    using c by (simp add: query_step)
  have st: "stays UF_QUERY s_req_query_string w s_req_query_string False"
    using c(2) by (intro stays_same) (simp_all add: query_step)
  have len: "length w + 1 < 65536" using assms(2) Cons by simp
  have "url_loop (c # w @ r) (i + 1) s_req_query_string_start uf fa u =
      url_loop r (i + 1 + 1 + length w) s_req_query_string (Some UF_QUERY) (fa \<or> False)
        (start_field UF_QUERY (i + 1) (length w + 1) u)"
    using assms(4) by (intro url_loop_field [OF sc _ _ _ st len]) auto
  then show ?thesis using s Cons by (simp del: url_loop.simps(2) add: url_loop_delimiter)
qed (use assms in simp)

lemma url_loop_path:
  assumes "hd w = CHR ''/''" "list_all IS_URL_CHAR w" "length w < 65536" "uf \<noteq> Some UF_PATH" "w \<noteq> []"
  shows "url_loop (w @ r) i s_req_server uf fa u =
    url_loop r (i + length w) s_req_path (Some UF_PATH) fa (start_field UF_PATH i (length w) u)"
proof (cases w)
  case (Cons c v)
  have c: "c = CHR ''/''" "\<forall>d \<in> set v. IS_URL_CHAR d" using assms(1,2) Cons by (auto simp: list_all_iff)
  have sc: "parse_url_char s_req_server c = s_req_path"
    by (simp add: c parse_url_char_def parse_server_char_def)
  have st: "stays UF_PATH s_req_path v s_req_path False"
    using c(2) by (intro stays_same) (auto simp: parse_url_char_def url_class_neq)
  have len: "length v + 1 < 65536" using assms(3) Cons by simp
  show ?thesis
    using url_loop_field [OF sc _ _ assms(4) st len, of r i fa u] Cons by simp
qed (use assms in simp)

lemma url_loop_tail:
  assumes "parts_ok p"
  shows "url_loop (tail_text p) i s_req_server (Some UF_HOST) fa u = Inr (fa, tail_fields p i u)"
proof -
  let ?w = "path_part p" and ?q = "query_part p" and ?f = "fragment_part p"
  have lens: "length ?w < 65536" "length ?q < 65536" "length ?f < 65536"
    using assms by (auto simp: parts_ok_def url_text_def tail_text_def split: if_splits)
  have w: "?w = [] \<or> hd ?w = CHR ''/'' \<and> list_all IS_URL_CHAR ?w" and q: "list_all query_char ?q"
    and f: "?f = [] \<or> hd ?f \<noteq> CHR ''#''" "list_all fragment_char ?f" "?f \<noteq> [] \<longrightarrow> ?w \<noteq> [] \<or> ?q \<noteq> []"
    using assms by (auto simp: parts_ok_def)
  let ?ft = "if ?f = [] then [] else CHR ''#'' # ?f"
  show ?thesis
  proof (cases "?w = []")
    case True
    show ?thesis
    proof (cases "?q = []")
      case True
      then show ?thesis using \<open>?w = []\<close> f(3) by (simp add: tail_text_def tail_fields_def)
    next
      case False
      have "tail_text p = CHR ''?'' # ?q @ ?ft" using True False by (simp add: tail_text_def)
      then show ?thesis
        using url_loop_query [OF q lens(2) _ _ False, of s_req_server "Some UF_HOST" ?ft]
          url_loop_fragment [OF f(1,2) lens(3), of s_req_query_string "Some UF_QUERY"] True False
        by (simp add: tail_fields_def Let_def)
    qed
  next
    case False
    let ?r = "(if ?q = [] then [] else CHR ''?'' # ?q) @ ?ft"
    have p: "url_loop (?w @ ?r) i s_req_server (Some UF_HOST) fa u =
        url_loop ?r (i + length ?w) s_req_path (Some UF_PATH) fa (start_field UF_PATH i (length ?w) u)"
      using w False lens(1) by (intro url_loop_path) auto
    have t: "tail_text p = ?w @ ?r" by (simp add: tail_text_def)
    show ?thesis
    proof (cases "?q = []")
      case True
      then show ?thesis
        using p t False url_loop_fragment [OF f(1,2) lens(3), of s_req_path "Some UF_PATH"]
        by (simp add: tail_fields_def Let_def)
    next
      case q': False
      then have "?r = CHR ''?'' # ?q @ ?ft" by simp
      then show ?thesis
        using p t False q' url_loop_query [OF q lens(2) _ _ q', of s_req_path "Some UF_PATH" ?ft]
          url_loop_fragment [OF f(1,2) lens(3), of s_req_query_string "Some UF_QUERY"]
        by (simp add: tail_fields_def Let_def)
    qed
  qed
qed

text \<open>The whole text: where every field lies.\<close>

definition outer_fields :: "url_parts \<Rightarrow> http_parser_url \<Rightarrow> http_parser_url" where
  "outer_fields p u =
     tail_fields p (length (scheme p) + 3 + length (server_text p))
       (start_field UF_HOST (length (scheme p) + 3) (length (server_text p))
          (start_field UF_SCHEMA 0 (length (scheme p)) u))"

lemma url_loop_url_text:
  assumes "parts_ok p"
  shows "url_loop (url_text p) 0 s_req_spaces_before_url None False u =
    Inr (userinfo p \<noteq> None, outer_fields p u)"
proof -
  obtain c w where cw: "server_text p = c # w" "parse_url_char s_req_server_start c = s_req_server"
    "stays UF_HOST s_req_server w s_req_server (userinfo p \<noteq> None)"
    using server_text_cons [OF assms] .
  have lens: "length (scheme p) < 65536" "length w + 1 < 65536"
    using assms cw(1) by (auto simp: parts_ok_def url_text_def)
  have sch: "scheme p \<noteq> []" "list_all IS_ALPHA (scheme p)" using assms by (auto simp: parts_ok_def)
  have "url_loop (url_text p) 0 s_req_spaces_before_url None False u =
      url_loop (c # w @ tail_text p) (length (scheme p) + 3) s_req_server_start (Some UF_SCHEMA) False
        (start_field UF_SCHEMA 0 (length (scheme p)) u)"
    using url_loop_schema [OF sch lens(1), of "server_text p @ tail_text p" u] cw(1)
    by (simp add: url_text_def)
  also have "\<dots> = url_loop (tail_text p) (length (scheme p) + 3 + 1 + length w) s_req_server (Some UF_HOST)
      (False \<or> userinfo p \<noteq> None)
      (start_field UF_HOST (length (scheme p) + 3) (length w + 1)
        (start_field UF_SCHEMA 0 (length (scheme p)) u))"
    by (rule url_loop_field [OF cw(2) _ _ _ cw(3) lens(2)]) simp_all
  also have "\<dots> = Inr (userinfo p \<noteq> None, outer_fields p u)"
    using url_loop_tail [OF assms] cw(1) by (simp add: outer_fields_def add.assoc)
  finally show ?thesis .
qed

section \<open>A well-formed server part in the inner automaton\<close>

lemma host_loop_same:
  assumes "\<forall>c \<in> set w. http_parse_host_char s c = s" "s \<noteq> s_http_host_dead"
    and "\<And>i u. host_update s s i u = incr_len f u"
  shows "host_loop (w @ r) i s u = host_loop r (i + length w) s (if w = [] then u else add_len f (length w) u)"
  using assms(1)
proof (induction w arbitrary: i u)
  case (Cons c w)
  have l: "(if w = [] then incr_len f u else add_len f (length w) (incr_len f u)) = add_len f (length (c # w)) u"
    by (simp add: add_len_incr) (simp add: add_len_def incr_len_def)
  show ?case
    using Cons.IH [of "i + 1" "incr_len f u"] Cons.prems assms(2,3) l by (simp add: Let_def)
qed simp

lemma incr_start_field: "k + 1 < 65536 \<Longrightarrow> incr_len f (start_field f i k u) = start_field f i (k + 1) u"
  using add_len_start [of 1 k f i u] by (simp add: add_len_def incr_len_def)

lemma set_off_start:
  "len (field_data u f) = 0 \<Longrightarrow> f \<in> field_set u \<Longrightarrow> set_off f i u = start_field f i 0 u"
  by (cases u; cases "field_data u f") (auto simp: set_off_def start_field_def)

lemma host_loop_first:
  assumes "http_parse_host_char s0 c = s" "host_update s0 s i u = start_field f i 1 u"
    and "\<forall>c \<in> set w. http_parse_host_char s c = s" "s \<noteq> s_http_host_dead"
    and "\<And>i u. host_update s s i u = incr_len f u" "length w + 1 < 65536"
  shows "host_loop (c # w @ r) i s0 u = host_loop r (i + 1 + length w) s (start_field f i (length w + 1) u)"
proof -
  have "host_loop (c # w @ r) i s0 u = host_loop (w @ r) (i + 1) s (start_field f i 1 u)"
    using assms(1,2,4) by (simp add: Let_def)
  also have "\<dots> = host_loop r (i + 1 + length w) s
      (if w = [] then start_field f i 1 u else add_len f (length w) (start_field f i 1 u))"
    by (rule host_loop_same [OF assms(3-5)])
  also have "(if w = [] then start_field f i 1 u else add_len f (length w) (start_field f i 1 u)) =
      start_field f i (length w + 1) u"
    using assms(6) add_len_start [of "length w" 1 f i u] by simp
  finally show ?thesis .
qed

lemma host_loop_userinfo:
  assumes "x \<noteq> []" "list_all IS_USERINFO_CHAR x" "length x < 65536"
  shows "host_loop (x @ ''@'' @ r) i s_http_userinfo_start u =
    host_loop r (i + length x + 1) s_http_host_start (start_field UF_USERINFO i (length x) u)"
proof (cases x)
  case (Cons c w)
  have uc: "IS_USERINFO_CHAR d \<Longrightarrow> d \<noteq> CHR ''@''" for d by auto
  have sc: "http_parse_host_char s_http_userinfo_start c = s_http_userinfo"
    and sw: "\<forall>d \<in> set w. http_parse_host_char s_http_userinfo d = s_http_userinfo"
    using assms(2) Cons uc by (auto simp: list_all_iff http_parse_host_char_def)
  have len: "length w + 1 < 65536" using assms(3) Cons by simp
  have "host_loop (c # w @ (''@'' @ r)) i s_http_userinfo_start u =
      host_loop (''@'' @ r) (i + 1 + length w) s_http_userinfo (start_field UF_USERINFO i (length w + 1) u)"
    by (rule host_loop_first [OF sc _ sw _ _ len]) (simp_all add: host_update_def incr_start_field [of 0, simplified])
  then show ?thesis using Cons by (simp add: http_parse_host_char_def host_update_def Let_def)
qed (use assms in simp)

fun host_end :: "host \<Rightarrow> http_host_state" where
  "host_end (Host_name h) = s_http_host"
| "host_end (Host_v6 h) = s_http_host_v6_end"

fun host_shift :: "host \<Rightarrow> nat" where
  "host_shift (Host_name h) = 0"
| "host_shift (Host_v6 h) = 1"

lemma host_loop_host:
  assumes "host_ok h" "length (host_text h) < 65536" "len (field_data u UF_HOST) = 0" "UF_HOST \<in> field_set u"
  shows "host_loop (host_text h @ r) i s_http_host_start u =
    host_loop r (i + length (host_text h)) (host_end h)
      (start_field UF_HOST (i + host_shift h) (length (host_name h)) u)"
proof (cases h)
  case (Host_name n)
  then obtain c w where n: "n = c # w" using assms(1) by (cases n) auto
  have nb: "IS_HOST_CHAR d \<Longrightarrow> d \<noteq> CHR ''[''" for d by auto
  have sc: "http_parse_host_char s_http_host_start c = s_http_host"
    and sw: "\<forall>d \<in> set w. http_parse_host_char s_http_host d = s_http_host"
    using assms(1) Host_name n nb by (auto simp: list_all_iff http_parse_host_char_def)
  have len: "length w + 1 < 65536" using assms(2) Host_name n by simp
  have "host_loop (c # w @ r) i s_http_host_start u =
      host_loop r (i + 1 + length w) s_http_host (start_field UF_HOST i (length w + 1) u)"
    by (rule host_loop_first [OF sc _ sw _ _ len])
      (simp_all add: host_update_def incr_start_field [of 0, simplified] set_off_start assms(3,4))
  then show ?thesis using Host_name n by simp
next
  case (Host_v6 n)
  then obtain c w where n: "n = c # w" using assms(1) by (cases n) auto
  have nb: "IS_HEX d \<or> d = CHR '':'' \<or> d = CHR ''.'' \<Longrightarrow> d \<noteq> CHR '']''" for d by auto
  have cw: "\<forall>d \<in> set (c # w). IS_HEX d \<or> d = CHR '':'' \<or> d = CHR ''.''"
    using assms(1) Host_v6 n by (auto simp: list_all_iff)
  have sc: "http_parse_host_char s_http_host_v6_start c = s_http_host_v6"
    and sw: "\<forall>d \<in> set w. http_parse_host_char s_http_host_v6 d = s_http_host_v6"
    using cw nb by (auto simp: http_parse_host_char_def Let_def)
  have len: "length w + 1 < 65536" using assms(2) Host_v6 n by simp
  have "host_loop (c # w @ (CHR '']'' # r)) (i + 1) s_http_host_v6_start u =
      host_loop (CHR '']'' # r) (i + 1 + 1 + length w) s_http_host_v6
        (start_field UF_HOST (i + 1) (length w + 1) u)"
    by (rule host_loop_first [OF sc _ sw _ _ len])
      (simp_all add: host_update_def incr_start_field [of 0, simplified] set_off_start assms(3,4))
  then show ?thesis using Host_v6 n
    by (simp add: http_parse_host_char_def [of _ "CHR ''[''"] http_parse_host_char_def [of _ "CHR '']''"]
        host_update_def Let_def)
qed

lemma host_loop_port:
  assumes "d \<noteq> []" "list_all is_digit d" "length d < 65536"
    "s = s_http_host \<or> s = s_http_host_v6_end"
  shows "host_loop (CHR '':'' # d) i s u = Inr (s_http_host_port, start_field UF_PORT (i + 1) (length d) u)"
proof (cases d)
  case (Cons c w)
  have sc: "http_parse_host_char s_http_host_port_start c = s_http_host_port"
    and sw: "\<forall>d \<in> set w. http_parse_host_char s_http_host_port d = s_http_host_port"
    using assms(2) Cons by (auto simp: list_all_iff http_parse_host_char_def IS_NUM_def)
  have len: "length w + 1 < 65536" using assms(3) Cons by simp
  have "host_loop (c # w @ []) (i + 1) s_http_host_port_start u =
      host_loop [] (i + 1 + 1 + length w) s_http_host_port (start_field UF_PORT (i + 1) (length w + 1) u)"
    by (rule host_loop_first [OF sc _ sw _ _ len]) (simp_all add: host_update_def incr_start_field [of 0, simplified])
  moreover have "http_parse_host_char s (CHR '':'') = s_http_host_port_start"
    using assms(4) by (auto simp: http_parse_host_char_def)
  ultimately show ?thesis using Cons by (simp add: host_update_def Let_def)
qed (use assms in simp)

definition server_fields :: "url_parts \<Rightarrow> nat \<Rightarrow> http_parser_url \<Rightarrow> http_parser_url" where
  "server_fields p i u =
     (let (i1, u1) = (case userinfo p of None \<Rightarrow> (i, u)
                      | Some x \<Rightarrow> (i + length x + 1, start_field UF_USERINFO i (length x) u));
          u2 = start_field UF_HOST (i1 + host_shift (server_host p)) (length (host_name (server_host p))) u1;
          i2 = i1 + length (host_text (server_host p))
      in case port_digits p of None \<Rightarrow> u2
         | Some d \<Rightarrow> start_field UF_PORT (i2 + 1) (length d) u2)"

lemma parts_ok_lens:
  assumes "parts_ok p"
  shows "length (host_text (server_host p)) < 65536" "userinfo p = Some x \<Longrightarrow> length x < 65536"
    "port_digits p = Some d \<Longrightarrow> length d < 65536"
  using assms by (auto simp: parts_ok_def url_text_def server_text_def)

lemma host_loop_server:
  assumes "parts_ok p" "len (field_data u UF_HOST) = 0" "UF_HOST \<in> field_set u"
  shows "\<exists>s. s \<in> {s_http_host, s_http_host_v6_end, s_http_host_port} \<and>
    host_loop (server_text p) i
      (if userinfo p \<noteq> None then s_http_userinfo_start else s_http_host_start) u =
    Inr (s, server_fields p i u)"
proof -
  let ?h = "server_host p"
  let ?port = "case port_digits p of None \<Rightarrow> [] | Some d \<Rightarrow> CHR '':'' # d"
  note lens = parts_ok_lens [OF assms(1)]
  have h: "host_ok ?h" using assms(1) by (simp add: parts_ok_def)
  obtain i1 u1 where iu: "(i1, u1) = (case userinfo p of None \<Rightarrow> (i, u)
      | Some x \<Rightarrow> (i + length x + 1, start_field UF_USERINFO i (length x) u))"
    by (metis surj_pair)
  have u1: "len (field_data u1 UF_HOST) = 0" "UF_HOST \<in> field_set u1"
    using iu assms(2,3) by (auto simp: start_field_def split: option.splits)
  have 1: "host_loop (server_text p) i
      (if userinfo p \<noteq> None then s_http_userinfo_start else s_http_host_start) u =
      host_loop (host_text ?h @ ?port) i1 s_http_host_start u1"
    using iu assms(1) lens(2) host_loop_userinfo
    by (auto simp: server_text_def parts_ok_def split: option.splits)
  let ?u2 = "start_field UF_HOST (i1 + host_shift ?h) (length (host_name ?h)) u1"
  have 2: "host_loop (host_text ?h @ ?port) i1 s_http_host_start u1 =
      host_loop ?port (i1 + length (host_text ?h)) (host_end ?h) ?u2"
    by (rule host_loop_host [OF h lens(1) u1])
  have e: "host_end ?h = s_http_host \<or> host_end ?h = s_http_host_v6_end" by (cases ?h) auto
  show ?thesis
  proof (cases "port_digits p")
    case None
    with 1 2 e iu show ?thesis by (auto simp: server_fields_def Let_def split: prod.splits)
  next
    case (Some d)
    with assms(1) have "d \<noteq> []" "list_all is_digit d" by (auto simp: parts_ok_def)
    from host_loop_port [OF this lens(3) [OF Some] e] 1 2 Some iu show ?thesis
      by (auto simp: server_fields_def Let_def split: prod.splits)
  qed
qed

section \<open>The port number\<close>

lemma digit_char_value:
  assumes "is_digit c"
  shows "char_to_int c - 48 = int (the (digit_value c))" "is_base_digit 10 c" "the (digit_value c) < 10"
  using assms by (auto simp: is_digit_def char_to_int_def digit_value_def is_base_digit_def)

lemma digits_val_mono: "b \<ge> 1 \<Longrightarrow> digits_val b ds \<le> digits_val b (ds @ es)"
proof (induction es rule: rev_induct)
  case (snoc e es)
  then have "digits_val b ds \<le> digits_val b (ds @ es)" by simp
  also have "\<dots> \<le> digits_val b (ds @ es) * b + e" using snoc.prems by (simp add: trans_le_add1)
  finally show ?case by (simp flip: append_assoc)
qed simp

lemma port_loop_digits:
  assumes "list_all is_digit d" "digits_val 10 (pre @ map (\<lambda>c. the (digit_value c)) d) < 65536"
  shows "port_loop d (int (digits_val 10 pre)) =
    Some (int (digits_val 10 (pre @ map (\<lambda>c. the (digit_value c)) d)))"
  using assms
proof (induction d arbitrary: pre)
  case (Cons c d)
  let ?v = "the (digit_value c)"
  have c: "char_to_int c - 48 = int ?v" using Cons.prems(1) digit_char_value(1) by simp
  have "digits_val 10 (pre @ [?v]) < 65536"
    using Cons.prems(2) digits_val_mono [of 10 "pre @ [?v]" "map (\<lambda>c. the (digit_value c)) d"] by simp
  then have b: "digits_val 10 pre * 10 + ?v < 65536" by simp
  then have "(int (digits_val 10 pre) * 10 + int ?v) mod 2 ^ 64 = int (digits_val 10 (pre @ [?v]))"
    by simp
  moreover from b have "\<not> int (digits_val 10 (pre @ [?v])) > 65535" by simp
  ultimately show ?case using Cons.IH [of "pre @ [?v]"] Cons.prems c by (simp add: Let_def)
qed simp

lemma port_loop_read:
  assumes "list_all is_digit d" "read_digits 10 d < 65536"
  shows "port_loop d 0 = Some (int (read_digits 10 d))"
proof -
  have "takeWhile (is_base_digit 10) d = d"
    using assms(1) by (auto simp: takeWhile_eq_all_conv list_all_iff digit_char_value)
  then have r: "read_digits 10 d = digits_val 10 (map (\<lambda>c. the (digit_value c)) d)"
    by (simp only: read_digits_def)
  with port_loop_digits [OF assms(1), of "[]"] assms(2) show ?thesis
    by (simp add: digits_val_def)
qed

section \<open>The result on a well-formed URL\<close>

definition field_text :: "string \<Rightarrow> http_parser_url \<Rightarrow> url_field \<Rightarrow> string" where
  "field_text b u f = take (len (field_data u f)) (drop (off (field_data u f)) b)"

lemma field_text_at:
  "field_data u f = \<lparr>off = length pre mod 65536, len = length w\<rparr> \<Longrightarrow> length pre < 65536 \<Longrightarrow>
     field_text (pre @ w @ post) u f = w"
  by (simp add: field_text_def)

lemma start_field_data [simp]:
  "field_data (start_field f i k u) g = (if g = f then \<lparr>off = i mod 65536, len = k\<rparr> else field_data u g)"
  "field_set (start_field f i k u) = insert f (field_set u)"
  "url_port (start_field f i k u) = url_port u"
  by (simp_all add: start_field_def)

lemma set_len_data:
  "field_data (set_len f n u) g = (if g = f then (field_data u f)\<lparr>len := n\<rparr> else field_data u g)"
  by (simp add: set_len_def)

lemma tail_fields_data:
  "f \<notin> {UF_PATH, UF_QUERY, UF_FRAGMENT} \<Longrightarrow> field_data (tail_fields p i u) f = field_data u f"
  "path_part p \<noteq> [] \<Longrightarrow> field_data (tail_fields p i u) UF_PATH =
     \<lparr>off = i mod 65536, len = length (path_part p)\<rparr>"
  "query_part p \<noteq> [] \<Longrightarrow> field_data (tail_fields p i u) UF_QUERY =
     \<lparr>off = (i + length (path_part p) + 1) mod 65536, len = length (query_part p)\<rparr>"
  "fragment_part p \<noteq> [] \<Longrightarrow> field_data (tail_fields p i u) UF_FRAGMENT =
     \<lparr>off = (i + length (path_part p) + (if query_part p = [] then 0 else 1 + length (query_part p)) + 1) mod 65536,
      len = length (fragment_part p)\<rparr>"
  "field_set (tail_fields p i u) = field_set u \<union> (if path_part p = [] then {} else {UF_PATH}) \<union>
     (if query_part p = [] then {} else {UF_QUERY}) \<union> (if fragment_part p = [] then {} else {UF_FRAGMENT})"
  by (auto simp: tail_fields_def Let_def)

lemma server_fields_data:
  "f \<notin> {UF_HOST, UF_PORT, UF_USERINFO} \<Longrightarrow> field_data (server_fields p i u) f = field_data u f"
  "field_data (server_fields p i u) UF_HOST =
     \<lparr>off = (i + (case userinfo p of None \<Rightarrow> 0 | Some x \<Rightarrow> length x + 1) + host_shift (server_host p)) mod 65536,
      len = length (host_name (server_host p))\<rparr>"
  "port_digits p = Some d \<Longrightarrow> field_data (server_fields p i u) UF_PORT =
     \<lparr>off = (i + (case userinfo p of None \<Rightarrow> 0 | Some x \<Rightarrow> length x + 1) + length (host_text (server_host p)) + 1)
        mod 65536, len = length d\<rparr>"
  "field_set (server_fields p i u) = field_set u \<union> {UF_HOST} \<union>
     (if userinfo p = None then {} else {UF_USERINFO}) \<union> (if port_digits p = None then {} else {UF_PORT})"
  by (auto simp: server_fields_def Let_def add.assoc split: option.splits)

lemma host_text_split: "\<exists>post. host_text h = replicate (host_shift h) (CHR ''['') @ host_name h @ post"
  by (cases h) simp_all

text \<open>The fields of a parsed URL, and the texts they stand for.\<close>

definition parsed_fields :: "url_parts \<Rightarrow> http_parser_url" where
  "parsed_fields p = server_fields p (length (scheme p) + 3)
     (set_len UF_HOST 0 (outer_fields p (http_parser_url_init\<lparr>url_port := 0, field_set := {}\<rparr>)))"

lemma parsed_fields_texts:
  assumes "parts_ok p"
  shows "field_text (url_text p) (parsed_fields p) UF_SCHEMA = scheme p"
    and "field_text (url_text p) (parsed_fields p) UF_HOST = host_name (server_host p)"
    and "path_part p \<noteq> [] \<Longrightarrow> field_text (url_text p) (parsed_fields p) UF_PATH = path_part p"
    and "query_part p \<noteq> [] \<Longrightarrow> field_text (url_text p) (parsed_fields p) UF_QUERY = query_part p"
    and "fragment_part p \<noteq> [] \<Longrightarrow> field_text (url_text p) (parsed_fields p) UF_FRAGMENT = fragment_part p"
    and "port_digits p = Some d \<Longrightarrow> field_text (url_text p) (parsed_fields p) UF_PORT = d"
proof -
  let ?b = "url_text p" and ?a = "length (scheme p)" and ?n = "length (server_text p)"
  let ?u0 = "http_parser_url_init\<lparr>url_port := 0, field_set := {}\<rparr>"
  let ?u1 = "outer_fields p ?u0"
  let ?u2 = "server_fields p (?a + 3) (set_len UF_HOST 0 ?u1)"
  let ?ui = "case userinfo p of None \<Rightarrow> [] | Some x \<Rightarrow> x @ ''@''"
  let ?q = "if query_part p = [] then [] else CHR ''?'' # query_part p"
  let ?f = "if fragment_part p = [] then [] else CHR ''#'' # fragment_part p"
  have len: "length ?b < 65536" using assms by (simp add: parts_ok_def)
  have d1: "field_data ?u1 UF_HOST = \<lparr>off = (?a + 3) mod 65536, len = ?n\<rparr>"
    "field_data ?u1 UF_SCHEMA = \<lparr>off = 0, len = ?a\<rparr>"
    by (simp_all add: outer_fields_def tail_fields_data)
  have tx: "field_text ?b ?u2 f = w" if "field_data ?u2 f = \<lparr>off = length pre mod 65536, len = length w\<rparr>"
    "?b = pre @ w @ post" for f w pre post
    using that len field_text_at [of ?u2 f pre w post] by simp
  have t: "field_text ?b ?u2 UF_SCHEMA = scheme p"
    by (rule tx [of _ "[]" _ "''://'' @ server_text p @ tail_text p"])
      (simp_all add: server_fields_data set_len_data d1 url_text_def)
  obtain hpost where hp: "host_text (server_host p) =
      replicate (host_shift (server_host p)) (CHR ''['') @ host_name (server_host p) @ hpost"
    using host_text_split by blast
  have t2: "field_text ?b ?u2 UF_HOST = host_name (server_host p)"
    by (rule tx [of _ "scheme p @ ''://'' @ ?ui @ replicate (host_shift (server_host p)) (CHR ''['')" _
          "hpost @ (case port_digits p of None \<Rightarrow> [] | Some d \<Rightarrow> CHR '':'' # d) @ tail_text p"])
      (auto simp: server_fields_data url_text_def server_text_def hp ac_simps split: option.splits)
  have t3: "field_text ?b ?u2 UF_PATH = path_part p" if "path_part p \<noteq> []"
    by (rule tx [of _ "scheme p @ ''://'' @ server_text p" _ "?q @ ?f"])
      (simp_all add: server_fields_data set_len_data outer_fields_def tail_fields_data that url_text_def tail_text_def ac_simps)
  have t4: "field_text ?b ?u2 UF_QUERY = query_part p" if "query_part p \<noteq> []"
    by (rule tx [of _ "scheme p @ ''://'' @ server_text p @ path_part p @ ''?''" _ ?f])
      (simp_all add: server_fields_data set_len_data outer_fields_def tail_fields_data that url_text_def tail_text_def ac_simps)
  have t5: "field_text ?b ?u2 UF_FRAGMENT = fragment_part p" if "fragment_part p \<noteq> []"
    by (rule tx [of _ "scheme p @ ''://'' @ server_text p @ path_part p @ ?q @ ''#''" _ "[]"])
      (simp_all add: server_fields_data set_len_data outer_fields_def tail_fields_data that url_text_def tail_text_def ac_simps)
  have t6: "field_text ?b ?u2 UF_PORT = d" if "port_digits p = Some d"
    by (rule tx [of _ "scheme p @ ''://'' @ ?ui @ host_text (server_host p) @ '':''" _ "tail_text p"])
      (auto simp: server_fields_data that url_text_def server_text_def ac_simps split: option.splits)
  have pf: "parsed_fields p = ?u2" by (simp add: parsed_fields_def)
  show "field_text ?b (parsed_fields p) UF_SCHEMA = scheme p"
    "field_text ?b (parsed_fields p) UF_HOST = host_name (server_host p)" unfolding pf by (rule t t2)+
  show "path_part p \<noteq> [] \<Longrightarrow> field_text ?b (parsed_fields p) UF_PATH = path_part p" unfolding pf by (rule t3)
  show "query_part p \<noteq> [] \<Longrightarrow> field_text ?b (parsed_fields p) UF_QUERY = query_part p" unfolding pf by (rule t4)
  show "fragment_part p \<noteq> [] \<Longrightarrow> field_text ?b (parsed_fields p) UF_FRAGMENT = fragment_part p" unfolding pf by (rule t5)
  show "port_digits p = Some d \<Longrightarrow> field_text ?b (parsed_fields p) UF_PORT = d" unfolding pf by (rule t6)
qed

lemma parse_url_text:
  assumes "parts_ok p"
  obtains u where "http_parser_parse_url (url_text p) False http_parser_url_init = Inr u"
    "field_set u = {UF_SCHEMA, UF_HOST} \<union> (if path_part p = [] then {} else {UF_PATH}) \<union>
       (if query_part p = [] then {} else {UF_QUERY}) \<union> (if fragment_part p = [] then {} else {UF_FRAGMENT}) \<union>
       (if userinfo p = None then {} else {UF_USERINFO}) \<union> (if port_digits p = None then {} else {UF_PORT})"
    "field_text (url_text p) u UF_SCHEMA = scheme p"
    "field_text (url_text p) u UF_HOST = host_name (server_host p)"
    "path_part p \<noteq> [] \<Longrightarrow> field_text (url_text p) u UF_PATH = path_part p"
    "query_part p \<noteq> [] \<Longrightarrow> field_text (url_text p) u UF_QUERY = query_part p"
    "fragment_part p \<noteq> [] \<Longrightarrow> field_text (url_text p) u UF_FRAGMENT = fragment_part p"
    "\<And>d. port_digits p = Some d \<Longrightarrow> url_port u = read_digits 10 d"
proof -
  let ?b = "url_text p" and ?a = "length (scheme p)" and ?n = "length (server_text p)"
  let ?u0 = "http_parser_url_init\<lparr>url_port := 0, field_set := {}\<rparr>"
  let ?u1 = "outer_fields p ?u0"
  let ?u2 = "server_fields p (?a + 3) (set_len UF_HOST 0 ?u1)"
  have len: "length ?b < 65536" using assms by (simp add: parts_ok_def)
  have lens: "?a + 3 + ?n \<le> length ?b" by (simp add: url_text_def)
  have d1: "field_data ?u1 UF_HOST = \<lparr>off = (?a + 3) mod 65536, len = ?n\<rparr>"
    "field_data ?u1 UF_SCHEMA = \<lparr>off = 0, len = ?a\<rparr>"
    by (simp_all add: outer_fields_def tail_fields_data)
  have s1: "field_set ?u1 = {UF_SCHEMA, UF_HOST} \<union> (if path_part p = [] then {} else {UF_PATH}) \<union>
      (if query_part p = [] then {} else {UF_QUERY}) \<union> (if fragment_part p = [] then {} else {UF_FRAGMENT})"
    by (auto simp: outer_fields_def tail_fields_data)
  have o: "off (field_data ?u1 UF_HOST) = ?a + 3" using d1 len lens by simp
  have region: "drop (?a + 3) (take (?a + 3 + ?n) ?b) = server_text p"
    by (simp add: url_text_def eval_nat_numeral)
  obtain s where s: "s \<in> {s_http_host, s_http_host_v6_end, s_http_host_port}"
    "host_loop (server_text p) (?a + 3)
      (if userinfo p \<noteq> None then s_http_userinfo_start else s_http_host_start) (set_len UF_HOST 0 ?u1) = Inr (s, ?u2)"
    using host_loop_server [OF assms, of "set_len UF_HOST 0 ?u1" "?a + 3"] s1 by (auto simp: set_len_def)
  have h: "http_parse_host ?b ?u1 (userinfo p \<noteq> None) = Inr ?u2"
    using s region d1 s1 lens o len by (auto simp: http_parse_host_def Let_def)
  have fs: "field_set ?u2 = field_set ?u1 \<union> (if userinfo p = None then {} else {UF_USERINFO}) \<union>
      (if port_digits p = None then {} else {UF_PORT})"
    using s1 by (auto simp: server_fields_data set_len_def)
  note t = parsed_fields_texts [OF assms, unfolded parsed_fields_def]
  have f2: "fits UNIV (length ?b) ?u2"
  proof -
    have "fits UNIV (0 + length ?b) ?u1"
      by (rule url_loop_fits [OF fits_init url_loop_url_text [OF assms]])
    moreover have "field_data ?u1 UF_PORT = \<lparr>off = 0, len = 0\<rparr>" "field_data ?u1 UF_USERINFO = \<lparr>off = 0, len = 0\<rparr>"
      by (simp_all add: outer_fields_def tail_fields_data http_parser_url_init_def)
    ultimately show ?thesis using http_parse_host_fits [OF _ h] by simp
  qed
  let ?v = "case port_digits p of None \<Rightarrow> ?u2 | Some d \<Rightarrow> ?u2\<lparr>url_port := read_digits 10 d\<rparr>"
  have port: "parse_port ?b ?u2 = Inr ?v"
  proof (cases "port_digits p")
    case None
    then show ?thesis using fs s1 by (auto simp: parse_port_def)
  next
    case (Some d)
    with assms have d: "list_all is_digit d" "read_digits 10 d < 65536" by (auto simp: parts_ok_def)
    have "take (len (field_data ?u2 UF_PORT)) (drop (off (field_data ?u2 UF_PORT)) ?b) = d"
      using t(6) [OF Some] by (simp add: field_text_def)
    with fitsD [OF f2, of UF_PORT] port_loop_read [OF d] d(2) fs Some show ?thesis
      by (simp add: parse_port_def Let_def)
  qed
  have ne: "?b \<noteq> []" by (simp add: url_text_def)
  have res: "http_parser_parse_url ?b False http_parser_url_init = Inr ?v"
    using url_loop_url_text [OF assms, of ?u0] h port s1 ne
    by (simp add: http_parser_parse_url_def)
  have v: "field_set ?v = field_set ?u2" "field_text ?b ?v f = field_text ?b ?u2 f" for f
    by (simp_all add: field_text_def split: option.splits)
  show ?thesis
    by (rule that [OF res]) (use v fs s1 t(1-5) in \<open>simp_all\<close>)
qed

end
