(* ===== verification/Url.thy ===== *)
theory Url
  imports Absl Addresses Lines Url_Parser
begin

text \<open>
  \<^verbatim>\<open>apib/apib_url.{h,cc}\<close>: parsing of a URL into a \<^verbatim>\<open>URLInfo\<close>, and the global list of URLs that
  requests are sent to. The resolver, the string library, the contents of the URL file and the
  draws of the random generator are arguments. \<^const>\<open>None\<close> is a failed \<^verbatim>\<open>assert\<close> (or an access
  out of bounds).
\<close>

section \<open>URLInfo\<close>

record URLInfo =
  u_port :: nat
  u_isSsl :: bool
  u_path :: string
  u_pathOnly :: string
  u_query :: string
  u_hostName :: string
  u_hostHeader :: string
  u_lookupStatus :: Status
  u_addresses :: Addresses

definition kHttp :: string where "kHttp = ''http''"
definition kHttps :: string where "kHttps = ''https''"

text \<open>\<open>urlPart\<close> is \<^verbatim>\<open>string_view::substr\<close>, which throws when the offset is past the end.\<close>

definition urlPart :: "http_parser_url \<Rightarrow> string \<Rightarrow> url_field \<Rightarrow> string option" where
  "urlPart pu urlstr part =
     (if off (field_data pu part) > length urlstr then None else Some (field_text urlstr pu part))"

text \<open>The scheme: \<open>Some\<close> whether it is TLS.\<close>

definition scheme_ssl :: "string \<Rightarrow> bool option" where
  "scheme_ssl s = (if s = kHttp then Some False else if s = kHttps then Some True else None)"

text \<open>The rest of \<open>init\<close>, after the scheme has been recognised.\<close>

definition init_fields ::
    "resolver \<Rightarrow> absl \<Rightarrow> http_parser_url \<Rightarrow> string \<Rightarrow> bool \<Rightarrow> URLInfo option" where
  "init_fields R A pu urlstr ssl = do {
     hostName \<leftarrow> urlPart pu urlstr UF_HOST;
     let port = (if UF_PORT \<in> field_set pu then url_port pu else if ssl then 443 else 80);
     pathOnly \<leftarrow> (if UF_PATH \<in> field_set pu then urlPart pu urlstr UF_PATH else Some ''/'');
     query \<leftarrow> (if UF_QUERY \<in> field_set pu then urlPart pu urlstr UF_QUERY else Some '''');
     let path1 = (if UF_QUERY \<in> field_set pu then StrAppend A pathOnly [Text ''?'', Text query] else pathOnly);
     f \<leftarrow> (if UF_FRAGMENT \<in> field_set pu then urlPart pu urlstr UF_FRAGMENT else Some '''');
     let path2 = (if UF_FRAGMENT \<in> field_set pu then StrAppend A path1 [Text ''#'', Text f] else path1);
     let header = (if ssl \<and> port = 443 \<or> \<not> ssl \<and> port = 80 then hostName
                   else StrCat A [Text hostName, Text '':'', Number port]);
     ls \<leftarrow> lookup_addrs R hostName;
     Some \<lparr>u_port = port, u_isSsl = ssl, u_path = path2, u_pathOnly = pathOnly, u_query = query,
           u_hostName = hostName, u_hostHeader = header, u_lookupStatus = status_of ls,
           u_addresses = (case ls of Inr as \<Rightarrow> as | Inl _ \<Rightarrow> [])\<rparr>
   }"

definition URLInfo_init :: "resolver \<Rightarrow> absl \<Rightarrow> string \<Rightarrow> URLInfo StatusOr option" where
  "URLInfo_init R A urlstr =
     (case http_parser_parse_url urlstr False http_parser_url_init of
        Inl Rejected \<Rightarrow> Some (Inl (Status_msg INVALID_URL urlstr))
      | Inl _ \<Rightarrow> None
      | Inr pu \<Rightarrow>
          if UF_SCHEMA \<notin> field_set pu \<or> UF_HOST \<notin> field_set pu
          then Some (Inl (Status_msg INVALID_URL urlstr))
          else do {
            s \<leftarrow> urlPart pu urlstr UF_SCHEMA;
            case scheme_ssl s of
              None \<Rightarrow> Some (Inl (Status_msg INVALID_URL ''Invalid scheme''))
            | Some ssl \<Rightarrow> map_option Inr (init_fields R A pu urlstr ssl)
          })"

definition address :: "URLInfo \<Rightarrow> int \<Rightarrow> Address option" where
  "address u sequence = Addresses_get (u_addresses u) (u_port u) sequence"

definition addressCount :: "URLInfo \<Rightarrow> nat" where
  "addressCount u = length (u_addresses u)"

definition IsSameServer :: "URLInfo \<Rightarrow> URLInfo \<Rightarrow> int \<Rightarrow> bool option" where
  "IsSameServer u1 u2 sequence = do {
     a1 \<leftarrow> address u1 sequence;
     a2 \<leftarrow> address u2 sequence;
     eq_addr a1 a2
   }"

section \<open>The global list of URLs\<close>

record Urls =
  all_urls :: "URLInfo list"
  initialized :: bool

definition no_urls :: Urls where
  "no_urls = \<lparr>all_urls = [], initialized = False\<rparr>"

definition InitOne :: "resolver \<Rightarrow> absl \<Rightarrow> string \<Rightarrow> Urls \<Rightarrow> (Status \<times> Urls) option" where
  "InitOne R A urlStr G =
     (if initialized G then None
      else do {
        r \<leftarrow> URLInfo_init R A urlStr;
        Some (case r of
            Inl s \<Rightarrow> (s, G)
          | Inr url \<Rightarrow> (kOk, G\<lparr>all_urls := all_urls G @ [url], initialized := True\<rparr>))
      })"

text \<open>The body of the loop over the lines of the file. It leaves the loop with the status of a bad
  line, keeping the URLs of the lines before it.\<close>

definition add_url ::
    "resolver \<Rightarrow> absl \<Rightarrow> string \<Rightarrow> URLInfo list \<Rightarrow> (Status \<times> URLInfo list) option + URLInfo list" where
  "add_url R A urlStr urls =
     (case URLInfo_init R A urlStr of
        None \<Rightarrow> Inl None
      | Some (Inl s) \<Rightarrow> Inl (Some (s, urls))
      | Some (Inr u) \<Rightarrow> Inr (urls @ [u]))"

definition URL_BUF_LEN :: nat where "URL_BUF_LEN = 8192"

text \<open>\<open>contents\<close> is the text of the file, if it can be opened, and \<open>block\<close> the fresh buffer of
  \<^verbatim>\<open>URL_BUF_LEN\<close> bytes.\<close>

definition InitFile ::
    "resolver \<Rightarrow> absl \<Rightarrow> char list \<Rightarrow> string \<Rightarrow> string option \<Rightarrow> Urls \<Rightarrow> (Status \<times> Urls) option" where
  "InitFile R A block fileName contents G =
     (if initialized G then None
      else case contents of
        None \<Rightarrow> Some (Status_msg IO_ERROR fileName, G)
      | Some txt \<Rightarrow> do {
          (rc, line0, rest) \<leftarrow> readStream (LineState_empty block) txt;
          if rc < 0 then Some (Status_of_code IO_ERROR, G)
          else do {
            r \<leftarrow> do_lines (add_url R A) line0 rest (all_urls G);
            case r of
              Inl None \<Rightarrow> None
            | Inl (Some (s, urls)) \<Rightarrow> Some (s, G\<lparr>all_urls := urls\<rparr>)
            | Inr urls \<Rightarrow> Some (kOk, G\<lparr>all_urls := urls, initialized := True\<rparr>)
          }
        })"

text \<open>\<open>draw\<close> is \<^verbatim>\<open>rand->get\<close>; the result is the position in \<^verbatim>\<open>urls_\<close>, or \<^verbatim>\<open>nullptr\<close>.\<close>

datatype next_url = Null_url | Url_at nat

definition GetNext :: "(int \<Rightarrow> int \<Rightarrow> int) \<Rightarrow> Urls \<Rightarrow> next_url option" where
  "GetNext draw G =
     (if all_urls G = [] then Some Null_url
      else if length (all_urls G) = 1 then Some (Url_at 0)
      else let ix = draw 0 (int (length (all_urls G)) - 1) in
           if in_bounds (all_urls G) ix then Some (Url_at (nat ix)) else None)"

definition Reset :: "Urls \<Rightarrow> Urls" where
  "Reset G = G\<lparr>all_urls := [], initialized := False\<rparr>"

section \<open>No assertion fails\<close>

lemma urlPart_fits: "fits UNIV (length b) u \<Longrightarrow> urlPart u b f = Some (field_text b u f)"
  using fitsD [of UNIV "length b" u f] by (simp add: urlPart_def)

lemma if_Some: "(if b then Some x else Some y) = Some (if b then x else y)"
  by simp

lemma init_fields_defined:
  assumes "fits UNIV (length b) pu" "answer_ok (getaddrinfo R (field_text b pu UF_HOST))"
  obtains u where "init_fields R A pu b ssl = Some u" "list_all addr_ok (u_addresses u)"
    "u_hostName u = field_text b pu UF_HOST" "u_isSsl u = ssl"
    "u_port u = (if UF_PORT \<in> field_set pu then url_port pu else if ssl then 443 else 80)"
    "u_addresses u = [] \<or> ok (u_lookupStatus u)"
proof -
  note p = urlPart_fits [OF assms(1)]
  obtain ls where ls: "lookup_addrs R (field_text b pu UF_HOST) = Some ls"
    "list_all addr_ok (case ls of Inr as \<Rightarrow> as | Inl _ \<Rightarrow> [])" "isl ls \<or> ok (status_of ls)"
  proof (rule lookup_addrs_ok [OF assms(2)])
    fix s assume "lookup_addrs R (field_text b pu UF_HOST) = Some (Inl s)" "\<not> ok s"
    then show thesis by (intro that [of "Inl s"]) simp_all
  next
    fix as assume "lookup_addrs R (field_text b pu UF_HOST) = Some (Inr as)" "list_all addr_ok as"
    then show thesis by (intro that [of "Inr as"]) (simp_all add: status_of_def)
  qed
  let ?h = "field_text b pu UF_HOST"
  let ?P = "\<lambda>u. list_all addr_ok (u_addresses u) \<and> u_hostName u = ?h \<and> u_isSsl u = ssl \<and>
    u_port u = (if UF_PORT \<in> field_set pu then url_port pu else if ssl then 443 else 80) \<and>
    (u_addresses u = [] \<or> ok (u_lookupStatus u))"
  have "\<exists>u. init_fields R A pu b ssl = Some u \<and> ?P u"
    unfolding init_fields_def p Let_def if_Some ls(1) Option.bind.bind_lunit
    using ls(2,3) by (cases ls) (simp_all add: status_of_def)
  then show ?thesis using that by blast
qed

lemma URLInfo_init_cases:
  assumes "answer_ok (getaddrinfo R (case http_parser_parse_url b False http_parser_url_init of
      Inr pu \<Rightarrow> field_text b pu UF_HOST | Inl _ \<Rightarrow> []))"
  obtains s where "URLInfo_init R A b = Some (Inl s)" "code s = INVALID_URL"
  | pu u ssl where "http_parser_parse_url b False http_parser_url_init = Inr pu"
      "UF_SCHEMA \<in> field_set pu" "UF_HOST \<in> field_set pu"
      "scheme_ssl (field_text b pu UF_SCHEMA) = Some ssl" "init_fields R A pu b ssl = Some u"
      "URLInfo_init R A b = Some (Inr u)"
proof (cases "http_parser_parse_url b False http_parser_url_init")
  case (Inl e)
  then have "e = Rejected" by (rule parse_url_error)
  with Inl that(1) [of "Status_msg INVALID_URL b"] show ?thesis
    by (simp add: URLInfo_init_def Status_msg_def)
next
  case (Inr pu)
  note fit = parse_url_fits [OF Inr]
  obtain u where u: "init_fields R A pu b ssl = Some (u ssl)" for ssl
    using init_fields_defined [OF fit] assms Inr by (metis sum.case(2))
  show ?thesis
  proof (cases "UF_SCHEMA \<in> field_set pu \<and> UF_HOST \<in> field_set pu")
    case False
    with Inr that(1) [of "Status_msg INVALID_URL b"] show ?thesis
      by (auto simp: URLInfo_init_def Status_msg_def)
  next
    case True
    show ?thesis
    proof (cases "scheme_ssl (field_text b pu UF_SCHEMA)")
      case None
      with Inr True that(1) [of "Status_msg INVALID_URL ''Invalid scheme''"] show ?thesis
        by (simp add: URLInfo_init_def Status_msg_def urlPart_fits [OF fit])
    next
      case (Some ssl)
      with Inr True u [of ssl] show ?thesis
        by (intro that(2)) (simp_all add: URLInfo_init_def urlPart_fits [OF fit])
    qed
  qed
qed

section \<open>Well-formed URLs\<close>

definition expected_url :: "url_parts \<Rightarrow> URLInfo \<Rightarrow> bool" where
  "expected_url p u \<longleftrightarrow>
     (let ssl = (scheme p = kHttps);
          port = (case port_digits p of Some d \<Rightarrow> read_digits 10 d | None \<Rightarrow> if ssl then 443 else 80);
          only = (if path_part p = [] then ''/'' else path_part p)
      in u_isSsl u = ssl \<and> u_hostName u = host_name (server_host p) \<and> u_port u = port \<and>
         u_pathOnly u = only \<and> u_query u = query_part p \<and>
         u_path u = only @ (if query_part p = [] then [] else CHR ''?'' # query_part p) @
           (if fragment_part p = [] then [] else CHR ''#'' # fragment_part p) \<and>
         u_hostHeader u = host_name (server_host p) @
           (if port = (if ssl then 443 else 80) then [] else CHR '':'' # show_nat port))"

lemma url_text_init:
  assumes "parts_ok p" "scheme p \<in> {kHttp, kHttps}" "absl_ok A"
    "answer_ok (getaddrinfo R (host_name (server_host p)))"
  obtains u where "URLInfo_init R A (url_text p) = Some (Inr u)" "expected_url p u"
proof -
  let ?b = "url_text p"
  let ?ssl = "scheme p = kHttps"
  obtain pu where pu: "http_parser_parse_url ?b False http_parser_url_init = Inr pu"
    "field_set pu = {UF_SCHEMA, UF_HOST} \<union> (if path_part p = [] then {} else {UF_PATH}) \<union>
       (if query_part p = [] then {} else {UF_QUERY}) \<union> (if fragment_part p = [] then {} else {UF_FRAGMENT}) \<union>
       (if userinfo p = None then {} else {UF_USERINFO}) \<union> (if port_digits p = None then {} else {UF_PORT})"
    "field_text ?b pu UF_SCHEMA = scheme p" "field_text ?b pu UF_HOST = host_name (server_host p)"
    "path_part p \<noteq> [] \<Longrightarrow> field_text ?b pu UF_PATH = path_part p"
    "query_part p \<noteq> [] \<Longrightarrow> field_text ?b pu UF_QUERY = query_part p"
    "fragment_part p \<noteq> [] \<Longrightarrow> field_text ?b pu UF_FRAGMENT = fragment_part p"
    "\<And>d. port_digits p = Some d \<Longrightarrow> url_port pu = read_digits 10 d"
    using parse_url_text [OF assms(1)] by metis
  note fit = urlPart_fits [OF parse_url_fits [OF pu(1)]]
  have mem: "UF_SCHEMA \<in> field_set pu" "UF_HOST \<in> field_set pu"
    "UF_PATH \<in> field_set pu \<longleftrightarrow> path_part p \<noteq> []" "UF_QUERY \<in> field_set pu \<longleftrightarrow> query_part p \<noteq> []"
    "UF_FRAGMENT \<in> field_set pu \<longleftrightarrow> fragment_part p \<noteq> []" "UF_PORT \<in> field_set pu \<longleftrightarrow> port_digits p \<noteq> None"
    using pu(2) by auto
  have ssl: "scheme_ssl (scheme p) = Some ?ssl"
    using assms(2) by (auto simp: scheme_ssl_def kHttp_def kHttps_def)
  obtain ls where ls: "lookup_addrs R (host_name (server_host p)) = Some ls"
    using lookup_addrs_ok [OF assms(4)] by metis
  let ?port = "case port_digits p of Some d \<Rightarrow> read_digits 10 d | None \<Rightarrow> if ?ssl then 443 else 80"
  have port: "(if UF_PORT \<in> field_set pu then url_port pu else if ?ssl then 443 else 80) = ?port"
    using mem(6) pu(8) by (cases "port_digits p") auto
  have "\<exists>u. init_fields R A pu ?b ?ssl = Some u \<and> expected_url p u"
    unfolding init_fields_def fit Let_def if_Some Option.bind.bind_lunit pu(4) ls port
    using mem pu(5-7) assms(3)
    by (cases "path_part p = []"; cases "query_part p = []"; cases "fragment_part p = []")
      (simp_all add: expected_url_def Let_def absl_StrAppend absl_StrCat)
  then obtain u where u: "init_fields R A pu ?b ?ssl = Some u" "expected_url p u" by blast
  have "URLInfo_init R A ?b = Some (Inr u)"
    using pu(1,3) mem(1,2) ssl u(1) by (simp add: URLInfo_init_def fit)
  with u(2) that show ?thesis by blast
qed

section \<open>The URL file\<close>

lemma InitFile_lines:
  assumes "length block = URL_BUF_LEN" "NUL \<notin> set txt" "short_lines URL_BUF_LEN txt" "no_blank_lines txt"
  shows "InitFile R A block fn (Some txt) no_urls =
    (case fold_lines (add_url R A) (text_lines txt) [] of
       Inl None \<Rightarrow> None
     | Inl (Some (s, us)) \<Rightarrow> Some (s, \<lparr>all_urls = us, initialized = False\<rparr>)
     | Inr us \<Rightarrow> Some (kOk, \<lparr>all_urls = us, initialized = True\<rparr>))"
proof -
  have rl: "read_lines (add_url R A) (LineState_empty block) txt [] =
      Some (fold_lines (add_url R A) (text_lines txt) [])"
    using read_lines_delivers [of "add_url R A" _ "[]" "txt" "[]"] between_reads_empty [of "txt" block "add_url R A"] assms
    by simp
  let ?s = "LineState_empty block"
  have p: "parts ?s [] [] block" by (simp add: LineState_empty_def parts_def)
  let ?bs = "take (length block) txt"
  have n: "nat (bufSize ?s - bufLen ?s) = length block" by (simp add: LineState_empty_def)
  obtain t post where t: "store_read ?s ?bs = Some t" "parts t [] ([] @ ?bs) post"
  proof (rule store_read_parts [OF p, of ?bs])
    show "length ?bs \<le> length block" by simp
  qed (rule that)
  have rs: "readStream ?s txt = Some (int (length ?bs), t, drop (length ?bs) txt)"
    using t(1) unfolding readStream_def Let_def n by (simp only: Option.bind.bind_lunit)
  show ?thesis
  proof (cases "txt = []")
    case False
    then have "0 < int (length ?bs)" using assms(1) by (simp add: URL_BUF_LEN_def)
    with read_lines_do [OF rs, of "add_url R A" "[]"] rl
    have "do_lines (add_url R A) t (drop (length ?bs) txt) [] = Some (fold_lines (add_url R A) (text_lines txt) [])"
      by simp
    then show ?thesis using rs
      by (simp add: InitFile_def no_urls_def split: sum.splits option.splits prod.splits)
  next
    case True
    have wf: "wf_line t" "\<not> httpMode t"
      using t(1) True by (auto simp: store_read_def LineState_empty_def store_at_def wf_line_def)
    have u: "unread t = []" using parts_unread [OF t(2)] True by simp
    obtain v where v: "for_lines (add_url R A) t [] = Some (v, Inr [])" "wf_line v" "leaves v []"
      using for_lines_delivers [OF wf, of "add_url R A" "[]"] u
      by (auto simp: delivered_def text_lines_def text_rest_def)
    obtain b w where w: "consume v = Some (b, w)" "wf_line w"
      using consume_leaves [OF v(3,2)] by metis
    have "store_read w [] \<noteq> None" using w(2) by (simp add: store_read_def wf_line_def)
    then obtain x where "readStream w [] = Some (0, x, [])" by (auto simp: readStream_def)
    with v(1) w(1) have "do_lines (add_url R A) t [] [] = Some (Inr [])"
      by (subst do_lines.simps) simp
    then show ?thesis using rs True
      by (simp add: InitFile_def no_urls_def text_lines_def)
  qed
qed

lemma fold_add_urls:
  "\<forall>l \<in> set ls. URLInfo_init R A l = Some (Inr (f l)) \<Longrightarrow>
     fold_lines (add_url R A) (ls @ ms) us = fold_lines (add_url R A) ms (us @ map f ls)"
  by (induction ls arbitrary: us) (simp_all add: add_url_def)

lemma init_total:
  assumes "\<And>name. answer_ok (getaddrinfo R name)"
  shows "(\<exists>s. URLInfo_init R A b = Some (Inl s) \<and> code s = INVALID_URL) \<or>
    (\<exists>u. URLInfo_init R A b = Some (Inr u) \<and> u_port u < 65536 \<and> list_all addr_ok (u_addresses u))"
proof (rule URLInfo_init_cases [of R b A])
  show "answer_ok (getaddrinfo R (case http_parser_parse_url b False http_parser_url_init of
      Inr pu \<Rightarrow> field_text b pu UF_HOST | Inl _ \<Rightarrow> []))" by (rule assms)
next
  fix s assume "URLInfo_init R A b = Some (Inl s)" "code s = INVALID_URL"
  then show ?thesis by simp
next
  fix pu u ssl
  assume pu: "http_parser_parse_url b False http_parser_url_init = Inr pu"
    and u: "init_fields R A pu b ssl = Some u" "URLInfo_init R A b = Some (Inr u)"
  obtain u' where u': "init_fields R A pu b ssl = Some u'" "list_all addr_ok (u_addresses u')"
    "u_port u' = (if UF_PORT \<in> field_set pu then url_port pu else if ssl then 443 else 80)"
    using init_fields_defined [OF parse_url_fits [OF pu] assms] by metis
  with u have "u' = u" by simp
  moreover have "UF_PORT \<in> field_set pu \<Longrightarrow> url_port pu < 65536"
    using pu by (auto simp: http_parser_parse_url_def parse_port_def Let_def
        split: if_splits sum.splits prod.splits option.splits)
  ultimately show ?thesis using u u' by auto
qed

lemma stamp_inject:
  assumes "addr_ok a" "addr_ok b" "p < 65536" "q < 65536"
  shows "stamp p a = stamp q b \<longleftrightarrow>
    p = q \<and> ss_family a = ss_family b \<and> drop 2 (sa_data a) = drop 2 (sa_data b)"
  using po.enc_eq_iff [OF assms(3,4)]
  by (cases a; cases b) (auto simp: stamp_def htons_def)

definition example_resolver :: resolver where
  "example_resolver =
     \<lparr>getaddrinfo = (\<lambda>name. if name = ''nowhere'' then Lookup_error 2
                           else Resolved [(AF_INET, replicate 14 (CHR ''a''))]),
      gai_strerror = (\<lambda>_. ''unknown name''), strerror = (\<lambda>_. '''')\<rparr>"

lemma example_resolver_ok: "answer_ok (getaddrinfo example_resolver name)"
  by (simp add: example_resolver_def answer_ok_def)

section \<open>Properties\<close>

text \<open>C2. A well-formed URL is taken apart correctly: for every http or https URL with a host name
  or a bracketed IPv6 address, optional user information, port, path, query and fragment,
  initialising a \<^verbatim>\<open>URLInfo\<close> from its text succeeds and yields exactly its parts: TLS from the
  scheme, the host without brackets or user information, the given port or the default of the
  scheme, a path of \<^verbatim>\<open>/\<close> when there is none, the full path with query and fragment, and a
  host header that carries the port exactly when it is not the default.\<close>

theorem URLInfo_init_well_formed:
  assumes "parts_ok p" and "scheme p \<in> {kHttp, kHttps}" and "absl_ok A"
    and "answer_ok (getaddrinfo R (host_name (server_host p)))"
  shows "\<exists>u. URLInfo_init R A (url_text p) = Some (Inr u) \<and> expected_url p u"
  using url_text_init [OF assms] by metis

definition example_parts :: url_parts where
  "example_parts =
     \<lparr>scheme = ''https'', userinfo = Some ''me:pw'', server_host = Host_name ''a.example'',
      port_digits = Some ''8443'', path_part = ''/v1'', query_part = ''a=b?'',
      fragment_part = ''top''\<rparr>"

lemma example_chars:
  "list_all IS_ALPHA ''https''" "list_all IS_USERINFO_CHAR ''me:pw''" "list_all IS_HOST_CHAR ''a.example''"
  "list_all is_digit ''8443''" "list_all IS_URL_CHAR ''/v1''" "list_all query_char ''a=b?''"
  "list_all fragment_char ''top''" "\<not> IS_ALPHA (CHR ''!'')"
  by code_simp+

lemma example_parts_ok: "parts_ok example_parts"
proof -
  have "map (\<lambda>c. the (digit_value c)) (takeWhile (is_base_digit 10) ''8443'') = [8, 4, 4, 3]"
    by code_simp
  then have "read_digits 10 ''8443'' < 65536" by (simp only: read_digits_def digits_val_def) simp
  then show ?thesis
    using example_chars
    by (simp add: parts_ok_def example_parts_def url_text_def server_text_def tail_text_def)
qed

lemma URLInfo_init_well_formed_witness:
  "\<exists>u. URLInfo_init example_resolver absl_reference (url_text example_parts) = Some (Inr u) \<and>
    expected_url example_parts u"
proof (rule URLInfo_init_well_formed)
  show "parts_ok example_parts" by (rule example_parts_ok)
  show "scheme example_parts \<in> {kHttp, kHttps}"
    by (simp add: example_parts_def kHttp_def kHttps_def)
qed (rule absl_reference_ok example_resolver_ok)+

text \<open>C14. Initialisation is total and never stops the program: for every byte string, whatever its
  length, no assertion of the embedded parser fails, no offset is out of range, and the result is
  either the status \<^verbatim>\<open>INVALID_URL\<close> or a \<^verbatim>\<open>URLInfo\<close> with a 16-bit port and usable addresses.\<close>

theorem URLInfo_init_total:
  assumes "\<And>name. answer_ok (getaddrinfo R name)"
  shows "(\<exists>s. URLInfo_init R A b = Some (Inl s) \<and> code s = INVALID_URL) \<or>
    (\<exists>u. URLInfo_init R A b = Some (Inr u) \<and> u_port u < 65536 \<and> list_all addr_ok (u_addresses u))"
  by (rule init_total [OF assms])

lemma URLInfo_init_total_witness:
  "(\<exists>s. URLInfo_init example_resolver absl_reference ''http:/x'' = Some (Inl s) \<and> code s = INVALID_URL) \<or>
   (\<exists>u. URLInfo_init example_resolver absl_reference ''http:/x'' = Some (Inr u) \<and> u_port u < 65536 \<and>
      list_all addr_ok (u_addresses u))"
  by (rule URLInfo_init_total) (rule example_resolver_ok)



text \<open>The URL file loses what is not ended by a newline: a file whose text has no newline
  character, such as a single URL without one, is accepted with an empty list, and the next URL
  to request is then the null pointer.\<close>

theorem InitFile_drops_unterminated_line:
  assumes "length block = URL_BUF_LEN" and "NUL \<notin> set contents" and "length contents < URL_BUF_LEN"
    and "\<forall>c \<in> set contents. \<not> is_nl c"
  shows "InitFile R A block fn (Some contents) no_urls = Some (kOk, \<lparr>all_urls = [], initialized = True\<rparr>) \<and>
    GetNext draw \<lparr>all_urls = [], initialized = True\<rparr> = Some Null_url"
proof -
  have t: "text_lines contents = []" "text_rest contents = contents"
    using text_no_nl [OF assms(4)] by simp_all
  have "split_text [] contents = ([], contents)"
    using split_text_no_nl [OF assms(4), of "[]" "[]"] by simp
  then have "short_lines URL_BUF_LEN contents" using assms(3) t(2) by (simp add: short_lines_def)
  moreover have "separated contents" using assms(4) by (induction contents rule: separated.induct) auto
  then have "no_blank_lines contents"
    using assms(4) by (cases contents) (auto simp: no_blank_lines_def)
  ultimately show ?thesis
    using InitFile_lines [OF assms(1,2)] t(1) by (simp add: GetNext_def)
qed

lemma InitFile_drops_unterminated_line_witness:
  "InitFile example_resolver absl_reference (replicate URL_BUF_LEN NUL) ''urls'' (Some ''http://a/'') no_urls =
     Some (kOk, \<lparr>all_urls = [], initialized = True\<rparr>) \<and>
   GetNext (\<lambda>lo hi. lo) \<lparr>all_urls = [], initialized = True\<rparr> = Some Null_url"
  by (rule InitFile_drops_unterminated_line) (simp_all add: URL_BUF_LEN_def is_nl_def)


definition example_url :: "nat \<Rightarrow> URLInfo" where
  "example_url p =
     \<lparr>u_port = p, u_isSsl = False, u_path = ''/'', u_pathOnly = ''/'', u_query = '''',
      u_hostName = ''h'', u_hostHeader = ''h'', u_lookupStatus = kOk,
      u_addresses = [\<lparr>ss_family = AF_INET, sa_data = replicate 14 (CHR ''a'')\<rparr>]\<rparr>"


text \<open>The URL of the next request is always one of the list: with a generator that keeps to the
  range it is asked for, \<open>GetNext\<close> never indexes out of bounds, gives the null pointer only for
  an empty list, and does not use the generator for a single URL.\<close>

theorem GetNext_in_range:
  assumes "\<And>lo hi. lo \<le> hi \<Longrightarrow> lo \<le> draw lo hi \<and> draw lo hi \<le> hi"
  shows "(GetNext draw G = Some Null_url \<longleftrightarrow> all_urls G = []) \<and>
    (all_urls G \<noteq> [] \<longrightarrow> (\<exists>i < length (all_urls G). GetNext draw G = Some (Url_at i))) \<and>
    (length (all_urls G) = 1 \<longrightarrow> GetNext draw G = Some (Url_at 0))"
proof -
  have "in_bounds (all_urls G) (draw 0 (int (length (all_urls G)) - 1))" if "length (all_urls G) > 1"
    using assms [of 0 "int (length (all_urls G)) - 1"] that unfolding in_bounds_def by linarith
  note ix = this
  show ?thesis
  proof (cases "length (all_urls G) > 1")
    case True
    let ?ix = "draw 0 (int (length (all_urls G)) - 1)"
    have ne: "all_urls G \<noteq> []" "length (all_urls G) \<noteq> 1" using True by auto
    then have g: "GetNext draw G = Some (Url_at (nat ?ix))"
      using ix [OF True] by (simp add: GetNext_def)
    have "nat ?ix < length (all_urls G)" using ix [OF True] unfolding in_bounds_def by linarith
    with g ne show ?thesis by (intro conjI impI exI [of _ "nat ?ix"]) simp_all
  next
    case False
    then consider "all_urls G = []" | "length (all_urls G) = 1" "all_urls G \<noteq> []"
      by (cases "all_urls G") auto
    then show ?thesis by cases (simp_all add: GetNext_def)
  qed
qed

lemma GetNext_in_range_witness:
  "GetNext (\<lambda>lo hi. hi) \<lparr>all_urls = [example_url 80, example_url 81], initialized = True\<rparr> \<noteq> Some Null_url \<and>
   (\<exists>i < length [example_url 80, example_url 81].
      GetNext (\<lambda>lo hi. hi) \<lparr>all_urls = [example_url 80, example_url 81], initialized = True\<rparr> = Some (Url_at i))"
  using GetNext_in_range [of "\<lambda>lo hi. hi" "\<lparr>all_urls = [example_url 80, example_url 81], initialized = True\<rparr>"] by simp

end
