(* ===== verification/Base64.thy ===== *)
theory Base64
  imports CText Codec
begin

text \<open>
  The embedded Base64 coder, \<^verbatim>\<open>third_party/base64/base64.c\<close>, behind basic authentication and
  the OAuth signature. The arithmetic is on \<^verbatim>\<open>int\<close>, into which the signed characters of the
  input are promoted; a character that leaves the output is written through \<^verbatim>\<open>*p++\<close>, so the
  output is the list of characters written, the final NUL included.
\<close>

unbundle bit_operations_syntax

section \<open>The code\<close>

definition pr2six :: "int list" where
  "pr2six =
     [64, 64, 64, 64, 64, 64, 64, 64, 64, 64, 64, 64, 64, 64, 64, 64,
      64, 64, 64, 64, 64, 64, 64, 64, 64, 64, 64, 64, 64, 64, 64, 64,
      64, 64, 64, 64, 64, 64, 64, 64, 64, 64, 64, 62, 64, 64, 64, 63,
      52, 53, 54, 55, 56, 57, 58, 59, 60, 61, 64, 64, 64, 64, 64, 64,
      64,  0,  1,  2,  3,  4,  5,  6,  7,  8,  9, 10, 11, 12, 13, 14,
      15, 16, 17, 18, 19, 20, 21, 22, 23, 24, 25, 64, 64, 64, 64, 64,
      64, 26, 27, 28, 29, 30, 31, 32, 33, 34, 35, 36, 37, 38, 39, 40,
      41, 42, 43, 44, 45, 46, 47, 48, 49, 50, 51, 64, 64, 64, 64, 64,
      64, 64, 64, 64, 64, 64, 64, 64, 64, 64, 64, 64, 64, 64, 64, 64,
      64, 64, 64, 64, 64, 64, 64, 64, 64, 64, 64, 64, 64, 64, 64, 64,
      64, 64, 64, 64, 64, 64, 64, 64, 64, 64, 64, 64, 64, 64, 64, 64,
      64, 64, 64, 64, 64, 64, 64, 64, 64, 64, 64, 64, 64, 64, 64, 64,
      64, 64, 64, 64, 64, 64, 64, 64, 64, 64, 64, 64, 64, 64, 64, 64,
      64, 64, 64, 64, 64, 64, 64, 64, 64, 64, 64, 64, 64, 64, 64, 64,
      64, 64, 64, 64, 64, 64, 64, 64, 64, 64, 64, 64, 64, 64, 64, 64,
      64, 64, 64, 64, 64, 64, 64, 64, 64, 64, 64, 64, 64, 64, 64, 64]"

definition basis_64 :: string where
  "basis_64 = ''ABCDEFGHIJKLMNOPQRSTUVWXYZabcdefghijklmnopqrstuvwxyz0123456789+/''"

definition basis :: "int \<Rightarrow> char" where
  "basis i = basis_64 ! nat i"

definition six :: "char \<Rightarrow> int" where
  "six c = pr2six ! byte_of c"

definition Base64encode_len :: "int \<Rightarrow> int" where
  "Base64encode_len len = c_div (len + 2) 3 * 4 + 1"

text \<open>The four digits of a group of three characters.\<close>

definition digit1 :: "char \<Rightarrow> int" where
  "digit1 a = drop_bit 2 (char_to_int a) AND 0x3F"

definition digit2 :: "char \<Rightarrow> char \<Rightarrow> int" where
  "digit2 a b = push_bit 4 (char_to_int a AND 0x3) OR drop_bit 4 (char_to_int b AND 0xF0)"

definition digit3 :: "char \<Rightarrow> char \<Rightarrow> int" where
  "digit3 b c = push_bit 2 (char_to_int b AND 0xF) OR drop_bit 6 (char_to_int c AND 0xC0)"

definition digit2_last :: "char \<Rightarrow> int" where
  "digit2_last a = push_bit 4 (char_to_int a AND 0x3)"

definition digit3_last :: "char \<Rightarrow> int" where
  "digit3_last b = push_bit 2 (char_to_int b AND 0xF)"

definition digit4 :: "char \<Rightarrow> int" where
  "digit4 c = char_to_int c AND 0x3F"

text \<open>The loop over whole groups, and the tail of one or two characters, which it leaves.\<close>

fun encode_from :: "string \<Rightarrow> string" where
  "encode_from (a # b # c # s) =
     [basis (digit1 a), basis (digit2 a b), basis (digit3 b c), basis (digit4 c)] @ encode_from s"
| "encode_from [a, b] =
     [basis (digit1 a), basis (digit2 a b), basis (digit3_last b), CHR ''='']"
| "encode_from [a] =
     [basis (digit1 a), basis (digit2_last a), CHR ''='', CHR ''='']"
| "encode_from [] = []"

text \<open>\<open>Base64encode\<close>: the characters written, and the value returned.\<close>

definition Base64encode :: "string \<Rightarrow> string \<times> int" where
  "Base64encode s = (let out = encode_from s @ [NUL] in (out, int (length out)))"

definition unsigned_char :: "int \<Rightarrow> char" where
  "unsigned_char i = char_of (nat (i mod 256))"

definition byte1 :: "char \<Rightarrow> char \<Rightarrow> char" where
  "byte1 p q = unsigned_char (push_bit 2 (six p) OR drop_bit 4 (six q))"

definition byte2 :: "char \<Rightarrow> char \<Rightarrow> char" where
  "byte2 q r = unsigned_char (push_bit 4 (six q) OR drop_bit 2 (six r))"

definition byte3 :: "char \<Rightarrow> char \<Rightarrow> char" where
  "byte3 r t = unsigned_char (push_bit 6 (six r) OR six t)"

text \<open>The loop \<^verbatim>\<open>while (nprbytes > 4)\<close> over the coded characters, then the last one to four.\<close>

fun decode_from :: "string \<Rightarrow> string" where
  "decode_from (p # q # r # t # u # s) = [byte1 p q, byte2 q r, byte3 r t] @ decode_from (u # s)"
| "decode_from [p, q, r, t] = [byte1 p q, byte2 q r, byte3 r t]"
| "decode_from [p, q, r] = [byte1 p q, byte2 q r]"
| "decode_from [p, q] = [byte1 p q]"
| "decode_from _ = []"

text \<open>The coded prefix of a C string, at the first character that is not a digit. The end of the
  string is one of these.\<close>

definition coded_prefix :: "string \<Rightarrow> string" where
  "coded_prefix s = takeWhile (\<lambda>c. six c \<le> 63) s"

definition Base64decode_len :: "string \<Rightarrow> int" where
  "Base64decode_len s =
     (let nprbytes = int (length (coded_prefix s)) in c_div (nprbytes + 3) 4 * 3 + 1)"

text \<open>After the loop \<open>nprbytes\<close> is 1 to 4, or 0 when there was nothing.\<close>

definition Base64decode :: "string \<Rightarrow> string \<times> int" where
  "Base64decode s =
     (let coded = coded_prefix s;
          n = int (length coded);
          nprbytes = (if n = 0 then 0 else (n - 1) mod 4 + 1)
      in (decode_from coded @ [NUL], c_div (n + 3) 4 * 3 - ((4 - nprbytes) AND 3)))"

section \<open>Digits as arithmetic\<close>

lemma and_low:
  "(x::int) AND 3 = x mod 4" "x AND 15 = x mod 16" "x AND 63 = x mod 64"
  using take_bit_eq_mask [of 2 x] take_bit_eq_mask [of 4 x] take_bit_eq_mask [of 6 x]
  by (simp_all add: mask_numeral take_bit_eq_mod)

lemma and_high:
  "drop_bit 4 ((x::int) AND 240) = x div 16 mod 16" "drop_bit 6 (x AND 192) = x div 64 mod 4"
proof -
  have "drop_bit 4 (x AND 240) = drop_bit 4 x AND drop_bit 4 240"
    "drop_bit 6 (x AND 192) = drop_bit 6 x AND drop_bit 6 192" by (rule drop_bit_and)+
  then show "drop_bit 4 (x AND 240) = x div 16 mod 16" "drop_bit 6 (x AND 192) = x div 64 mod 4"
    by (simp_all add: and_low drop_bit_eq_div)
qed

lemma or_disjoint:
  assumes "0 \<le> y" "y < 2 ^ n"
  shows "push_bit n x OR y = x * 2 ^ n + (y :: int)"
proof -
  have "y = take_bit n y" using assms by (simp add: take_bit_int_eq_self)
  then have "\<not> bit y m" if "n \<le> m" for m using that bit_take_bit_iff [of n y m] by simp
  then have "push_bit n x AND y = 0"
    by (intro bit_eqI) (auto simp: bit_and_iff bit_push_bit_iff)
  then have "push_bit n x + y = push_bit n x OR y" by (rule disjunctive_add_eq_or)
  then show ?thesis by (simp add: push_bit_eq_mult)
qed

lemma char_to_int_cases: "char_to_int c = int (byte_of c) \<or> char_to_int c = int (byte_of c) - 256"
  by (simp add: char_to_int_def)

lemma digit_values:
  "digit1 a = int (byte_of a) div 4"
  "digit2 a b = int (byte_of a) mod 4 * 16 + int (byte_of b) div 16"
  "digit3 b c = int (byte_of b) mod 16 * 4 + int (byte_of c) div 64"
  "digit4 c = int (byte_of c) mod 64"
  "digit3_last b = int (byte_of b) mod 16 * 4"
  "digit2_last a = int (byte_of a) mod 4 * 16"
proof -
  have lt: "int (byte_of x) < 256" for x using byte_of_lt [of x] by simp
  have s: "(i - 256) mod 4 = i mod 4" "(i - 256) mod 16 = i mod 16" "(i - 256) mod 64 = i mod 64"
    "(i - 256) div 4 mod 64 = i div 4 mod 64" "(i - 256) div 16 mod 16 = i div 16 mod 16"
    "(i - 256) div 64 mod 4 = i div 64 mod 4" for i :: int
  proof -
    have "(i - 256) div 4 = i div 4 - 64" "(i - 256) div 16 = i div 16 - 16" "(i - 256) div 64 = i div 64 - 4"
      using div_mult_self1 [of 4 i "- 64"] div_mult_self1 [of 16 i "- 16"] div_mult_self1 [of 64 i "- 4"]
      by simp_all
    then show "(i - 256) mod 4 = i mod 4" "(i - 256) mod 16 = i mod 16" "(i - 256) mod 64 = i mod 64"
      "(i - 256) div 4 mod 64 = i div 4 mod 64" "(i - 256) div 16 mod 16 = i div 16 mod 16"
      "(i - 256) div 64 mod 4 = i div 64 mod 4"
      by (simp_all add: mod_eq_dvd_iff)
  qed
  have r: "int (byte_of x) div 4 mod 64 = int (byte_of x) div 4"
    "int (byte_of x) div 16 mod 16 = int (byte_of x) div 16"
    "int (byte_of x) div 64 mod 4 = int (byte_of x) div 64" for x
    using lt [of x] by simp_all
  have m: "char_to_int x mod 4 = int (byte_of x) mod 4" "char_to_int x mod 16 = int (byte_of x) mod 16"
    "char_to_int x mod 64 = int (byte_of x) mod 64"
    "char_to_int x div 4 mod 64 = int (byte_of x) div 4" "char_to_int x div 16 mod 16 = int (byte_of x) div 16"
    "char_to_int x div 64 mod 4 = int (byte_of x) div 64" for x
    using char_to_int_cases [of x] s [of "int (byte_of x)"] r [of x] by metis+
  show "digit1 a = int (byte_of a) div 4" "digit4 c = int (byte_of c) mod 64"
    "digit3_last b = int (byte_of b) mod 16 * 4"
    "digit2_last a = int (byte_of a) mod 4 * 16"
    by (simp_all add: digit1_def digit4_def digit2_last_def digit3_last_def and_low drop_bit_eq_div push_bit_eq_mult m)
  have b16: "0 \<le> int (byte_of b) div 16" "int (byte_of b) div 16 < 2 ^ 4" using lt [of b] by simp_all
  show "digit2 a b = int (byte_of a) mod 4 * 16 + int (byte_of b) div 16"
    unfolding digit2_def and_low and_high m or_disjoint [OF b16] by simp
  have c64: "0 \<le> int (byte_of c) div 64" "int (byte_of c) div 64 < 2 ^ 2" using lt [of c] by simp_all
  show "digit3 b c = int (byte_of b) mod 16 * 4 + int (byte_of c) div 64"
    unfolding digit3_def and_low and_high m or_disjoint [OF c64] by simp
qed

text \<open>The two tables are inverse to each other.\<close>

lemma table_inverse: "map (\<lambda>c. pr2six ! byte_of c) basis_64 = map int [0..<64]"
  by code_simp

lemma six_basis:
  assumes "0 \<le> v" "v < 64"
  shows "six (basis v) = v"
proof -
  have "nat v < length basis_64" using assms by (simp add: basis_64_def)
  then have "six (basis v) = map (\<lambda>c. pr2six ! byte_of c) basis_64 ! nat v"
    by (simp add: six_def basis_def)
  also have "\<dots> = v" unfolding table_inverse using assms by simp
  finally show ?thesis .
qed

lemma six_pad: "six (CHR ''='') = 64" "six NUL = 64"
  by code_simp+

lemma unsigned_char_byte: "i mod 256 = int (byte_of c) \<Longrightarrow> unsigned_char i = c"
  by (simp add: unsigned_char_def)

lemma digits_in_range:
  "0 \<le> digit1 a" "digit1 a < 64" "0 \<le> digit2 a b" "digit2 a b < 64"
  "0 \<le> digit3 b c" "digit3 b c < 64" "0 \<le> digit4 c" "digit4 c < 64"
proof -
  have d: "0 \<le> int (byte_of x) div 4" "int (byte_of x) div 4 < 64"
    "0 \<le> int (byte_of x) div 16" "int (byte_of x) div 16 < 16"
    "0 \<le> int (byte_of x) div 64" "int (byte_of x) div 64 < 4"
    "0 \<le> int (byte_of x) mod 4" "int (byte_of x) mod 4 < 4"
    "0 \<le> int (byte_of x) mod 16" "int (byte_of x) mod 16 < 16"
    "0 \<le> int (byte_of x) mod 64" "int (byte_of x) mod 64 < 64" for x
  proof -
    have "int (byte_of x) < 256" using byte_of_lt [of x] by simp
    then show "int (byte_of x) div 4 < 64" "int (byte_of x) div 16 < 16" "int (byte_of x) div 64 < 4"
      by presburger+
  qed simp_all
  show "0 \<le> digit1 a" "digit1 a < 64" "0 \<le> digit2 a b" "digit2 a b < 64"
    "0 \<le> digit3 b c" "digit3 b c < 64" "0 \<le> digit4 c" "digit4 c < 64"
    unfolding digit_values using d [of a] d [of b] d [of c] by linarith+
qed

lemma digit_parts:
  "digit2 a b div 16 = int (byte_of a) mod 4" "digit3 b c div 4 = int (byte_of b) mod 16"
proof -
  have "0 \<le> int (byte_of b) div 16" "int (byte_of b) div 16 < 16"
    "0 \<le> int (byte_of c) div 64" "int (byte_of c) div 64 < 4"
    using byte_of_lt [of b] byte_of_lt [of c] by simp_all
  then show "digit2 a b div 16 = int (byte_of a) mod 4" "digit3 b c div 4 = int (byte_of b) mod 16"
    unfolding digit_values by simp_all
qed

lemma six_digits [simp]:
  "six (basis (digit1 a)) = digit1 a" "six (basis (digit2 a b)) = digit2 a b"
  "six (basis (digit3 b c)) = digit3 b c" "six (basis (digit4 c)) = digit4 c"
  by (rule six_basis; rule digits_in_range)+

lemma decode_group:
  "byte1 (basis (digit1 a)) (basis (digit2 a b)) = a"
  "byte2 (basis (digit2 a b)) (basis (digit3 b c)) = b"
  "byte3 (basis (digit3 b c)) (basis (digit4 c)) = c"
proof -
  have lt: "int (byte_of x) < 256" for x using byte_of_lt [of x] by simp
  have "0 \<le> digit2 a b div 16" "digit2 a b div 16 < 2 ^ 2" using digits_in_range(3,4) [of a b] by simp_all
  then have "push_bit 2 (digit1 a) OR drop_bit 4 (digit2 a b) = digit1 a * 4 + digit2 a b div 16"
    using or_disjoint [of "digit2 a b div 16" 2 "digit1 a"] by (simp add: drop_bit_eq_div)
  also have "\<dots> mod 256 = int (byte_of a)"
    using lt [of a] unfolding digit_parts digit_values(1) by simp
  finally show "byte1 (basis (digit1 a)) (basis (digit2 a b)) = a"
    by (simp add: byte1_def unsigned_char_byte)
  have "0 \<le> digit3 b c div 4" "digit3 b c div 4 < 2 ^ 4" using digits_in_range(5,6) [of b c] by simp_all
  then have "push_bit 4 (digit2 a b) OR drop_bit 2 (digit3 b c) = digit2 a b * 16 + digit3 b c div 4"
    using or_disjoint [of "digit3 b c div 4" 4 "digit2 a b"] by (simp add: drop_bit_eq_div)
  also have "\<dots> mod 256 = int (byte_of b)"
  proof -
    have "digit2 a b * 16 + digit3 b c div 4 =
        int (byte_of a) mod 4 * 256 + (int (byte_of b) div 16 * 16 + int (byte_of b) mod 16)"
      unfolding digit_parts digit_values(2) by simp
    then show ?thesis using lt [of b] by simp
  qed
  finally show "byte2 (basis (digit2 a b)) (basis (digit3 b c)) = b"
    by (simp add: byte2_def unsigned_char_byte)
  have "push_bit 6 (digit3 b c) OR digit4 c = digit3 b c * 64 + digit4 c"
    using or_disjoint [of "digit4 c" 6 "digit3 b c"] digits_in_range(7,8) [of c] by simp
  also have "\<dots> mod 256 = int (byte_of c)"
  proof -
    have "digit3 b c * 64 + digit4 c =
        int (byte_of b) mod 16 * 256 + (int (byte_of c) div 64 * 64 + int (byte_of c) mod 64)"
      unfolding digit_values by simp
    then show ?thesis using lt [of c] by simp
  qed
  finally show "byte3 (basis (digit3 b c)) (basis (digit4 c)) = c"
    by (simp add: byte3_def unsigned_char_byte)
qed

section \<open>Round trip\<close>

lemma tail_digits:
  "digit3_last b = digit3 b NUL" "digit2_last a = digit2 a NUL"
  by (simp_all add: digit_values byte_of_def)

text \<open>The output without padding.\<close>

fun core :: "string \<Rightarrow> string" where
  "core (a # b # c # s) =
     [basis (digit1 a), basis (digit2 a b), basis (digit3 b c), basis (digit4 c)] @ core s"
| "core [a, b] = [basis (digit1 a), basis (digit2 a b), basis (digit3 b NUL)]"
| "core [a] = [basis (digit1 a), basis (digit2 a NUL)]"
| "core [] = []"

lemma core_empty: "core s = [] \<longleftrightarrow> s = []"
  by (induction s rule: core.induct) auto

lemma encode_core: "\<exists>k \<le> 2. encode_from s = core s @ replicate k (CHR ''='')"
  by (induction s rule: encode_from.induct)
    (auto simp: tail_digits numeral_2_eq_2 intro: exI [of _ 0] exI [of _ 1] exI [of _ 2])

lemma core_digits: "c \<in> set (core s) \<Longrightarrow> six c \<le> 63"
  using digits_in_range
  by (induction s rule: core.induct) (auto simp: zle_diff1_eq [of _ 64, simplified])

lemma coded_prefix_encode: "coded_prefix (encode_from s @ [NUL]) = core s"
proof -
  obtain k where k: "encode_from s = core s @ replicate k (CHR ''='')" using encode_core by blast
  have "takeWhile (\<lambda>c. six c \<le> 63) (core s @ (replicate k (CHR ''='') @ [NUL])) =
      core s @ takeWhile (\<lambda>c. six c \<le> 63) (replicate k (CHR ''='') @ [NUL])"
    using core_digits by (intro takeWhile_append2) blast
  also have "takeWhile (\<lambda>c. six c \<le> 63) (replicate k (CHR ''='') @ [NUL]) = []"
    by (cases k) (simp_all add: six_pad)
  finally show ?thesis by (simp add: coded_prefix_def k)
qed

lemma decode_core: "decode_from (core s) = s"
proof (induction s rule: core.induct)
  case (1 a b c s)
  show ?case
  proof (cases "core s")
    case Nil
    then show ?thesis by (simp add: core_empty decode_group)
  next
    case (Cons d ds)
    with 1 show ?thesis by (simp add: decode_group)
  qed
qed (simp_all add: decode_group)

lemma length_core: "length (core s) = 4 * (length s div 3) + (if length s mod 3 = 0 then 0 else length s mod 3 + 1)"
proof (induction s rule: core.induct)
  case (1 a b c s)
  have "length (a # b # c # s) = length s + 3" by simp
  moreover have "(length s + 3) div 3 = length s div 3 + 1" "(length s + 3) mod 3 = length s mod 3" by simp_all
  moreover have "length (core (a # b # c # s)) = 4 + length (core s)" by simp
  ultimately show ?case using 1 by (simp only: add_mult_distrib2)
qed simp_all

lemma length_encode: "int (length (encode_from s)) = (int (length s) + 2) div 3 * 4"
proof (induction s rule: encode_from.induct)
  case (1 a b c s)
  have "(int (length s) + 3 + 2) div 3 = (int (length s) + 2) div 3 + 1" by simp
  with 1 show ?case by simp
qed simp_all

lemma decoded_count:
  assumes "n = 4 * k + (if r = 0 then 0 else r + 1)" "0 \<le> k" "r \<in> {0, 1, 2}"
  shows "c_div (n + 3) 4 * 3 - ((4 - (if n = 0 then 0 else (n - 1) mod 4 + 1)) AND 3) = 3 * k + (r :: int)"
proof -
  have m: "(4 * k - 1) mod 4 = 3" by presburger
  consider "r = 0" | "r = 1" | "r = 2" using assms(3) by auto
  then show ?thesis
  proof cases
    case 1
    then have "(n + 3) div 4 = k" using assms by simp
    with 1 assms m show ?thesis by (auto simp: and_low)
  next
    case 2
    then have "(n + 3) div 4 = k + 1" "(n - 1) mod 4 = 1" "n > 0" using assms by simp_all
    then show ?thesis using 2 assms by (simp add: and_low)
  next
    case 3
    then have "(n + 3) div 4 = k + 1" "(n - 1) mod 4 = 2" "n > 0" using assms by simp_all
    then show ?thesis using 3 assms by (simp add: and_low)
  qed
qed

lemma encode_no_NUL: "NUL \<notin> set (encode_from s)"
proof -
  obtain k where k: "encode_from s = core s @ replicate k (CHR ''='')" using encode_core by blast
  show ?thesis using core_digits [of NUL s] six_pad by (auto simp: k)
qed

lemma encode_c_string: "c_string_at (encode_from s @ [NUL]) 0 = Some (encode_from s)"
  using c_string_at_append [OF encode_no_NUL, of "[]" s "[]"] by simp

lemma basis_printable: "0 \<le> v \<Longrightarrow> v < 64 \<Longrightarrow> 16 \<le> byte_of (basis v) \<and> byte_of (basis v) < 128"
proof -
  have a: "list_all (\<lambda>c. 16 \<le> byte_of c \<and> byte_of c < 128) basis_64"
    by (simp add: basis_64_def byte_of_def)
  assume v: "0 \<le> v" "v < 64"
  have "basis v \<in> set basis_64" unfolding basis_def using v by (intro nth_mem) (simp add: basis_64_def)
  with a show ?thesis by (simp add: list_all_iff)
qed

lemma encode_from_printable: "c \<in> set (encode_from s) \<Longrightarrow> 16 \<le> byte_of c \<and> byte_of c < 128"
proof -
  have p: "16 \<le> byte_of (basis (digit1 a)) \<and> byte_of (basis (digit1 a)) < 128"
    "16 \<le> byte_of (basis (digit2 a b)) \<and> byte_of (basis (digit2 a b)) < 128"
    "16 \<le> byte_of (basis (digit3 b c)) \<and> byte_of (basis (digit3 b c)) < 128"
    "16 \<le> byte_of (basis (digit4 c)) \<and> byte_of (basis (digit4 c)) < 128" for a b c
    by (rule basis_printable; rule digits_in_range)+
  have e: "16 \<le> byte_of (CHR ''='') \<and> byte_of (CHR ''='') < 128" by (simp add: byte_of_def)
  show "c \<in> set (encode_from s) \<Longrightarrow> 16 \<le> byte_of c \<and> byte_of c < 128"
  proof (induction s rule: encode_from.induct)
    case (1 a b d s)
    then consider "c \<in> {basis (digit1 a), basis (digit2 a b), basis (digit3 b d), basis (digit4 d)}"
      | "c \<in> set (encode_from s)" by auto
    then show ?case
      by cases (use p in blast, use 1 in blast)
  next
    case (2 a b)
    then have "c \<in> {basis (digit1 a), basis (digit2 a b), basis (digit3 b NUL), CHR ''=''}"
      by (simp only: encode_from.simps tail_digits set_simps) 
    then show ?case using p e by blast
  next
    case (3 a)
    then have "c \<in> {basis (digit1 a), basis (digit2 a NUL), CHR ''=''}"
      by (simp only: encode_from.simps tail_digits set_simps) blast
    then show ?case using p e by blast
  qed simp
qed

lemma decode_encoded: "Base64decode (encode_from s @ [NUL]) = (s @ [NUL], int (length s))"
proof -
  let ?n = "int (length (core s))"
  have "int (length s mod 3) \<in> {0, 1, 2}" by auto
  moreover have "?n = 4 * int (length s div 3) +
      (if int (length s mod 3) = 0 then 0 else int (length s mod 3) + 1)"
    by (simp add: length_core)
  ultimately have "c_div (?n + 3) 4 * 3 - ((4 - (if ?n = 0 then 0 else (?n - 1) mod 4 + 1)) AND 3) =
      3 * int (length s div 3) + int (length s mod 3)"
    by (intro decoded_count) simp_all
  also have "\<dots> = int (length s)" by (metis of_nat_add of_nat_mult of_nat_numeral mult_div_mod_eq)
  finally show ?thesis
    unfolding Base64decode_def coded_prefix_encode Let_def decode_core by simp
qed

text \<open>The decoder's C string, read back as the bytes before its end.\<close>

definition decode_text :: "string \<Rightarrow> string option" where
  "decode_text b = Some (butlast (fst (Base64decode (b @ [NUL]))))"

interpretation b64: codec encode_from decode_text "\<lambda>s. True"
  by unfold_locales (simp add: decode_text_def decode_encoded)

section \<open>Properties\<close>

text \<open>C29. Base64 encoding loses nothing: for every byte string, decoding the encoder's output gives
  the string back with its length; the encoder writes exactly the number of characters that
  \<^verbatim>\<open>Base64encode_len\<close> tells its callers to allocate, and what it writes is a C string.\<close>

theorem Base64_round_trip:
  "Base64decode (fst (Base64encode s)) = (s @ [NUL], int (length s)) \<and>
   snd (Base64encode s) = Base64encode_len (int (length s)) \<and>
   int (length (fst (Base64encode s))) = Base64encode_len (int (length s)) \<and>
   c_string_at (fst (Base64encode s)) 0 = Some (encode_from s)"
proof -
  have e: "fst (Base64encode s) = encode_from s @ [NUL]" "snd (Base64encode s) = int (length (encode_from s)) + 1"
    by (simp_all add: Base64encode_def)
  have l: "int (length (encode_from s)) + 1 = Base64encode_len (int (length s))"
    by (simp add: length_encode Base64encode_len_def)
  show ?thesis using e l decode_encoded encode_c_string by simp
qed

end
