(* ===== verification/Doubles.thy ===== *)
theory Doubles
  imports Prelude Complex_Main
begin

text \<open>
  The C++ type \<^verbatim>\<open>double\<close> as IEEE 754 binary64: a finite number is a rational, \<open>fl\<close> rounds the
  exact result of an operation to the nearest representable number (ties to even), and overflow,
  division by zero and invalid operations give the infinities and NaN. The sign of zero is not
  kept: the program divides by differences of integer times, whose zero is positive.
\<close>

section \<open>Rounding\<close>

fun nlog2 :: "nat \<Rightarrow> nat" where
  "nlog2 n = (if n < 2 then 0 else Suc (nlog2 (n div 2)))"

declare nlog2.simps [simp del]

text \<open>The exponent of the leading bit of a positive rational.\<close>

definition ilog2 :: "rat \<Rightarrow> int" where
  "ilog2 x =
     (let (p, q) = quotient_of x; e = int (nlog2 (nat p)) - int (nlog2 (nat q))
      in if 2 powi e \<le> x then e else e - 1)"

definition round_even :: "rat \<Rightarrow> int" where
  "round_even r =
     (let f = \<lfloor>r\<rfloor>; d = r - of_int f
      in if d < 1 / 2 then f else if d > 1 / 2 then f + 1 else if even f then f else f + 1)"

definition ulp_exp :: "rat \<Rightarrow> int" where
  "ulp_exp x = max (ilog2 \<bar>x\<bar> - 52) (- 1074)"

definition rnd :: "rat \<Rightarrow> rat" where
  "rnd x = (if x = 0 then 0 else of_int (round_even (x / 2 powi ulp_exp x)) * 2 powi ulp_exp x)"

datatype double = Fin rat | Inf bool | NaN    \<comment> \<open>\<open>Inf True\<close> is negative\<close>

definition fl :: "rat \<Rightarrow> double" where
  "fl x = (if \<bar>rnd x\<bar> \<ge> 2 powi 1024 then Inf (x < 0) else Fin (rnd x))"

section \<open>Operations\<close>

definition d_of_int :: "int \<Rightarrow> double" where
  "d_of_int i = fl (of_int i)"

fun dneg :: "double \<Rightarrow> double" where
  "dneg (Fin x) = Fin (- x)"
| "dneg (Inf s) = Inf (\<not> s)"
| "dneg NaN = NaN"

fun dadd :: "double \<Rightarrow> double \<Rightarrow> double" where
  "dadd (Fin x) (Fin y) = fl (x + y)"
| "dadd NaN _ = NaN"
| "dadd _ NaN = NaN"
| "dadd (Inf s) (Inf t) = (if s = t then Inf s else NaN)"
| "dadd (Inf s) (Fin _) = Inf s"
| "dadd (Fin _) (Inf t) = Inf t"

definition dsub :: "double \<Rightarrow> double \<Rightarrow> double" where
  "dsub a b = dadd a (dneg b)"

fun dmul :: "double \<Rightarrow> double \<Rightarrow> double" where
  "dmul (Fin x) (Fin y) = fl (x * y)"
| "dmul NaN _ = NaN"
| "dmul _ NaN = NaN"
| "dmul (Inf s) (Inf t) = Inf (s \<noteq> t)"
| "dmul (Inf s) (Fin x) = (if x = 0 then NaN else Inf (s \<noteq> (x < 0)))"
| "dmul (Fin x) (Inf s) = (if x = 0 then NaN else Inf (s \<noteq> (x < 0)))"

fun ddiv :: "double \<Rightarrow> double \<Rightarrow> double" where
  "ddiv (Fin x) (Fin y) =
     (if y = 0 then if x = 0 then NaN else Inf (x < 0) else fl (x / y))"
| "ddiv NaN _ = NaN"
| "ddiv _ NaN = NaN"
| "ddiv (Inf _) (Inf _) = NaN"
| "ddiv (Inf s) (Fin x) = Inf (s \<noteq> (x < 0))"
| "ddiv (Fin _) (Inf _) = Fin 0"

text \<open>The comparison \<open><\<close>, false on NaN.\<close>

fun dless :: "double \<Rightarrow> double \<Rightarrow> bool" where
  "dless (Fin x) (Fin y) \<longleftrightarrow> x < y"
| "dless NaN _ \<longleftrightarrow> False"
| "dless _ NaN \<longleftrightarrow> False"
| "dless (Inf s) (Inf t) \<longleftrightarrow> s \<and> \<not> t"
| "dless (Inf s) (Fin _) \<longleftrightarrow> s"
| "dless (Fin _) (Inf t) \<longleftrightarrow> \<not> t"

fun dle :: "double \<Rightarrow> double \<Rightarrow> bool" where
  "dle (Fin x) (Fin y) \<longleftrightarrow> x \<le> y"
| "dle NaN _ \<longleftrightarrow> False"
| "dle _ NaN \<longleftrightarrow> False"
| "dle (Inf s) (Inf t) \<longleftrightarrow> s \<or> \<not> t"
| "dle (Inf s) (Fin _) \<longleftrightarrow> s"
| "dle (Fin _) (Inf t) \<longleftrightarrow> \<not> t"

text \<open>Conversion to an unsigned 64-bit integer cuts the fraction; outside the range it is undefined.\<close>

fun d_to_uint64 :: "double \<Rightarrow> nat option" where
  "d_to_uint64 (Fin x) = (if - 1 < x \<and> x < 2 ^ 64 then Some (nat \<lfloor>x\<rfloor>) else None)"
| "d_to_uint64 _ = None"

text \<open>\<^verbatim>\<open>(long)floor(x)\<close>.\<close>

fun d_floor_long :: "double \<Rightarrow> int option" where
  "d_floor_long (Fin x) = (if - (2 ^ 63) \<le> x \<and> x < 2 ^ 63 then Some \<lfloor>x\<rfloor> else None)"
| "d_floor_long _ = None"

section \<open>Correct rounding\<close>

lemma nlog2_bounds: "0 < n \<Longrightarrow> 2 ^ nlog2 n \<le> n \<and> n < 2 ^ Suc (nlog2 n)"
proof (induction n rule: nlog2.induct)
  case (1 n)
  show ?case
  proof (cases "n < 2")
    case True
    with "1.prems" show ?thesis by (simp add: nlog2.simps [of n])
  next
    case False
    with "1.IH" have "2 ^ nlog2 (n div 2) \<le> n div 2 \<and> n div 2 < 2 ^ Suc (nlog2 (n div 2))" by simp
    with False show ?thesis by (simp add: nlog2.simps [of n]) linarith
  qed
qed

lemma ilog2_bounds:
  assumes "0 < x"
  shows "2 powi ilog2 x \<le> x" "x < 2 powi (ilog2 x + 1)"
proof -
  obtain p q where pq: "quotient_of x = (p, q)" by (cases "quotient_of x")
  have q: "0 < q" using quotient_of_denom_pos [OF pq] .
  have x: "x = of_int p / of_int q" using quotient_of_div [OF pq] .
  with assms q have p: "0 < p" by (simp add: zero_less_divide_iff)
  let ?a = "nlog2 (nat p)" and ?b = "nlog2 (nat q)"
  have "2 ^ ?a \<le> nat p" "nat p < 2 ^ Suc ?a" "2 ^ ?b \<le> nat q" "nat q < 2 ^ Suc ?b"
    using nlog2_bounds [of "nat p"] nlog2_bounds [of "nat q"] p q by auto
  then have "(2::int) ^ ?a \<le> p" "p < 2 ^ Suc ?a" "(2::int) ^ ?b \<le> q" "q < 2 ^ Suc ?b"
    using p q by (simp_all add: nat_le_eq_zle le_nat_iff nat_less_iff)
  then have r: "(2::rat) ^ ?a \<le> of_int p" "of_int p < (2::rat) ^ Suc ?a"
    "(2::rat) ^ ?b \<le> of_int q" "of_int q < (2::rat) ^ Suc ?b"
    by (metis of_int_le_iff of_int_less_iff of_int_numeral of_int_power)+
  have hi: "x < 2 powi (int ?a - int ?b + 1)"
  proof -
    have "x < 2 ^ Suc ?a / 2 ^ ?b"
      unfolding x using r q p by (intro frac_less) auto
    then show ?thesis by (simp add: power_int_diff power_int_add mult.commute)
  qed
  have lo: "2 powi (int ?a - int ?b - 1) \<le> x"
  proof -
    have "2 ^ ?a / 2 ^ Suc ?b \<le> x"
      unfolding x using r q p by (intro frac_le) auto
    then show ?thesis by (simp add: power_int_diff)
  qed
  show "2 powi ilog2 x \<le> x" "x < 2 powi (ilog2 x + 1)"
    using hi lo by (auto simp: ilog2_def pq Let_def)
qed

lemma ilog2_mono:
  assumes "0 < x" "x \<le> y"
  shows "ilog2 x \<le> ilog2 y"
proof (rule ccontr)
  assume "\<not> ilog2 x \<le> ilog2 y"
  then have "ilog2 y + 1 \<le> ilog2 x" by simp
  then have "(2::rat) powi (ilog2 y + 1) \<le> 2 powi ilog2 x" by (intro power_int_increasing) auto
  with ilog2_bounds [of x] ilog2_bounds [of y] assms show False by linarith
qed

lemma round_even_near: "\<bar>of_int (round_even r) - r\<bar> \<le> 1 / 2"
proof -
  have "0 \<le> r - of_int \<lfloor>r\<rfloor>" "r - of_int \<lfloor>r\<rfloor> < 1" by linarith+
  then show ?thesis by (auto simp: round_even_def Let_def)
qed

lemma round_even_int [simp]: "round_even (of_int i) = i"
  by (simp add: round_even_def)

lemma round_even_mono: "r \<le> s \<Longrightarrow> round_even r \<le> round_even s"
proof -
  assume le: "r \<le> s"
  then have f: "\<lfloor>r\<rfloor> \<le> \<lfloor>s\<rfloor>" by (rule floor_mono)
  show ?thesis
  proof (cases "\<lfloor>r\<rfloor> = \<lfloor>s\<rfloor>")
    case True
    then show ?thesis using le by (auto simp: round_even_def Let_def)
  next
    case False
    with f have "\<lfloor>r\<rfloor> + 1 \<le> \<lfloor>s\<rfloor>" by simp
    moreover have "round_even r \<le> \<lfloor>r\<rfloor> + 1" "\<lfloor>s\<rfloor> \<le> round_even s"
      by (auto simp: round_even_def Let_def)
    ultimately show ?thesis by linarith
  qed
qed

text \<open>Rounding keeps the order of a number and any integer multiple of a power of two that is not
  finer than the number's own unit.\<close>

lemma powi_split: "e \<le> k \<Longrightarrow> (2::rat) powi k = of_int (2 ^ nat (k - e)) * 2 powi e"
proof -
  assume "e \<le> k"
  then have "(2::rat) powi k = 2 powi (int (nat (k - e)) + e)" by simp
  also have "\<dots> = 2 powi int (nat (k - e)) * 2 powi e" by (rule power_int_add) simp
  also have "(2::rat) powi int (nat (k - e)) = of_int (2 ^ nat (k - e))"
    unfolding power_int_of_nat by simp
  finally show ?thesis .
qed

lemma rnd_le_multiple:
  assumes "0 < x" "x \<le> of_int m * 2 powi k" "ulp_exp x \<le> k"
  shows "rnd x \<le> of_int m * 2 powi k"
proof -
  let ?e = "ulp_exp x"
  have eq: "(of_int m * 2 powi k :: rat) = of_int (m * 2 ^ nat (k - ?e)) * 2 powi ?e"
    using powi_split [OF assms(3)] by simp
  have "x / 2 powi ?e \<le> of_int (m * 2 ^ nat (k - ?e))"
    using assms(2) unfolding eq by (simp add: divide_le_eq)
  then have "round_even (x / 2 powi ?e) \<le> m * 2 ^ nat (k - ?e)"
    using round_even_mono [of _ "of_int (m * 2 ^ nat (k - ?e))"] by (metis round_even_int)
  then have "of_int (round_even (x / 2 powi ?e)) * (2::rat) powi ?e \<le> of_int (m * 2 ^ nat (k - ?e)) * 2 powi ?e"
    by (intro mult_right_mono) (simp_all only: of_int_le_iff zero_le_power_int zero_le_numeral)
  then show ?thesis unfolding eq using assms(1) by (simp add: rnd_def)
qed

lemma rnd_ge_multiple:
  assumes "0 < x" "of_int m * 2 powi k \<le> x" "ulp_exp x \<le> k"
  shows "of_int m * 2 powi k \<le> rnd x"
proof -
  let ?e = "ulp_exp x"
  have eq: "(of_int m * 2 powi k :: rat) = of_int (m * 2 ^ nat (k - ?e)) * 2 powi ?e"
    using powi_split [OF assms(3)] by simp
  have "of_int (m * 2 ^ nat (k - ?e)) \<le> x / 2 powi ?e"
    using assms(2) unfolding eq by (simp add: le_divide_eq)
  then have "m * 2 ^ nat (k - ?e) \<le> round_even (x / 2 powi ?e)"
    using round_even_mono [of "of_int (m * 2 ^ nat (k - ?e))"] by (metis round_even_int)
  then have "of_int (m * 2 ^ nat (k - ?e)) * (2::rat) powi ?e \<le> of_int (round_even (x / 2 powi ?e)) * 2 powi ?e"
    by (intro mult_right_mono) (simp_all only: of_int_le_iff zero_le_power_int zero_le_numeral)
  then show ?thesis unfolding eq using assms(1) by (simp add: rnd_def)
qed

lemma rnd_exact:
  assumes "0 < x" "x = of_int m * 2 powi k" "ulp_exp x \<le> k"
  shows "rnd x = x"
  using rnd_le_multiple [OF assms(1) _ assms(3), of m] rnd_ge_multiple [OF assms(1) _ assms(3), of m] assms(2)
  by simp

lemma rnd_zero [simp]: "rnd 0 = 0"
  by (simp add: rnd_def)

lemma rnd_nonneg: "0 \<le> x \<Longrightarrow> 0 \<le> rnd x"
  using rnd_ge_multiple [of x 0 "ulp_exp x"] by (cases "x = 0") auto

lemma ulp_exp_mono: "0 < x \<Longrightarrow> x \<le> y \<Longrightarrow> ulp_exp x \<le> ulp_exp y"
  using ilog2_mono [of x y] by (auto simp: ulp_exp_def)

lemma rnd_mono_pos:
  assumes "0 < x" "x \<le> y"
  shows "rnd x \<le> rnd y"
proof (cases "ulp_exp x = ulp_exp y")
  case True
  let ?e = "ulp_exp x"
  have "x / 2 powi ?e \<le> y / 2 powi ?e" using assms(2) by (intro divide_right_mono) auto
  then have "round_even (x / 2 powi ?e) \<le> round_even (y / 2 powi ?e)" by (rule round_even_mono)
  then have "(of_int (round_even (x / 2 powi ?e)) :: rat) * 2 powi ?e \<le> of_int (round_even (y / 2 powi ?e)) * 2 powi ?e"
    by (intro mult_right_mono) simp_all
  then show ?thesis using assms True by (simp add: rnd_def)
next
  case False
  with ulp_exp_mono [OF assms] have lt: "ulp_exp x < ulp_exp y" by simp
  have y: "0 < y" using assms by simp
  let ?k = "ilog2 y"
  from lt have k: "ulp_exp y \<le> ?k" "ulp_exp x \<le> ?k" "ilog2 x + 1 \<le> ?k"
    using assms y by (auto simp: ulp_exp_def split: if_splits)
  have "x < 2 powi (ilog2 x + 1)" using ilog2_bounds(2) [OF assms(1)] .
  also have "\<dots> \<le> (2::rat) powi ?k" using k(3) by (intro power_int_increasing) auto
  finally have "rnd x \<le> of_int 1 * 2 powi ?k"
    using assms(1) k(2) by (intro rnd_le_multiple) auto
  also have "\<dots> \<le> rnd y"
    using y k(1) ilog2_bounds(1) [OF y] by (intro rnd_ge_multiple) auto
  finally show ?thesis .
qed

lemma rnd_mono: "0 \<le> x \<Longrightarrow> x \<le> y \<Longrightarrow> rnd x \<le> rnd y"
  using rnd_mono_pos [of x y] rnd_nonneg [of y] by (cases "x = 0") auto

lemma ilog2_le:
  assumes "0 < x" "x < 2 powi (k + 1)"
  shows "ilog2 x \<le> k"
proof (rule ccontr)
  assume "\<not> ilog2 x \<le> k"
  then have "(2::rat) powi (k + 1) \<le> 2 powi ilog2 x" by (intro power_int_increasing) auto
  with ilog2_bounds(1) [OF assms(1)] assms(2) show False by linarith
qed

lemma ilog2_ge:
  assumes "2 powi k \<le> x"
  shows "k \<le> ilog2 x"
proof (rule ccontr)
  assume "\<not> k \<le> ilog2 x"
  then have "(2::rat) powi (ilog2 x + 1) \<le> 2 powi k" by (intro power_int_increasing) auto
  moreover have "0 < x" using assms zero_less_power_int [of "2::rat" k] by linarith
  ultimately show False using ilog2_bounds(2) [of x] assms by linarith
qed

lemma rnd_int:
  assumes "0 \<le> i" "i \<le> 2 ^ 53"
  shows "rnd (of_int i) = of_int i"
proof (cases "i = 0 \<or> i = 2 ^ 53")
  case True
  have "ulp_exp (2 ^ 53) \<le> 1"
    using ilog2_le [of "2 ^ 53" 53] by (simp add: ulp_exp_def power_int_def)
  with True show ?thesis
    using rnd_exact [of "2 ^ 53" "2 ^ 52" 1] by auto
next
  case False
  with assms have i: "0 < i" "i < 2 ^ 53" by auto
  have "(of_int i :: rat) < of_int (2 ^ 53)" using i(2) by (simp only: of_int_less_iff)
  then have "ilog2 (of_int i) \<le> 52" using i(1) by (intro ilog2_le) simp_all
  then show ?thesis using i(1) by (intro rnd_exact [of _ i 0]) (simp_all add: ulp_exp_def)
qed

text \<open>The relative error of a rounding is at most half a unit in the last of 53 bits.\<close>

lemma rnd_error:
  assumes "2 powi (- 1022) \<le> x"
  shows "\<bar>rnd x - x\<bar> \<le> x * 2 powi (- 53)"
proof -
  have pos: "0 < x" using assms zero_less_power_int [of "2::rat" "- 1022"] by linarith
  have e: "ulp_exp x = ilog2 x - 52" using ilog2_ge [OF assms] pos by (simp add: ulp_exp_def)
  let ?u = "(2::rat) powi ulp_exp x"
  have "rnd x - x = (of_int (round_even (x / ?u)) - x / ?u) * ?u"
    using pos by (simp add: rnd_def algebra_simps)
  then have "\<bar>rnd x - x\<bar> = \<bar>of_int (round_even (x / ?u)) - x / ?u\<bar> * ?u"
    by (simp add: abs_mult)
  also have "\<dots> \<le> 1 / 2 * ?u" by (intro mult_right_mono round_even_near) simp
  also have "\<dots> = 2 powi ilog2 x * 2 powi (- 53)"
    unfolding e by (simp add: power_int_diff power_int_minus)
  also have "\<dots> \<le> x * 2 powi (- 53)" using ilog2_bounds(1) [OF pos] by (intro mult_right_mono) auto
  finally show ?thesis .
qed

lemma fl_Fin:
  assumes "0 \<le> x" "x \<le> 2 powi 1023"
  shows "fl x = Fin (rnd x)"
proof -
  have "rnd x \<le> 2 powi 1023"
  proof (cases "x = 0")
    case False
    then have "0 < x" using assms(1) by simp
    have "(2::rat) powi 1023 < 2 powi (1023 + 1)" by (intro power_int_strict_increasing) auto
    then have "ilog2 x \<le> 1023" using \<open>0 < x\<close> assms(2) by (intro ilog2_le) auto
    then have "ulp_exp x \<le> 1023" using \<open>0 < x\<close> by (simp add: ulp_exp_def)
    then show ?thesis using rnd_le_multiple [OF \<open>0 < x\<close>, of 1 1023] assms(2) by simp
  qed simp
  also have "(2::rat) powi 1023 < 2 powi 1024" by (intro power_int_strict_increasing) auto
  finally show ?thesis using rnd_nonneg [OF assms(1)] by (simp add: fl_def)
qed

lemma fl_mono:
  assumes "0 \<le> x" "x \<le> y"
  shows "dle (fl x) (fl y)"
proof -
  have "0 \<le> rnd x" "rnd x \<le> rnd y" using assms by (auto intro: rnd_nonneg rnd_mono)
  then show ?thesis using assms by (auto simp: fl_def)
qed

lemma dle_trans: "dle a b \<Longrightarrow> dle b c \<Longrightarrow> dle a c"
  by (cases a; cases b; cases c) auto

end
