(* ===== verification/Apib_Time.thy ===== *)
theory Apib_Time
  imports Doubles
begin

text \<open>
  \<^verbatim>\<open>apib/apib_time.{h,cc}\<close>: nanosecond timestamps and their conversion to seconds and
  milliseconds. The clock's answer is an argument of \<open>GetTime\<close>.
\<close>

definition kNanosecond :: int where "kNanosecond = 1000000000"
definition kNanosecondF :: double where "kNanosecondF = Fin 1000000000"
definition kMillisecondF :: double where "kMillisecondF = Fin 1000"

definition GetTime :: "int \<Rightarrow> int \<Rightarrow> int" where
  "GetTime tv_sec tv_nsec = tv_sec * kNanosecond + tv_nsec"

definition Seconds :: "int \<Rightarrow> double" where
  "Seconds t = ddiv (d_of_int t) kNanosecondF"

definition Milliseconds :: "int \<Rightarrow> double" where
  "Milliseconds t = ddiv (d_of_int t) (ddiv kNanosecondF kMillisecondF)"

lemma two_powi_63: "(2::rat) ^ 63 \<le> 2 powi 1023"
proof -
  have "(2::rat) powi 63 \<le> 2 powi 1023" by (intro power_int_increasing) auto
  then show ?thesis by (simp add: power_int_def)
qed

lemma d_of_int_Fin:
  assumes "0 \<le> t" "t < 2 ^ 63"
  shows "d_of_int t = Fin (rnd (of_int t))" "0 \<le> rnd (of_int t)" "rnd (of_int t) \<le> 2 ^ 63"
proof -
  have le: "(of_int t :: rat) \<le> 2 ^ 63" using assms(2) by (metis less_imp_le of_int_le_iff of_int_numeral of_int_power)
  with assms(1) show "d_of_int t = Fin (rnd (of_int t))"
    using two_powi_63 by (simp add: d_of_int_def fl_Fin)
  show "0 \<le> rnd (of_int t)" using assms(1) by (simp add: rnd_nonneg)
  have "rnd (of_int t) \<le> rnd (2 ^ 63)" using assms(1) le by (intro rnd_mono) auto
  also have "rnd ((2::rat) ^ 63) = 2 ^ 63"
  proof -
    have "ulp_exp ((2::rat) ^ 63) \<le> 63"
      using ilog2_le [of "2 ^ 63" 63] by (simp add: ulp_exp_def power_int_def)
    then show ?thesis by (intro rnd_exact [of _ 1 63]) (simp_all add: power_int_def)
  qed
  finally show "rnd (of_int t) \<le> 2 ^ 63" .
qed

lemma million: "ddiv kNanosecondF kMillisecondF = Fin 1000000"
proof -
  have "rnd (of_int 1000000) = of_int 1000000" by (rule rnd_int) simp_all
  then have "rnd 1000000 = 1000000" by simp
  moreover have "(1000000::rat) \<le> 2 powi 1023" using two_powi_63 by (rule order.trans [rotated]) simp
  ultimately show ?thesis by (simp add: kNanosecondF_def kMillisecondF_def fl_Fin)
qed

lemma scaled_mono:
  assumes "0 \<le> s" "s \<le> t" "t < 2 ^ 63" "0 < d"
  shows "dle (ddiv (d_of_int s) (Fin d)) (ddiv (d_of_int t) (Fin d))"
proof -
  have st: "d_of_int s = Fin (rnd (of_int s))" "d_of_int t = Fin (rnd (of_int t))" "0 \<le> rnd (of_int s)"
    using d_of_int_Fin [of s] d_of_int_Fin [of t] assms by auto
  have "rnd (of_int s) \<le> rnd (of_int t)" using assms by (intro rnd_mono) auto
  then show ?thesis using st assms(4) by (simp add: fl_mono divide_right_mono)
qed

lemma Milliseconds_mono: "0 \<le> s \<Longrightarrow> s \<le> t \<Longrightarrow> t < 2 ^ 63 \<Longrightarrow> dle (Milliseconds s) (Milliseconds t)"
  unfolding Milliseconds_def million by (rule scaled_mono) auto

lemma Seconds_mono: "0 \<le> s \<Longrightarrow> s \<le> t \<Longrightarrow> t < 2 ^ 63 \<Longrightarrow> dle (Seconds s) (Seconds t)"
  unfolding Seconds_def kNanosecondF_def by (rule scaled_mono) auto

lemma scaled_Fin:
  assumes "0 \<le> t" "t < 2 ^ 63" "1 \<le> d"
  shows "ddiv (d_of_int t) (Fin d) = Fin (rnd (rnd (of_int t) / d))" "0 \<le> rnd (rnd (of_int t) / d)"
proof -
  note t = d_of_int_Fin [OF assms(1,2)]
  have "rnd (of_int t) / d \<le> rnd (of_int t) / 1"
    using t(2) assms(3) by (intro divide_left_mono) auto
  with t(3) two_powi_63 have "rnd (of_int t) / d \<le> 2 powi 1023" by simp
  then show "ddiv (d_of_int t) (Fin d) = Fin (rnd (rnd (of_int t) / d))" "0 \<le> rnd (rnd (of_int t) / d)"
    using t assms(3) by (simp_all add: fl_Fin rnd_nonneg)
qed

end
