(* ===== verification/Number_Text.thy ===== *)
theory Number_Text
  imports CText Doubles
begin

text \<open>
  Numbers of type \<^verbatim>\<open>double\<close> as text: the fixed-point format of the reports and of the monitoring
  server (\<^verbatim>\<open>%.nf\<close>, \<^verbatim>\<open>std::fixed\<close>), and \<^verbatim>\<open>strtod\<close>, which reads what the server sends.
  \<^verbatim>\<open>strtod\<close> works on memory: it looks at one character after the number, and \<^const>\<open>None\<close> means
  that it looked past the end of the object.
\<close>

section \<open>Printing\<close>

definition pad_zeros :: "nat \<Rightarrow> string \<Rightarrow> string" where
  "pad_zeros n s = replicate (n - length s) (CHR ''0'') @ s"

definition fixed_nat :: "nat \<Rightarrow> nat \<Rightarrow> string" where
  "fixed_nat d m =
     show_nat (m div 10 ^ d) @ (if d = 0 then [] else CHR ''.'' # pad_zeros d (show_nat (m mod 10 ^ d)))"

text \<open>The exact value is rounded, ties to even, to \<open>d\<close> decimals.\<close>

fun fixed :: "nat \<Rightarrow> double \<Rightarrow> string" where
  "fixed d (Fin x) = (if x < 0 then ''-'' else '''') @ fixed_nat d (nat (round_even (\<bar>x\<bar> * 10 ^ d)))"
| "fixed d (Inf s) = (if s then ''-inf'' else ''inf'')"
| "fixed d NaN = ''nan''"

section \<open>Reading\<close>

text \<open>A run of digits with the character after it still to be read.\<close>

fun digit_run :: "nat \<Rightarrow> string \<Rightarrow> (nat list \<times> string) option" where
  "digit_run b [] = None"
| "digit_run b (c # s) =
     (if is_base_digit b c then do {
        (ds, r) \<leftarrow> digit_run b s;
        Some (the (digit_value c) # ds, r)
      } else Some ([], c # s))"

text \<open>Digits with an optional fraction: the digits, how many follow the point, and the rest.\<close>

definition mantissa :: "nat \<Rightarrow> string \<Rightarrow> (nat list \<times> nat \<times> string) option" where
  "mantissa b s = do {
     (ds, r) \<leftarrow> digit_run b s;
     if r \<noteq> [] \<and> hd r = CHR ''.'' then do {
       (fs, r') \<leftarrow> digit_run b (tl r);
       Some (ds @ fs, length fs, r')
     } else Some (ds, 0, r)
   }"

text \<open>An exponent counts only when it has a digit.\<close>

definition exponent :: "char \<Rightarrow> string \<Rightarrow> int option" where
  "exponent e s =
     (if s = [] then None
      else if tolower (hd s) \<noteq> e then Some 0
      else if tl s = [] then None
      else let sgn = hd (tl s); t = (if sgn = CHR ''-'' \<or> sgn = CHR ''+'' then tl (tl s) else tl s) in do {
        (ds, r) \<leftarrow> digit_run 10 t;
        Some (if sgn = CHR ''-'' then - int (digits_val 10 ds) else int (digits_val 10 ds))
      })"

definition starts_with :: "string \<Rightarrow> string \<Rightarrow> bool" where
  "starts_with p s \<longleftrightarrow> map tolower (take (length p) s) = p"

fun skip_spaces :: "string \<Rightarrow> string option" where
  "skip_spaces [] = None"
| "skip_spaces (c # s) = (if isspace c then skip_spaces s else Some (c # s))"

definition scaled :: "nat \<Rightarrow> nat list \<Rightarrow> nat \<Rightarrow> rat \<Rightarrow> rat" where
  "scaled b ds k e = of_nat (digits_val b ds) / of_nat b ^ k * e"

definition unsigned_double :: "string \<Rightarrow> double option" where
  "unsigned_double s =
     (if starts_with ''inf'' s then Some (Inf False)
      else if starts_with ''nan'' s then Some NaN
      else if starts_with ''0x'' s then do {
        (ds, k, r) \<leftarrow> mantissa 16 (drop 2 s);
        if ds = [] then Some (Fin 0)
        else do { e \<leftarrow> exponent (CHR ''p'') r; Some (fl (scaled 16 ds k (2 powi e))) }
      } else do {
        (ds, k, r) \<leftarrow> mantissa 10 s;
        if ds = [] then Some (Fin 0)
        else do { e \<leftarrow> exponent (CHR ''e'') r; Some (fl (scaled 10 ds k (10 powi e))) }
      })"

definition strtod :: "string \<Rightarrow> double option" where
  "strtod s = do {
     t \<leftarrow> skip_spaces s;
     if hd t = CHR ''-'' then map_option dneg (unsigned_double (tl t))
     else unsigned_double (if hd t = CHR ''+'' then tl t else t)
   }"

section \<open>Reading what was printed\<close>

lemma digit_run_digit_chars:
  "\<forall>d \<in> set ds. d < b \<Longrightarrow> b \<le> 16 \<Longrightarrow> \<not> is_base_digit b c \<Longrightarrow>
     digit_run b (map digit_char ds @ c # s) = Some (ds, c # s)"
  by (induction ds) (auto simp: is_base_digit_digit_char digit_value_digit_char)

lemma digits_val_Nil [simp]: "digits_val b [] = 0"
  by (simp add: digits_val_def)

lemma digits_val_append_list:
  "digits_val b (xs @ ys) = digits_val b xs * b ^ length ys + digits_val b ys"
  by (induction ys rule: rev_induct) (simp_all add: append_assoc [symmetric] algebra_simps del: append_assoc)

lemma digits_val_zeros: "digits_val b (replicate n 0) = 0"
  by (induction n) (simp_all add: replicate_append_same [symmetric])

lemma digits_of_length: "n < 10 ^ d \<Longrightarrow> 0 < d \<Longrightarrow> length (digits_of 10 n) \<le> d"
proof (induction d arbitrary: n)
  case (Suc d)
  show ?case
  proof (cases "n < 10")
    case False
    with Suc.prems have "n div 10 < 10 ^ d" "0 < d" by (cases d; simp add: less_mult_imp_div_less)+
    with Suc.IH False show ?thesis by (simp add: digits_of.simps [of 10 n])
  qed (simp add: digits_of.simps [of 10 n])
qed simp

definition padded_digits :: "nat \<Rightarrow> nat \<Rightarrow> nat list" where
  "padded_digits d n = replicate (d - length (digits_of 10 n)) 0 @ digits_of 10 n"

lemma padded_digits:
  assumes "n < 10 ^ d" "0 < d"
  shows "pad_zeros d (show_nat n) = map digit_char (padded_digits d n)"
    "length (padded_digits d n) = d" "digits_val 10 (padded_digits d n) = n"
    "\<forall>x \<in> set (padded_digits d n). x < 10"
proof -
  have z: "CHR ''0'' = digit_char 0" by (rule injD [of byte_of]) (auto intro: injI simp: byte_of_digit_char, simp add: byte_of_def)
  show "pad_zeros d (show_nat n) = map digit_char (padded_digits d n)"
    by (simp add: pad_zeros_def padded_digits_def show_nat_def z)
  show "length (padded_digits d n) = d"
    using digits_of_length [OF assms] by (simp add: padded_digits_def)
  show "digits_val 10 (padded_digits d n) = n"
    by (simp add: padded_digits_def digits_val_append_list digits_val_zeros digits_val_of)
  show "\<forall>x \<in> set (padded_digits d n). x < 10"
    using digits_of_bound [of 10 _ n] by (auto simp: padded_digits_def)
qed

lemma mantissa_fixed_nat:
  assumes "\<not> is_base_digit 10 c" "c \<noteq> CHR ''.''"
  shows "mantissa 10 (fixed_nat d m @ c # s) =
     Some (digits_of 10 (m div 10 ^ d) @ (if d = 0 then [] else padded_digits d (m mod 10 ^ d)), d, c # s)"
proof (cases "d = 0")
  case True
  have "digit_run 10 (map digit_char (digits_of 10 m) @ c # s) = Some (digits_of 10 m, c # s)"
    using assms(1) digits_of_bound [of 10] by (intro digit_run_digit_chars) auto
  then show ?thesis using True assms(2) by (simp add: mantissa_def fixed_nat_def show_nat_def)
next
  case False
  have lt: "m mod 10 ^ d < 10 ^ d" by simp
  note p = padded_digits [OF lt, OF False [unfolded neq0_conv]]
  have dot: "\<not> is_base_digit 10 (CHR ''.'')" by (simp add: is_base_digit_def digit_value_def is_digit_def is_upper_def is_lower_def byte_of_def)
  have "digit_run 10 (map digit_char (digits_of 10 (m div 10 ^ d)) @ CHR ''.'' # map digit_char (padded_digits d (m mod 10 ^ d)) @ c # s)
      = Some (digits_of 10 (m div 10 ^ d), CHR ''.'' # map digit_char (padded_digits d (m mod 10 ^ d)) @ c # s)"
    using dot digits_of_bound [of 10] by (intro digit_run_digit_chars) auto
  moreover have "digit_run 10 (map digit_char (padded_digits d (m mod 10 ^ d)) @ c # s) = Some (padded_digits d (m mod 10 ^ d), c # s)"
    using assms(1) p(4) by (intro digit_run_digit_chars) auto
  ultimately show ?thesis using False p(1,2) by (simp add: mantissa_def fixed_nat_def show_nat_def)
qed

lemma digit_char_range: "d < 10 \<Longrightarrow> is_digit (digit_char d)"
  by (simp add: is_digit_def byte_of_digit_char)

lemma is_digit_plain:
  assumes "is_digit c"
  shows "tolower c = c" "\<not> isspace c" "c \<noteq> CHR ''-''" "c \<noteq> CHR ''+''" "c \<noteq> CHR ''i''" "c \<noteq> CHR ''n''" "c \<noteq> CHR ''x''"
  using assms by (auto simp: is_digit_def tolower_def is_upper_def isspace_def byte_of_def)

lemma fixed_nat_first:
  obtains c t where "fixed_nat d m = c # t" "is_digit c" "t = [] \<or> hd t = CHR ''.'' \<or> is_digit (hd t)"
proof -
  obtain x ds where ds: "digits_of 10 (m div 10 ^ d) = x # ds"
    using digits_of_nonempty [of 10] by (cases "digits_of 10 (m div 10 ^ d)") auto
  then have "\<forall>y \<in> set (x # ds). y < 10" using digits_of_bound [of 10 _ "m div 10 ^ d"] by auto
  with ds that show ?thesis
    by (cases ds) (auto simp: fixed_nat_def show_nat_def digit_char_range)
qed

lemma fixed_value:
  "digits_val 10 (digits_of 10 (m div 10 ^ d) @ (if d = 0 then [] else padded_digits d (m mod 10 ^ d))) = m"
proof (cases "d = 0")
  case False
  then have "0 < d" by simp
  note p = padded_digits [OF _ this, of "m mod 10 ^ d"]
  show ?thesis using False p by (simp add: digits_val_append_list digits_val_of del: One_nat_def) (rule div_mult_mod_eq)
qed (simp add: digits_val_of)

text \<open>What \<^verbatim>\<open>strtod\<close> makes of a fixed-point number that a character ends which cannot continue it.\<close>

lemma strtod_fixed:
  assumes "0 \<le> x" "\<not> is_base_digit 10 c" "c \<noteq> CHR ''.''" "tolower c \<noteq> CHR ''e''" "tolower c \<noteq> CHR ''x''"
  shows "strtod (fixed d (Fin x) @ c # s) = Some (fl (of_int (round_even (x * 10 ^ d)) / 10 ^ d))"
proof -
  let ?m = "nat (round_even (x * 10 ^ d))"
  obtain h t where h: "fixed_nat d ?m = h # t" "is_digit h" "t = [] \<or> hd t = CHR ''.'' \<or> is_digit (hd t)"
    by (rule fixed_nat_first)
  note hd = is_digit_plain [OF h(2)]
  have x: "tolower (hd (t @ c # s)) \<noteq> CHR ''x''"
  proof (cases t)
    case (Cons a u)
    with h(3) have "a = CHR ''.'' \<or> is_digit a" by simp
    then have "tolower a \<noteq> CHR ''x''"
      using is_digit_plain [of a] by (auto simp: tolower_def is_upper_def byte_of_def)
    with Cons show ?thesis by simp
  qed (use assms(5) in simp)
  have nox: "\<not> starts_with ''0x'' (h # t @ c # s)"
    using x by (cases t) (auto simp: starts_with_def)
  have no: "\<not> starts_with ''inf'' (h # t @ c # s)" "\<not> starts_with ''nan'' (h # t @ c # s)"
    using hd by (auto simp: starts_with_def)
  have nonneg: "0 \<le> round_even (x * 10 ^ d)"
    using round_even_mono [of 0 "x * 10 ^ d"] round_even_int [of 0] assms(1) by simp
  have e: "exponent (CHR ''e'') (c # s) = Some 0" using assms(4) by (simp add: exponent_def)
  let ?ds = "digits_of 10 (?m div 10 ^ d) @ (if d = 0 then [] else padded_digits d (?m mod 10 ^ d))"
  have mant: "mantissa 10 (h # t @ c # s) = Some (?ds, d, c # s)"
    using mantissa_fixed_nat [OF assms(2,3), of d ?m s] h(1) by simp
  have "unsigned_double (h # t @ c # s) = Some (fl (scaled 10 ?ds d 1))"
    using no nox mant e by (simp add: unsigned_double_def)
  moreover have "scaled 10 ?ds d 1 = of_int (round_even (x * 10 ^ d)) / 10 ^ d"
    unfolding scaled_def fixed_value using nonneg by simp
  moreover have "fixed d (Fin x) @ c # s = h # t @ c # s" using assms(1) h(1) by simp
  ultimately show ?thesis using hd by (simp add: strtod_def)
qed


text \<open>A newline after the first nonblank character is enough to keep \<^verbatim>\<open>strtod\<close> inside the object.\<close>

lemma digit_run_LF: "LF \<in> set s \<Longrightarrow> \<exists>ds r. digit_run b s = Some (ds, r) \<and> LF \<in> set r"
proof (induction s)
  case (Cons c s)
  have "\<not> is_base_digit b LF"
    by (simp add: is_base_digit_def digit_value_def is_digit_def is_upper_def is_lower_def byte_of_def)
  then show ?case using Cons by (cases "is_base_digit b c") auto
qed simp

lemma mantissa_LF:
  assumes "LF \<in> set s"
  shows "\<exists>ds k r. mantissa b s = Some (ds, k, r) \<and> LF \<in> set r"
proof -
  obtain ds r where r: "digit_run b s = Some (ds, r)" "LF \<in> set r" using digit_run_LF [OF assms] by blast
  show ?thesis
  proof (cases "r \<noteq> [] \<and> hd r = CHR ''.''")
    case True
    with r(2) have "LF \<in> set (tl r)" by (cases r) auto
    from digit_run_LF [OF this] obtain fs r' where "digit_run b (tl r) = Some (fs, r')" "LF \<in> set r'" by blast
    with r True show ?thesis by (simp add: mantissa_def)
  next
    case False
    then have "mantissa b s = Some (ds, 0, r)" using r(1) by (auto simp: mantissa_def)
    with r(2) show ?thesis by blast
  qed
qed

lemma exponent_LF:
  assumes "LF \<in> set r" "e \<noteq> LF"
  shows "\<exists>v. exponent e r = Some v"
proof (cases "tolower (hd r) = e")
  case True
  have "tolower LF = LF" by (simp add: tolower_def is_upper_def byte_of_def)
  with True assms have t: "LF \<in> set (tl r)" by (cases r) auto
  then have "tl r \<noteq> []" by auto
  moreover have "LF \<in> set (if hd (tl r) = CHR ''-'' \<or> hd (tl r) = CHR ''+'' then tl (tl r) else tl r)"
    using t by (cases "tl r") auto
  from digit_run_LF [OF this] obtain ds u
    where "digit_run 10 (if hd (tl r) = CHR ''-'' \<or> hd (tl r) = CHR ''+'' then tl (tl r) else tl r) = Some (ds, u)" by blast
  ultimately show ?thesis using True assms(1) by (auto simp: exponent_def Let_def)
qed (use assms in \<open>auto simp: exponent_def\<close>)

lemma unsigned_double_LF:
  assumes "LF \<in> set s"
  shows "\<exists>d. unsigned_double s = Some d"
proof -
  have "LF \<in> set (drop 2 s)" if "starts_with ''0x'' s"
  proof -
    from that obtain a b t where "s = a # b # t" "tolower a = CHR ''0''" "tolower b = CHR ''x''"
      by (cases s; cases "tl s") (auto simp: starts_with_def numeral_2_eq_2)
    moreover have "tolower LF = LF" by (simp add: tolower_def is_upper_def byte_of_def)
    ultimately show ?thesis using assms by auto
  qed
  then obtain ds k r where h: "starts_with ''0x'' s \<Longrightarrow> mantissa 16 (drop 2 s) = Some (ds, k, r) \<and> LF \<in> set r"
    using mantissa_LF [of "drop 2 s" 16] by blast
  obtain ds' k' r' where d: "mantissa 10 s = Some (ds', k', r')" "LF \<in> set r'" using mantissa_LF [OF assms] by blast
  from h exponent_LF [of r "CHR ''p''"] d(1) exponent_LF [OF d(2), of "CHR ''e''"]
  show ?thesis by (auto simp: unsigned_double_def)
qed

definition newline_ended :: "string \<Rightarrow> bool" where
  "newline_ended s \<longleftrightarrow> LF \<in> set (dropWhile isspace s)"

lemma strtod_LF:
  assumes "newline_ended s"
  shows "\<exists>d. strtod (s @ g) = Some d"
proof -
  let ?t = "dropWhile isspace s @ g"
  have "LF \<in> set (dropWhile isspace s)" using assms by (simp add: newline_ended_def)
  then have ne: "dropWhile isspace s \<noteq> []" by (metis empty_iff empty_set)
  have "skip_spaces (u @ g) = Some (dropWhile isspace u @ g)" if "dropWhile isspace u \<noteq> []" for u
    using that by (induction u) auto
  then have sk: "skip_spaces (s @ g) = Some ?t" using ne by simp
  have "\<not> isspace (hd ?t)" using hd_dropWhile [OF ne] ne by simp
  then have "hd ?t \<noteq> LF" by (auto simp: isspace_def byte_of_def)
  moreover obtain c u where "dropWhile isspace s = c # u" using ne by (cases "dropWhile isspace s") auto
  ultimately have "LF \<in> set ?t" "LF \<in> set (tl ?t)" using assms by (auto simp: newline_ended_def)
  from this [THEN unsigned_double_LF] sk show ?thesis by (auto simp: strtod_def)
qed

end
