(* ===== verification/OAuth.thy ===== *)
theory OAuth
  imports Url Base64 Apib_Time "HOL-Library.Product_Lexorder"
begin

text \<open>
  \<^verbatim>\<open>apib/apib_oauth.{h,cc}\<close>: OAuth 1.0a signatures. A text written to a stream is the string
  appended to it. \<^verbatim>\<open>HMAC\<close> of OpenSSL, the string library, the clock and the two draws of the
  nonce are arguments; \<^const>\<open>None\<close> is an exception that nothing catches.
\<close>

section \<open>Percent encoding\<close>

definition encode_char :: "char \<Rightarrow> string" where
  "encode_char c =
     (if isalnum c \<or> c = CHR ''-'' \<or> c = CHR ''.'' \<or> c = CHR ''_'' \<or> c = CHR ''~'' then [c]
      else CHR ''%'' # show_hex (char_to_int c))"

fun appendEncoded :: "string \<Rightarrow> string \<Rightarrow> string" where
  "appendEncoded o1 [] = o1"
| "appendEncoded o1 (c # s) = appendEncoded (o1 @ encode_char c) s"

definition reEncode :: "string \<Rightarrow> string" where
  "reEncode s = appendEncoded [] s"

text \<open>\<open>tmp\<close> is a C string of at most two characters; \<^verbatim>\<open>(char)ch\<close> keeps the low byte.\<close>

fun decode :: "string \<Rightarrow> string option" where
  "decode [] = Some []"
| "decode (c # s) =
     (if c = CHR ''+'' then map_option ((#) (CHR '' '')) (decode s)
      else if c = CHR ''%'' then
        (case s of
           h # l # r \<Rightarrow>
             (case stoi 16 (takeWhile (\<lambda>c. c \<noteq> NUL) [h, l]) of
                None \<Rightarrow> None
              | Some ch \<Rightarrow> map_option ((#) (char_of (nat (ch mod 256)))) (decode r))
         | _ \<Rightarrow> Some [])
      else map_option ((#) c) (decode s))"

section \<open>Parameters\<close>

type_synonym Param = "string \<times> string"

definition read_param :: "absl \<Rightarrow> string \<Rightarrow> Param list option" where
  "read_param A it =
     (case StrSplit A it (CHR ''='') of
        [] \<Rightarrow> Some []
      | n # nv \<Rightarrow> do {
          name \<leftarrow> decode n;
          val \<leftarrow> (case nv of [] \<Rightarrow> Some '''' | v # _ \<Rightarrow> decode v);
          Some [(name, val)]
        })"

fun readParams_loop :: "absl \<Rightarrow> Param list \<Rightarrow> string list \<Rightarrow> Param list option" where
  "readParams_loop A ps [] = Some ps"
| "readParams_loop A ps (it # its) = do {
     p \<leftarrow> read_param A it;
     readParams_loop A (ps @ p) its
   }"

definition readParams :: "absl \<Rightarrow> Param list \<Rightarrow> string \<Rightarrow> Param list option" where
  "readParams A paramSrc s = readParams_loop A paramSrc (StrSplit A s (CHR ''&''))"

definition addParam :: "Param list \<Rightarrow> string \<Rightarrow> string \<Rightarrow> Param list" where
  "addParam params name val = params @ [(name, val)]"

text \<open>\<^verbatim>\<open>std::string\<close> compares lexicographically by unsigned characters.\<close>

definition compareParam :: "Param \<Rightarrow> Param \<Rightarrow> bool" where
  "compareParam p1 p2 =
     (if fst p1 < fst p2 then True
      else if fst p1 > fst p2 then False
      else snd p1 < snd p2)"

text \<open>\<^verbatim>\<open>std::sort\<close> with \<open>compareParam\<close>: the order it leaves the parameters in is determined, because
  parameters that compare as equal are equal (\<open>sort_params_unique\<close> below).\<close>

definition sort_params :: "Param list \<Rightarrow> Param list" where
  "sort_params ps = foldr insort ps []"

fun final_params :: "bool \<Rightarrow> Param list \<Rightarrow> string" where
  "final_params first [] = ''''"
| "final_params first (p # ps) = (if first then '''' else ''&'') @ fst p @ ''='' @ snd p @ final_params False ps"

section \<open>Signatures\<close>

record OAuthInfo =
  consumerKey :: string
  consumerSecret :: string
  accessToken :: string
  tokenSecret :: string

definition hmac_key :: "OAuthInfo \<Rightarrow> string" where
  "hmac_key oa = appendEncoded [] (consumerSecret oa) @ ''&'' @ (if tokenSecret oa \<noteq> [] then tokenSecret oa else [])"

text \<open>The result is built from the encoder's output as a C string.\<close>

definition oauth_generateHmac :: "(string \<Rightarrow> string \<Rightarrow> string) \<Rightarrow> string \<Rightarrow> OAuthInfo \<Rightarrow> string option" where
  "oauth_generateHmac HMAC base oa = c_string_at (fst (Base64encode (HMAC (hmac_key oa) base))) 0"

definition makeNonce :: "int \<Rightarrow> int \<Rightarrow> string" where
  "makeNonce r1 r2 = show_hex r1 @ show_hex r2"

text \<open>All parameters of a request, in the order they are collected.\<close>

definition collect_params ::
    "absl \<Rightarrow> URLInfo \<Rightarrow> int \<Rightarrow> string \<Rightarrow> string option \<Rightarrow> OAuthInfo \<Rightarrow> Param list option" where
  "collect_params A url timestamp nonce sendData oa = do {
     p1 \<leftarrow> readParams A [] (u_query url);
     p2 \<leftarrow> (case sendData of None \<Rightarrow> Some p1 | Some d \<Rightarrow> readParams A p1 d);
     let p3 = (if consumerKey oa \<noteq> [] then addParam p2 ''oauth_consumer_key'' (consumerKey oa) else p2);
     let p4 = (if accessToken oa \<noteq> [] then addParam p3 ''oauth_token'' (accessToken oa) else p3);
     let p5 = addParam p4 ''oauth_signature_method'' ''HMAC-SHA1'';
     let p6 = addParam p5 ''oauth_nonce'' nonce;
     Some (addParam p6 ''oauth_timestamp'' (show_int timestamp))
   }"

definition encode_url :: "URLInfo \<Rightarrow> string" where
  "encode_url url =
     appendEncoded (appendEncoded (appendEncoded (appendEncoded []
       (if u_isSsl url then kHttps else kHttp)) ''://'') (u_hostHeader url)) (u_pathOnly url)"

definition oauth_buildBaseString ::
    "absl \<Rightarrow> URLInfo \<Rightarrow> string \<Rightarrow> int \<Rightarrow> string \<Rightarrow> string option \<Rightarrow> OAuthInfo \<Rightarrow> string option" where
  "oauth_buildBaseString A url method timestamp nonce sendData oa = do {
     params \<leftarrow> collect_params A url timestamp nonce sendData oa;
     let encoded = map (\<lambda>p. (reEncode (fst p), reEncode (snd p))) params;
     let finalParams = final_params True (sort_params encoded);
     Some (appendEncoded (method @ ''&'' @ encode_url url @ ''&'') finalParams)
   }"

text \<open>\<open>now\<close> is what \<^verbatim>\<open>GetTime()\<close> returned.\<close>

definition oauth_MakeQueryString ::
    "(string \<Rightarrow> string \<Rightarrow> string) \<Rightarrow> absl \<Rightarrow> int \<Rightarrow> int \<Rightarrow> int \<Rightarrow> URLInfo \<Rightarrow> string \<Rightarrow> string option \<Rightarrow>
     OAuthInfo \<Rightarrow> string option" where
  "oauth_MakeQueryString HMAC A r1 r2 now url method sendData oa = do {
     let nonce = makeNonce r1 r2;
     timestamp \<leftarrow> d_floor_long (Seconds now);
     baseString \<leftarrow> oauth_buildBaseString A url method timestamp nonce sendData oa;
     hmac \<leftarrow> oauth_generateHmac HMAC baseString oa;
     let q1 = appendEncoded ''oauth_consumer_key='' (consumerKey oa);
     let q2 = (if accessToken oa \<noteq> [] then appendEncoded (q1 @ ''&oauth_token='') (accessToken oa) else q1);
     let q3 = appendEncoded (q2 @ ''&oauth_signature_method=HMAC-SHA1'' @ ''&oauth_signature='') hmac;
     Some (q3 @ ''&oauth_timestamp='' @ show_int timestamp @ ''&oauth_nonce='' @ nonce)
   }"

definition oauth_MakeHeader ::
    "(string \<Rightarrow> string \<Rightarrow> string) \<Rightarrow> absl \<Rightarrow> int \<Rightarrow> int \<Rightarrow> int \<Rightarrow> URLInfo \<Rightarrow> string \<Rightarrow> string \<Rightarrow> string option \<Rightarrow>
     OAuthInfo \<Rightarrow> string option" where
  "oauth_MakeHeader HMAC A r1 r2 now url realm method sendData oa = do {
     timestamp \<leftarrow> d_floor_long (Seconds now);
     let nonce = makeNonce r1 r2;
     baseString \<leftarrow> oauth_buildBaseString A url method timestamp nonce sendData oa;
     hmac \<leftarrow> oauth_generateHmac HMAC baseString oa;
     let q = [DQUOTE];
     let h1 = appendEncoded (''Authorization: OAuth realm='' @ q @ realm @ q @ '', oauth_consumer_key='' @ q)
                (consumerKey oa);
     let h2 = (if accessToken oa \<noteq> [] then appendEncoded (h1 @ q @ '', oauth_token='' @ q) (accessToken oa)
               else h1);
     let h3 = appendEncoded (h2 @ q @ '', oauth_signature_method='' @ q @ ''HMAC-SHA1'' @ q @
                '', oauth_signature='' @ q) hmac;
     Some (h3 @ q @ '', oauth_timestamp='' @ q @ show_int timestamp @ q @ '', oauth_nonce='' @ q @ nonce @ q)
   }"

section \<open>Encoding and decoding\<close>

lemma appendEncoded_concat: "appendEncoded o1 s = o1 @ concat (map encode_char s)"
  by (induction o1 s rule: appendEncoded.induct) simp_all

lemma reEncode_concat: "reEncode s = concat (map encode_char s)"
  by (simp add: reEncode_def appendEncoded_concat)

lemma appendEncoded_reEncode: "appendEncoded o1 s = o1 @ reEncode s"
  by (simp add: appendEncoded_concat reEncode_concat)

lemma reEncode_append: "reEncode (s @ t) = reEncode s @ reEncode t"
  by (simp add: reEncode_concat)

definition unreserved :: "char \<Rightarrow> bool" where
  "unreserved c \<longleftrightarrow> isalnum c \<or> c = CHR ''-'' \<or> c = CHR ''.'' \<or> c = CHR ''_'' \<or> c = CHR ''~''"

lemma digits_of_two:
  "16 \<le> n \<Longrightarrow> n < 256 \<Longrightarrow> digits_of 16 n = [n div 16, n mod 16]"
  by (simp add: digits_of.simps [of 16 n] digits_of.simps [of 16 "n div 16"] less_mult_imp_div_less)

lemma show_hex_byte:
  "byte_of c < 128 \<Longrightarrow> 16 \<le> byte_of c \<Longrightarrow>
     show_hex (char_to_int c) = [digit_char (byte_of c div 16), digit_char (byte_of c mod 16)]"
  by (simp add: show_hex_def char_to_int_def digits_of_two)

lemma special_not_alnum:
  "\<not> isalnum (CHR ''+'')" "\<not> isalnum (CHR ''%'')" "\<not> isalnum (CHR ''&'')" "\<not> isalnum (CHR ''='')"
  by code_simp+

lemma digit_char_not_NUL: "d < 16 \<Longrightarrow> digit_char d \<noteq> NUL"
proof
  assume d: "d < 16" "digit_char d = NUL"
  then have "byte_of (digit_char d) = 0" by (simp add: byte_of_def)
  with d(1) show False by (simp add: byte_of_digit_char split: if_splits)
qed

lemma decode_encoded_char:
  assumes "16 \<le> byte_of c" "byte_of c < 128"
  shows "decode (encode_char c @ s) = map_option ((#) c) (decode s)"
proof (cases "unreserved c")
  case True
  then have "c \<noteq> CHR ''+''" "c \<noteq> CHR ''%''" using special_not_alnum by (auto simp: unreserved_def)
  with True show ?thesis by (simp add: encode_char_def unreserved_def)
next
  case False
  let ?h = "byte_of c div 16" and ?l = "byte_of c mod 16"
  have b: "?h < 16" "?l < 16" using assms by simp_all
  have "encode_char c = [CHR ''%'', digit_char ?h, digit_char ?l]"
    using False assms by (simp add: encode_char_def unreserved_def show_hex_byte)
  moreover have "stoi 16 (takeWhile (\<lambda>c. c \<noteq> NUL) [digit_char ?h, digit_char ?l]) = Some (int (byte_of c))"
    using b stoi_two_digits [OF b] by (simp add: digit_char_not_NUL)
  moreover have "char_of (nat (int (byte_of c) mod 256)) = c"
    using assms by (simp add: nat_mod_distrib)
  ultimately show ?thesis by (simp del: takeWhile.simps)
qed

lemma decode_reEncode:
  "\<forall>c \<in> set s. 16 \<le> byte_of c \<and> byte_of c < 128 \<Longrightarrow> decode (reEncode s) = Some s"
proof (induction s)
  case (Cons c s)
  then show ?case using decode_encoded_char [of c "reEncode s"] by (simp add: reEncode_concat)
qed (simp add: reEncode_concat)

interpretation percent: codec reEncode decode "\<lambda>s. \<forall>c \<in> set s. 16 \<le> byte_of c \<and> byte_of c < 128"
  by unfold_locales (rule decode_reEncode)

text \<open>A signature is a Base64 text, percent-encoded.\<close>

interpretation sig: codec_chain encode_from decode_text "\<lambda>s. True" reEncode decode
    "\<lambda>s. \<forall>c \<in> set s. 16 \<le> byte_of c \<and> byte_of c < 128"
  by unfold_locales (blast dest: encode_from_printable)

lemma show_hex_chars: "c \<in> set (show_hex i) \<Longrightarrow> \<exists>d < 16. c = digit_char d"
  using digits_of_bound [of 16] by (auto simp: show_hex_def)

lemma reEncode_no_separator: "CHR ''&'' \<notin> set (reEncode s)"
proof
  have d: "digit_char d \<noteq> CHR ''&''" if "d < 16" for d
  proof
    assume "digit_char d = CHR ''&''"
    then have "byte_of (digit_char d) = 38" by (simp add: byte_of_def)
    with that show False by (simp add: byte_of_digit_char split: if_splits)
  qed
  assume "CHR ''&'' \<in> set (reEncode s)"
  then obtain c where "CHR ''&'' \<in> set (encode_char c)" by (auto simp: reEncode_concat)
  then have "CHR ''&'' \<in> set (show_hex (char_to_int c)) \<or> isalnum c \<and> c = CHR ''&''"
    by (auto simp: encode_char_def split: if_splits)
  then show False using show_hex_chars d special_not_alnum by metis
qed

section \<open>The order of the parameters\<close>

lemma compareParam_less: "compareParam p q \<longleftrightarrow> p < q"
  by (cases p; cases q) (auto simp: compareParam_def less_prod_def)

lemma sort_params_sort: "sort_params ps = sort ps"
  by (simp add: sort_params_def sort_key_def)

text \<open>Any result the standard allows for \<^verbatim>\<open>std::sort\<close> is this one.\<close>

lemma sort_params_unique:
  assumes "mset qs = mset ps" "sorted_wrt (\<lambda>p q. \<not> compareParam q p) qs"
  shows "qs = sort_params ps"
proof -
  have "sorted qs" using assms(2) by (simp add: compareParam_less not_less)
  with assms(1) show ?thesis by (simp add: sort_params_sort properties_for_sort)
qed

lemma readParams_loop_eq:
  "readParams_loop A ps its =
     (if None \<in> read_param A ` set its then None else Some (ps @ concat (map (\<lambda>it. the (read_param A it)) its)))"
proof (induction its arbitrary: ps)
  case (Cons it its)
  then show ?case by (cases "read_param A it") auto
qed simp

lemma readParams_loop_append:
  "readParams_loop A ps its = map_option ((@) ps) (readParams_loop A [] its)"
  by (simp add: readParams_loop_eq)

lemma readParams_loop_perm:
  assumes "mset its = mset its'"
  shows "rel_option (\<lambda>p q. mset p = mset q) (readParams_loop A ps its) (readParams_loop A ps its')"
proof -
  have "set its = set its'" using assms by (rule mset_eq_setD)
  moreover have "mset (concat (map f xs)) = (\<Sum>x\<in>#mset xs. mset (f x))" for f :: "string \<Rightarrow> Param list" and xs
    by (induction xs) simp_all
  ultimately show ?thesis using assms by (simp add: readParams_loop_eq)
qed

lemma readParams_split: "absl_ok A \<Longrightarrow> readParams A ps s = readParams_loop A ps (split_at (CHR ''&'') s)"
  by (simp add: readParams_def absl_StrSplit)

lemma split_join:
  "ps \<noteq> [] \<Longrightarrow> \<forall>p \<in> set ps. c \<notin> set p \<Longrightarrow> split_at c (join_with [c] ps) = ps"
  using split_unique [of ps c "join_with [c] ps"] by simp

lemma read_param_ok:
  assumes "absl_ok A"
  shows "read_param A it = (case split_at (CHR ''='') it of [] \<Rightarrow> Some [] | n # nv \<Rightarrow>
    do { name \<leftarrow> decode n; val \<leftarrow> (case nv of [] \<Rightarrow> Some '''' | v # _ \<Rightarrow> decode v); Some [(name, val)] })"
  by (simp add: read_param_def absl_StrSplit [OF assms])

lemma read_param_empty: "absl_ok A \<Longrightarrow> read_param A '''' = Some [('''', '''')]"
  by (simp add: read_param_ok)

section \<open>Properties\<close>

text \<open>C28. Percent encoding is reversible on printable text and hides every separator: for each string
  of ASCII characters from 0x10 on, decoding the encoded string gives it back, and the encoding of
  any string contains no ampersand, so it can be put between the separators of a base string.\<close>

theorem reEncode_round_trip:
  assumes "\<forall>c \<in> set s. 16 \<le> byte_of c \<and> byte_of c < 128"
  shows "decode (reEncode s) = Some s \<and> CHR ''&'' \<notin> set (reEncode s)"
  using decode_reEncode [OF assms] reEncode_no_separator by blast

lemma reEncode_round_trip_witness:
  "decode (reEncode ''a b&c=%+/~'') = Some ''a b&c=%+/~'' \<and> CHR ''&'' \<notin> set (reEncode ''a b&c=%+/~'')"
  by (rule reEncode_round_trip) (simp add: byte_of_def)

lemma length_digits_of: "16 ^ k \<le> n \<Longrightarrow> n < 16 ^ Suc k \<Longrightarrow> length (digits_of 16 n) = Suc k"
proof (induction k arbitrary: n)
  case 0
  then show ?case by (simp add: digits_of.simps [of 16 n])
next
  case (Suc k)
  have "16 ^ k \<le> n div 16" using Suc.prems(1) by (simp add: less_eq_div_iff_mult_less_eq mult.commute)
  moreover have "n div 16 < 16 ^ Suc k" using Suc.prems(2) by (simp add: less_mult_imp_div_less mult.commute)
  ultimately have "length (digits_of 16 (n div 16)) = Suc k" by (rule Suc.IH)
  moreover have "16 \<le> n"
  proof -
    have "(16::nat) \<le> 16 ^ Suc k" by simp
    also note Suc.prems(1)
    finally show ?thesis .
  qed
  ultimately show ?case by (simp add: digits_of.simps [of 16 n])
qed

text \<open>Outside that range the encoding is not the two hexadecimal digits per byte that RFC 5849
  asks for: a control character below 0x10 gets one digit, and a byte from 0x80 on is sign-extended
  to 32 bits and gets eight.\<close>

theorem encode_char_width:
  assumes "\<not> unreserved c"
  shows "length (encode_char c) = (if byte_of c < 16 then 2 else if byte_of c < 128 then 3 else 9)"
proof -
  have e: "encode_char c = CHR ''%'' # show_hex (char_to_int c)"
    using assms by (simp add: encode_char_def unreserved_def)
  consider "byte_of c < 16" | "16 \<le> byte_of c" "byte_of c < 128" | "128 \<le> byte_of c" by linarith
  then show ?thesis
  proof cases
    case 1
    then show ?thesis by (simp add: e show_hex_def char_to_int_def digits_of.simps [of 16 "byte_of c"])
  next
    case 2
    then show ?thesis by (simp add: e show_hex_byte)
  next
    case 3
    have "nat (char_to_int c mod 2 ^ 32) = 4294967040 + byte_of c"
    proof -
      have "char_to_int c mod 2 ^ 32 = (int (byte_of c) - 256 + 2 ^ 32) mod 2 ^ 32"
        using 3 by (simp only: char_to_int_def mod_add_self2) simp
      also have "\<dots> = int (byte_of c) - 256 + 2 ^ 32"
        using 3 byte_of_lt [of c] by (intro mod_pos_pos_trivial) auto
      finally show ?thesis using 3 by simp
    qed
    moreover have "length (digits_of 16 (4294967040 + n)) = 8" if "n < 256" for n
      using length_digits_of [of 7 "4294967040 + n"] that by simp
    ultimately show ?thesis using 3 byte_of_lt [of c] by (simp add: e show_hex_def)
  qed
qed

lemma encode_char_width_witness:
  "length (encode_char (CHR 0xE9)) = (if byte_of (CHR 0xE9) < 16 then 2 else if byte_of (CHR 0xE9) < 128 then 3 else 9)"
  by (rule encode_char_width) code_simp

text \<open>What is collected does not depend on the order of what was read before, and neither does the
  base string.\<close>

abbreviation same_params :: "Param list option \<Rightarrow> Param list option \<Rightarrow> bool" where
  "same_params \<equiv> rel_option (\<lambda>p q. mset p = mset q)"

lemma readParams_perm: "mset p = mset q \<Longrightarrow> same_params (readParams A p d) (readParams A q d)"
  unfolding readParams_def readParams_loop_append [of A p] readParams_loop_append [of A q]
  by (cases "readParams_loop A [] (StrSplit A d (CHR ''&''))") simp_all

lemma collect_params_perm:
  assumes "same_params (readParams A [] v) (readParams A [] w)"
  shows "same_params (collect_params A (url\<lparr>u_query := v\<rparr>) t nonce body oa)
    (collect_params A (url\<lparr>u_query := w\<rparr>) t nonce body oa)"
proof (cases "readParams A [] v")
  case None
  with assms show ?thesis by (simp add: collect_params_def)
next
  case (Some p)
  with assms obtain q where q: "readParams A [] w = Some q" "mset p = mset q"
    by (auto simp: option_rel_Some1)
  show ?thesis
  proof (cases body)
    case None
    with Some q show ?thesis by (simp add: collect_params_def addParam_def Let_def)
  next
    case b: (Some d)
    show ?thesis
      using Some q b readParams_perm [OF q(2), of A d]
      by (cases "readParams A p d"; cases "readParams A q d")
        (simp_all add: collect_params_def addParam_def Let_def)
  qed
qed

lemma base_string_perm:
  assumes "same_params (collect_params A (url\<lparr>u_query := v\<rparr>) t nonce body oa)
    (collect_params A (url\<lparr>u_query := w\<rparr>) t nonce body oa)"
  shows "oauth_buildBaseString A (url\<lparr>u_query := v\<rparr>) method t nonce body oa =
    oauth_buildBaseString A (url\<lparr>u_query := w\<rparr>) method t nonce body oa"
  using assms
proof (cases rule: option.rel_cases)
  case (Some a b)
  have "sort (map (\<lambda>p. (reEncode (fst p), reEncode (snd p))) a) =
      sort (map (\<lambda>p. (reEncode (fst p), reEncode (snd p))) b)"
    using Some(3) by (intro properties_for_sort) simp_all
  with Some(1,2) show ?thesis
    by (simp add: oauth_buildBaseString_def sort_params_sort Let_def encode_url_def)
qed (simp add: oauth_buildBaseString_def)

text \<open>C27. The signature does not depend on the order in which a request lists its query parameters:
  two URLs that differ in the order of their parameters only have the same base string, for every
  method, body, nonce and time, and if one of them has none because of a malformed escape, neither
  has the other.\<close>

theorem base_string_order_independent:
  assumes "absl_ok A" and "ps \<noteq> []" and "mset ps = mset qs" and "\<forall>p \<in> set ps. CHR ''&'' \<notin> set p"
  shows "oauth_buildBaseString A (url\<lparr>u_query := join_with ''&'' ps\<rparr>) method t nonce body oa =
    oauth_buildBaseString A (url\<lparr>u_query := join_with ''&'' qs\<rparr>) method t nonce body oa"
proof -
  have qs: "qs \<noteq> []" "\<forall>p \<in> set qs. CHR ''&'' \<notin> set p"
    using assms(2-4) by (auto dest: mset_eq_setD)
  have "same_params (readParams A [] (join_with ''&'' ps)) (readParams A [] (join_with ''&'' qs))"
    using readParams_loop_perm [OF assms(3), of A "[]"] assms(1,2,4) qs
    by (simp add: readParams_split split_join)
  then show ?thesis by (intro base_string_perm collect_params_perm)
qed

lemma base_string_order_independent_witness:
  "oauth_buildBaseString absl_reference ((example_url 80)\<lparr>u_query := join_with ''&'' [''b=2'', ''a=1'']\<rparr>) ''GET'' 5 ''N'' None
      \<lparr>consumerKey = ''k'', consumerSecret = ''s'', accessToken = '''', tokenSecret = ''''\<rparr> =
   oauth_buildBaseString absl_reference ((example_url 80)\<lparr>u_query := join_with ''&'' [''a=1'', ''b=2'']\<rparr>) ''GET'' 5 ''N'' None
      \<lparr>consumerKey = ''k'', consumerSecret = ''s'', accessToken = '''', tokenSecret = ''''\<rparr>"
  by (rule base_string_order_independent) (simp_all add: absl_reference_ok)

text \<open>The base string has the three parts of RFC 5849 and they can be read off it: splitting it at
  the ampersands gives the method, the encoded URL without its query, and the encoded parameter
  string, whose parameters are the encoded parameters of the request in ascending order.\<close>

theorem base_string_parts:
  assumes "collect_params A url t nonce body oa = Some ps" and "CHR ''&'' \<notin> set method"
  shows "\<exists>b sorted_ps. oauth_buildBaseString A url method t nonce body oa = Some b \<and>
    split_at (CHR ''&'') b =
      [method, reEncode ((if u_isSsl url then kHttps else kHttp) @ ''://'' @ u_hostHeader url @ u_pathOnly url),
       reEncode (final_params True sorted_ps)] \<and>
    mset sorted_ps = mset (map (\<lambda>p. (reEncode (fst p), reEncode (snd p))) ps) \<and>
    sorted_wrt (\<lambda>p q. \<not> compareParam q p) sorted_ps"
proof (intro exI conjI)
  let ?e = "map (\<lambda>p. (reEncode (fst p), reEncode (snd p))) ps"
  let ?u = "reEncode ((if u_isSsl url then kHttps else kHttp) @ ''://'' @ u_hostHeader url @ u_pathOnly url)"
  let ?b = "method @ CHR ''&'' # ?u @ CHR ''&'' # reEncode (final_params True (sort_params ?e))"
  have "encode_url url = ?u"
    by (simp only: encode_url_def appendEncoded_reEncode reEncode_append) simp
  then show "oauth_buildBaseString A url method t nonce body oa = Some ?b"
    using assms(1) by (simp add: oauth_buildBaseString_def Let_def appendEncoded_reEncode)
  show "split_at (CHR ''&'') ?b = [method, ?u, reEncode (final_params True (sort_params ?e))]"
    using assms(2) reEncode_no_separator by (simp add: split_at_append split_at_none)
  show "mset (sort_params ?e) = mset ?e" by (simp add: sort_params_sort)
  show "sorted_wrt (\<lambda>p q. \<not> compareParam q p) (sort_params ?e)"
    by (simp add: sort_params_sort compareParam_less not_less)
qed

definition example_oauth :: OAuthInfo where
  "example_oauth = \<lparr>consumerKey = ''k'', consumerSecret = ''s'', accessToken = '''', tokenSecret = ''''\<rparr>"

lemma example_collect:
  "collect_params absl_reference (example_url 80) 5 ''N'' None example_oauth =
    Some [('''', ''''), (''oauth_consumer_key'', ''k''), (''oauth_signature_method'', ''HMAC-SHA1''),
          (''oauth_nonce'', ''N''), (''oauth_timestamp'', show_int 5)]"
  by (simp add: collect_params_def readParams_split [OF absl_reference_ok] example_url_def example_oauth_def
      read_param_empty [OF absl_reference_ok] addParam_def Let_def)

lemma base_string_parts_witness:
  "\<exists>b sorted_ps. oauth_buildBaseString absl_reference (example_url 80) ''GET'' 5 ''N'' None example_oauth = Some b \<and>
    split_at (CHR ''&'') b =
      [''GET'', reEncode ((if u_isSsl (example_url 80) then kHttps else kHttp) @ ''://'' @
         u_hostHeader (example_url 80) @ u_pathOnly (example_url 80)),
       reEncode (final_params True sorted_ps)] \<and>
    mset sorted_ps = mset (map (\<lambda>p. (reEncode (fst p), reEncode (snd p)))
      [('''', ''''), (''oauth_consumer_key'', ''k''), (''oauth_signature_method'', ''HMAC-SHA1''),
          (''oauth_nonce'', ''N''), (''oauth_timestamp'', show_int 5)]) \<and>
    sorted_wrt (\<lambda>p q. \<not> compareParam q p) sorted_ps"
  by (rule base_string_parts [OF example_collect]) simp

text \<open>A URL without a query is signed with a parameter that the request does not have: the empty
  query splits into one empty piece, so an empty name with an empty value is collected, sorts before
  every other parameter, and the signed parameter string begins with \<^verbatim>\<open>=&\<close>.\<close>

theorem no_query_adds_empty_parameter:
  assumes "absl_ok A" and "u_query url = ''''"
  shows "\<exists>ps. collect_params A url t nonce None oa = Some (('''', '''') # ps) \<and>
    (\<exists>rest. final_params True (sort_params (map (\<lambda>p. (reEncode (fst p), reEncode (snd p))) (('''', '''') # ps))) =
      ''=&'' @ rest)"
proof -
  obtain ps where ps: "collect_params A url t nonce None oa = Some (('''', '''') # ps)" "ps \<noteq> []"
    using assms
    by (cases "consumerKey oa = []"; cases "accessToken oa = []")
      (simp_all add: collect_params_def readParams_split read_param_empty addParam_def Let_def)
  let ?e = "\<lambda>p. (reEncode (fst p), reEncode (snd p))"
  have "([], []) \<le> q" for q :: Param by (cases q) (simp add: less_eq_prod_def)
  moreover have "?e ('''', '''') = ([], [])" by (simp add: reEncode_concat)
  ultimately have "sort (map ?e (('''', '''') # ps)) = ([], []) # sort (map ?e ps)"
    by (simp add: insort_is_Cons)
  moreover obtain q qs where "sort (map ?e ps) = q # qs"
  proof (cases "sort (map ?e ps)")
    case Nil
    have "length (sort (map ?e ps)) = length ps" by simp
    with ps(2) show thesis by (simp add: Nil)
  qed
  ultimately have "final_params True (sort_params (map ?e (('''', '''') # ps))) =
      ''=&'' @ fst q @ ''='' @ snd q @ final_params False qs"
    by (simp add: sort_params_sort)
  with ps(1) show ?thesis by blast
qed

lemma no_query_adds_empty_parameter_witness:
  "\<exists>ps. collect_params absl_reference (example_url 80) 5 ''N'' None example_oauth = Some (('''', '''') # ps) \<and>
    (\<exists>rest. final_params True (sort_params (map (\<lambda>p. (reEncode (fst p), reEncode (snd p))) (('''', '''') # ps))) =
      ''=&'' @ rest)"
  by (rule no_query_adds_empty_parameter) (simp_all add: absl_reference_ok example_url_def)

text \<open>C26. What is sent is the signature of what is sent: when a query string is produced, its signature
  field percent-decodes to a Base64 text that decodes to the HMAC, under the key built from the
  secrets, of the base string made with the very time and nonce that stand in the query string.\<close>

theorem query_string_signature:
  assumes "oauth_MakeQueryString HMAC A r1 r2 now url method body oa = Some q"
  shows "\<exists>t base sig pre. d_floor_long (Seconds now) = Some t \<and>
    oauth_buildBaseString A url method t (makeNonce r1 r2) body oa = Some base \<and>
    q = pre @ ''&oauth_signature='' @ reEncode sig @ ''&oauth_timestamp='' @ show_int t @
        ''&oauth_nonce='' @ makeNonce r1 r2 \<and>
    decode (reEncode sig) = Some sig \<and>
    fst (Base64decode (sig @ [NUL])) = HMAC (hmac_key oa) base @ [NUL]"
proof -
  obtain t where t: "d_floor_long (Seconds now) = Some t"
    using assms by (cases "d_floor_long (Seconds now)") (simp_all add: oauth_MakeQueryString_def Let_def)
  obtain base where base: "oauth_buildBaseString A url method t (makeNonce r1 r2) body oa = Some base"
    using assms t by (cases "oauth_buildBaseString A url method t (makeNonce r1 r2) body oa")
      (simp_all add: oauth_MakeQueryString_def Let_def)
  obtain sig where sig: "oauth_generateHmac HMAC base oa = Some sig"
    using assms t base by (cases "oauth_generateHmac HMAC base oa")
      (simp_all add: oauth_MakeQueryString_def Let_def)
  obtain pre where q: "q = pre @ ''&oauth_signature='' @ reEncode sig @ ''&oauth_timestamp='' @ show_int t @
      ''&oauth_nonce='' @ makeNonce r1 r2"
  proof
    let ?q1 = "appendEncoded ''oauth_consumer_key='' (consumerKey oa)"
    show "q = ((if accessToken oa \<noteq> [] then appendEncoded (?q1 @ ''&oauth_token='') (accessToken oa) else ?q1) @
        ''&oauth_signature_method=HMAC-SHA1'') @ ''&oauth_signature='' @ reEncode sig @
        ''&oauth_timestamp='' @ show_int t @ ''&oauth_nonce='' @ makeNonce r1 r2"
      using assms t base sig
      by (simp only: oauth_MakeQueryString_def Let_def Option.bind.bind_lunit option.inject
          appendEncoded_reEncode [of _ sig] append_assoc)
  qed
  let ?h = "HMAC (hmac_key oa) base"
  have b: "fst (Base64encode ?h) = encode_from ?h @ [NUL]" by (simp add: Base64encode_def)
  have s: "sig = encode_from ?h"
    using sig encode_c_string [of ?h] by (simp add: oauth_generateHmac_def b)
  have d: "decode (reEncode sig) = Some sig"
    unfolding s by (rule percent.dec_enc [OF sig.fits [OF TrueI]])
  have "fst (Base64decode (sig @ [NUL])) = ?h @ [NUL]"
    unfolding s decode_encoded by simp
  with t base q d show ?thesis by blast
qed

lemma Seconds_zero: "d_floor_long (Seconds 0) = Some 0"
  by (simp add: Seconds_def kNanosecondF_def d_of_int_def fl_Fin)

lemma query_string_signature_witness:
  "\<exists>q. oauth_MakeQueryString (\<lambda>k b. ''tag'') absl_reference 1 2 0 (example_url 80) ''GET'' None example_oauth = Some q \<and>
    (\<exists>t base sig pre. d_floor_long (Seconds 0) = Some t \<and>
      oauth_buildBaseString absl_reference (example_url 80) ''GET'' t (makeNonce 1 2) None example_oauth = Some base \<and>
      q = pre @ ''&oauth_signature='' @ reEncode sig @ ''&oauth_timestamp='' @ show_int t @
        ''&oauth_nonce='' @ makeNonce 1 2 \<and>
      decode (reEncode sig) = Some sig \<and>
      fst (Base64decode (sig @ [NUL])) = ''tag'' @ [NUL])"
proof -
  obtain ps where "collect_params absl_reference (example_url 80) 0 (makeNonce 1 2) None example_oauth = Some ps"
    by (simp add: collect_params_def readParams_split [OF absl_reference_ok] example_url_def example_oauth_def
      read_param_empty [OF absl_reference_ok] addParam_def Let_def)
  then obtain base where b: "oauth_buildBaseString absl_reference (example_url 80) ''GET'' 0 (makeNonce 1 2) None example_oauth = Some base"
    by (simp add: oauth_buildBaseString_def Let_def)
  have h: "oauth_generateHmac (\<lambda>k b. ''tag'') base example_oauth = Some (encode_from ''tag'')"
    using encode_c_string [of "''tag''"] by (simp add: oauth_generateHmac_def Base64encode_def)
  obtain q where q: "oauth_MakeQueryString (\<lambda>k b. ''tag'') absl_reference 1 2 0 (example_url 80) ''GET'' None example_oauth = Some q"
    using Seconds_zero b h by (simp add: oauth_MakeQueryString_def Let_def)
  from query_string_signature [OF q] q show ?thesis by blast
qed

end
