(* ===== verification/Socket.thy ===== *)
theory Socket
  imports Addresses
begin

text \<open>
  \<^verbatim>\<open>apib/socket.{h,cc}\<close> and \<^verbatim>\<open>apib/tlssocket.{h,cc}\<close>: non-blocking sockets, plain and TLS. What
  the system and the TLS library answer to a call is an argument of the operation that makes
  it; an operation also returns the descriptors it closes, in order. A failed system call
  answers with its \<^verbatim>\<open>errno\<close>. \<^const>\<open>None\<close> is a failed \<^verbatim>\<open>assert\<close>.
\<close>

section \<open>Answers and statuses\<close>

datatype IOStatus = IO_OK | NEED_READ | NEED_WRITE | FEOF

text \<open>A call that returns a value, or fails and sets \<^verbatim>\<open>errno\<close>. The numbers are those of Linux.\<close>

datatype answer = Returned int | Failed int

definition EAGAIN :: int where "EAGAIN = 11"
definition EWOULDBLOCK :: int where "EWOULDBLOCK = 11"
definition EINPROGRESS :: int where "EINPROGRESS = 115"

definition SSL_ERROR_WANT_READ :: int where "SSL_ERROR_WANT_READ = 2"
definition SSL_ERROR_WANT_WRITE :: int where "SSL_ERROR_WANT_WRITE = 3"
definition SSL_ERROR_SYSCALL :: int where "SSL_ERROR_SYSCALL = 5"
definition SSL_ERROR_ZERO_RETURN :: int where "SSL_ERROR_ZERO_RETURN = 6"

text \<open>The C library and TLS library calls that put an error into words.\<close>

record messages =
  sys_message :: "int \<Rightarrow> string"
  tls_message :: "int \<Rightarrow> string"

section \<open>Socket\<close>

record Socket =
  fd :: int

definition new_Socket :: Socket where
  "new_Socket = \<lparr>fd = 0\<rparr>"

definition destroy_Socket :: "Socket \<Rightarrow> int list" where
  "destroy_Socket s = (if fd s \<noteq> 0 then [fd s] else [])"

text \<open>
  The answers to the calls of \<open>connect\<close>. A call after \<^verbatim>\<open>socket\<close> returns 0 (\<^const>\<open>None\<close>) or fails with
  an \<^verbatim>\<open>errno\<close>. \<open>stale_errno\<close> is what \<^verbatim>\<open>errno\<close> holds when \<^verbatim>\<open>socket\<close> has succeeded. The last four are
  the TLS library's: whether \<^verbatim>\<open>SSL_new\<close> gave an object, what \<^verbatim>\<open>ERR_get_error\<close> says if not, and the
  results of setting the descriptor and the host name.
\<close>

record connect_answers =
  on_socket :: answer
  stale_errno :: int
  on_nodelay :: "int option"
  on_reuseaddr :: "int option"
  on_linger :: "int option"
  on_fcntl :: "int option"
  on_connect :: "int option"
  ssl_new_ok :: bool
  ssl_new_error :: int
  on_set_fd :: int
  on_set_host :: int

fun first_failure :: "int option list \<Rightarrow> int option" where
  "first_failure [] = None"
| "first_failure (None # es) = first_failure es"
| "first_failure (Some e # es) = Some e"

text \<open>The label \<^verbatim>\<open>fail\<close> closes the descriptor and leaves its number in \<open>fd_\<close>.\<close>

definition connect_failed :: "messages \<Rightarrow> int \<Rightarrow> Socket \<Rightarrow> Status \<times> Socket \<times> int list" where
  "connect_failed M e s = (Status_errno (sys_message M) SOCKET_ERROR e, s, [fd s])"

definition Socket_connect ::
    "messages \<Rightarrow> connect_answers \<Rightarrow> Address \<Rightarrow> Socket \<Rightarrow> (Status \<times> Socket \<times> int list) option" where
  "Socket_connect M A addr s0 =
     (let (n, e) = (case on_socket A of Returned n \<Rightarrow> (n, stale_errno A) | Failed e \<Rightarrow> (- 1, e));
          s = s0\<lparr>fd := n\<rparr>
      in if n \<le> 0 then Some (Status_errno (sys_message M) SOCKET_ERROR e, s, [])
         else case first_failure [on_nodelay A, on_reuseaddr A, on_linger A, on_fcntl A] of
           Some e \<Rightarrow> Some (connect_failed M e s)
         | None \<Rightarrow> do {
             netaddr \<leftarrow> get_addr addr;
             case on_connect A of
               Some e \<Rightarrow> if e \<noteq> EINPROGRESS then Some (connect_failed M e s) else Some (kOk, s, [])
             | None \<Rightarrow> Some (kOk, s, [])
           })"

text \<open>A transfer returns its status, and the count it stored through its last argument, if any.\<close>

type_synonym transfer = "IOStatus StatusOr \<times> nat option"

definition Socket_write :: "messages \<Rightarrow> answer \<Rightarrow> transfer" where
  "Socket_write M a =
     (case a of
        Failed e \<Rightarrow>
          if e = EAGAIN \<or> e = EWOULDBLOCK then (Inr NEED_WRITE, None)
          else (Inl (Status_errno (sys_message M) SOCKET_ERROR e), None)
      | Returned ws \<Rightarrow> (Inr IO_OK, Some (nat ws)))"

definition Socket_read :: "messages \<Rightarrow> answer \<Rightarrow> transfer" where
  "Socket_read M a =
     (case a of
        Failed e \<Rightarrow>
          if e = EAGAIN \<or> e = EWOULDBLOCK then (Inr NEED_READ, None)
          else (Inl (Status_errno (sys_message M) SOCKET_ERROR e), None)
      | Returned rs \<Rightarrow> (Inr IO_OK, Some (nat rs)))"

definition Socket_close ::
    "messages \<Rightarrow> int option \<Rightarrow> Socket \<Rightarrow> IOStatus StatusOr \<times> Socket \<times> int list" where
  "Socket_close M a s =
     (case a of
        Some e \<Rightarrow> (Inl (Status_errno (sys_message M) SOCKET_ERROR e), s\<lparr>fd := 0\<rparr>, [fd s])
      | None \<Rightarrow> (Inr IO_OK, s\<lparr>fd := 0\<rparr>, [fd s]))"

section \<open>TLSSocket\<close>

text \<open>\<open>ssl\<close> is whether \<^verbatim>\<open>ssl_\<close> is not null.\<close>

record TLSSocket = Socket +
  ssl :: bool

definition new_TLSSocket :: TLSSocket where
  "new_TLSSocket = \<lparr>fd = 0, ssl = False\<rparr>"

definition makeTLSError :: "messages \<Rightarrow> int \<Rightarrow> Status" where
  "makeTLSError M err = Status_msg TLS_ERROR (tls_message M err)"

definition plain :: "TLSSocket \<Rightarrow> Socket" where
  "plain t = \<lparr>fd = fd t\<rparr>"

definition connectTLS ::
    "messages \<Rightarrow> connect_answers \<Rightarrow> Address \<Rightarrow> TLSSocket \<Rightarrow> (Status \<times> TLSSocket \<times> int list) option" where
  "connectTLS M A addr t = do {
     (cs, s, closed) \<leftarrow> Socket_connect M A addr (plain t);
     let t1 = t\<lparr>fd := fd s\<rparr>;
     if \<not> ok cs then Some (cs, t1, closed)
     else if \<not> ssl_new_ok A then Some (makeTLSError M (ssl_new_error A), t1\<lparr>ssl := False\<rparr>, closed)
     else
       let t2 = t1\<lparr>ssl := True\<rparr> in
       if on_set_fd A \<noteq> 1 then Some (makeTLSError M (on_set_fd A), t2, closed)
       else if on_set_host A \<noteq> 1 then Some (makeTLSError M (on_set_host A), t2, closed)
       else Some (kOk, t2, closed)
   }"

text \<open>The answer to a TLS call: its result, what \<^verbatim>\<open>SSL_get_error\<close> makes of it, and whether a
  shutdown has been sent.\<close>

record ssl_answer =
  ssl_result :: int
  ssl_error :: int
  sent_shutdown :: bool

definition TLSSocket_write :: "messages \<Rightarrow> ssl_answer \<Rightarrow> transfer" where
  "TLSSocket_write M a =
     (if ssl_result a > 0 then (Inr IO_OK, Some (nat (ssl_result a)))
      else if ssl_error a = SSL_ERROR_WANT_READ then (Inr NEED_READ, Some 0)
      else if ssl_error a = SSL_ERROR_WANT_WRITE then (Inr NEED_WRITE, Some 0)
      else (Inl (makeTLSError M (ssl_error a)), Some 0))"

definition TLSSocket_read :: "messages \<Rightarrow> ssl_answer \<Rightarrow> transfer" where
  "TLSSocket_read M a =
     (if ssl_result a > 0 then (Inr IO_OK, Some (nat (ssl_result a)))
      else if ssl_error a = SSL_ERROR_WANT_READ then (Inr NEED_READ, Some 0)
      else if ssl_error a = SSL_ERROR_WANT_WRITE then (Inr NEED_WRITE, Some 0)
      else if ssl_error a = SSL_ERROR_ZERO_RETURN then (Inr FEOF, Some 0)
      else if ssl_error a = SSL_ERROR_SYSCALL \<and> sent_shutdown a then (Inr FEOF, Some 0)
      else (Inl (makeTLSError M (ssl_error a)), Some 0))"

text \<open>\<open>close\<close> ends in \<^verbatim>\<open>Socket::close\<close> only when both sides have shut down; after a half-close it
  reads. \<open>c\<close> answers \<^verbatim>\<open>::close\<close> and \<open>r\<close> that read.\<close>

definition TLSSocket_close ::
    "messages \<Rightarrow> ssl_answer \<Rightarrow> ssl_answer \<Rightarrow> int option \<Rightarrow> TLSSocket \<Rightarrow>
     IOStatus StatusOr \<times> TLSSocket \<times> int list" where
  "TLSSocket_close M a r c t =
     (if ssl_result a = 1 then
        (let (_, s, closed) = Socket_close M c (plain t) in (Inr IO_OK, t\<lparr>fd := fd s\<rparr>, closed))
      else if ssl_result a = 0 then (fst (TLSSocket_read M r), t, [])
      else if ssl_error a = SSL_ERROR_WANT_READ then (Inr NEED_READ, t, [])
      else if ssl_error a = SSL_ERROR_WANT_WRITE then (Inr NEED_WRITE, t, [])
      else (Inl (makeTLSError M (ssl_error a)), t, []))"

section \<open>A socket of either class\<close>

datatype sock = Plain Socket | Tls TLSSocket

definition sock_fd :: "sock \<Rightarrow> int" where
  "sock_fd k = (case k of Plain s \<Rightarrow> fd s | Tls t \<Rightarrow> fd t)"

definition destroy_sock :: "sock \<Rightarrow> int list" where
  "destroy_sock k = (case k of Plain s \<Rightarrow> destroy_Socket s | Tls t \<Rightarrow> destroy_Socket (plain t))"

text \<open>The answers a virtual call may need; which of them it uses depends on the class.\<close>

record io_answer =
  on_sys :: answer
  on_ssl :: ssl_answer
  on_ssl_read :: ssl_answer
  on_close :: "int option"

definition sock_write :: "messages \<Rightarrow> io_answer \<Rightarrow> sock \<Rightarrow> transfer" where
  "sock_write M a k =
     (case k of Plain s \<Rightarrow> Socket_write M (on_sys a) | Tls t \<Rightarrow> TLSSocket_write M (on_ssl a))"

definition sock_read :: "messages \<Rightarrow> io_answer \<Rightarrow> sock \<Rightarrow> transfer" where
  "sock_read M a k =
     (case k of Plain s \<Rightarrow> Socket_read M (on_sys a) | Tls t \<Rightarrow> TLSSocket_read M (on_ssl a))"

definition sock_close :: "messages \<Rightarrow> io_answer \<Rightarrow> sock \<Rightarrow> IOStatus StatusOr \<times> sock \<times> int list" where
  "sock_close M a k =
     (case k of
        Plain s \<Rightarrow> (let (st, s', cl) = Socket_close M (on_close a) s in (st, Plain s', cl))
      | Tls t \<Rightarrow> (let (st, t', cl) = TLSSocket_close M (on_ssl a) (on_ssl_read a) (on_close a) t
                  in (st, Tls t', cl)))"

section \<open>The contract of a transfer\<close>

text \<open>
  What the connections rely on: a transfer of at most \<open>n\<close> bytes that is \<open>OK\<close> stores a count of at
  most \<open>n\<close>, a write that is \<open>OK\<close> makes progress, a write never reports the end of the file, and an
  error status is never \<open>ok\<close>. \<open>allowed n a\<close> is what the system documents of an answer to a call
  with \<open>n\<close> bytes.
\<close>

locale transfers =
  fixes put :: "'a \<Rightarrow> 'k \<Rightarrow> transfer"
    and get :: "'a \<Rightarrow> 'k \<Rightarrow> transfer"
    and write_allowed :: "nat \<Rightarrow> 'k \<Rightarrow> 'a \<Rightarrow> bool"
    and read_allowed :: "nat \<Rightarrow> 'k \<Rightarrow> 'a \<Rightarrow> bool"
  assumes write_ok: "write_allowed n k a \<Longrightarrow> put a k = (Inr IO_OK, w) \<Longrightarrow> \<exists>i. w = Some i \<and> 0 < i \<and> i \<le> n"
    and write_not_eof: "put a k \<noteq> (Inr FEOF, w)"
    and write_error: "put a k = (Inl st, w) \<Longrightarrow> \<not> ok st"
    and read_ok: "read_allowed n k a \<Longrightarrow> get a k = (Inr IO_OK, r) \<Longrightarrow> \<exists>i. r = Some i \<and> i \<le> n"
    and read_error: "get a k = (Inl st, r) \<Longrightarrow> \<not> ok st"
begin

text \<open>Whatever a write answers, the position it leads to lies between the old one and the end.\<close>

lemma write_cases:
  assumes "write_allowed n k a"
  obtains (sent) i where "put a k = (Inr IO_OK, Some i)" "0 < i" "i \<le> n"
  | (blocked) s w where "put a k = (Inr s, w)" "s = NEED_READ \<or> s = NEED_WRITE"
  | (failed) st w where "put a k = (Inl st, w)" "\<not> ok st"
proof (cases "put a k")
  case (Pair st w)
  show ?thesis
  proof (cases st)
    case (Inl e)
    with Pair show ?thesis using write_error failed by blast
  next
    case (Inr s)
    then consider "s = IO_OK" | "s = NEED_READ \<or> s = NEED_WRITE" | "s = FEOF" by (cases s) auto
    then show ?thesis
    proof cases
      case 1
      then show ?thesis using write_ok [OF assms] Pair Inr sent by blast
    next
      case 2
      then show ?thesis using Pair Inr blocked by blast
    next
      case 3
      then show ?thesis using write_not_eof Pair Inr by blast
    qed
  qed
qed

lemma read_cases:
  assumes "read_allowed n k a"
  obtains (got) i where "get a k = (Inr IO_OK, Some i)" "i \<le> n"
  | (blocked) s r where "get a k = (Inr s, r)" "s = NEED_READ \<or> s = NEED_WRITE \<or> s = FEOF"
  | (failed) st r where "get a k = (Inl st, r)" "\<not> ok st"
proof (cases "get a k")
  case (Pair st r)
  show ?thesis
  proof (cases st)
    case (Inl e)
    with Pair show ?thesis using read_error failed by blast
  next
    case (Inr s)
    then consider "s = IO_OK" | "s = NEED_READ \<or> s = NEED_WRITE \<or> s = FEOF" by (cases s) auto
    then show ?thesis
    proof cases
      case 1
      then show ?thesis using read_ok [OF assms] Pair Inr got by blast
    next
      case 2
      then show ?thesis using Pair Inr blocked by blast
    qed
  qed
qed

end

text \<open>\<^verbatim>\<open>write(2)\<close> and \<^verbatim>\<open>read(2)\<close> return at most the count they were given, a write of a positive
  count to a socket at least one; the TLS calls likewise.\<close>

definition sys_write_allowed :: "nat \<Rightarrow> answer \<Rightarrow> bool" where
  "sys_write_allowed n a = (case a of Returned i \<Rightarrow> 0 < i \<and> i \<le> int n | Failed e \<Rightarrow> True)"

definition sys_read_allowed :: "nat \<Rightarrow> answer \<Rightarrow> bool" where
  "sys_read_allowed n a = (case a of Returned i \<Rightarrow> 0 \<le> i \<and> i \<le> int n | Failed e \<Rightarrow> True)"

definition ssl_allowed :: "nat \<Rightarrow> ssl_answer \<Rightarrow> bool" where
  "ssl_allowed n a \<longleftrightarrow> ssl_result a \<le> int n"

definition sock_write_allowed :: "nat \<Rightarrow> sock \<Rightarrow> io_answer \<Rightarrow> bool" where
  "sock_write_allowed n k a =
     (case k of Plain s \<Rightarrow> sys_write_allowed n (on_sys a) | Tls t \<Rightarrow> ssl_allowed n (on_ssl a))"

definition sock_read_allowed :: "nat \<Rightarrow> sock \<Rightarrow> io_answer \<Rightarrow> bool" where
  "sock_read_allowed n k a =
     (case k of Plain s \<Rightarrow> sys_read_allowed n (on_sys a) | Tls t \<Rightarrow> ssl_allowed n (on_ssl a))"

lemma makeTLSError_not_ok [simp]: "\<not> ok (makeTLSError M e)"
  by (simp add: makeTLSError_def)

lemmas transfer_defs =
  sock_write_def sock_read_def Socket_write_def Socket_read_def TLSSocket_write_def TLSSocket_read_def
  sock_write_allowed_def sock_read_allowed_def sys_write_allowed_def sys_read_allowed_def ssl_allowed_def

interpretation so: transfers "sock_write M" "sock_read M" sock_write_allowed sock_read_allowed for M
proof unfold_locales
  show "sock_write_allowed n k a \<Longrightarrow> sock_write M a k = (Inr IO_OK, w) \<Longrightarrow> \<exists>i. w = Some i \<and> 0 < i \<and> i \<le> n"
    for n k a w by (auto simp: transfer_defs split: sock.splits answer.splits if_splits)
  show "sock_write M a k \<noteq> (Inr FEOF, w)" for a k w
    by (auto simp: transfer_defs split: sock.splits answer.splits if_splits)
  show "sock_write M a k = (Inl st, w) \<Longrightarrow> \<not> ok st" for a k st w
    by (auto simp: transfer_defs split: sock.splits answer.splits if_splits)
  show "sock_read_allowed n k a \<Longrightarrow> sock_read M a k = (Inr IO_OK, r) \<Longrightarrow> \<exists>i. r = Some i \<and> i \<le> n"
    for n k a r by (auto simp: transfer_defs split: sock.splits answer.splits if_splits)
  show "sock_read M a k = (Inl st, r) \<Longrightarrow> \<not> ok st" for a k st r
    by (auto simp: transfer_defs split: sock.splits answer.splits if_splits)
qed

text \<open>A failed \<open>connect\<close> closes the same descriptor twice: when any call after \<^verbatim>\<open>socket\<close> fails, the
  descriptor is closed but stays in \<^verbatim>\<open>fd_\<close>, and the destructor closes its number again, which by
  then may belong to another connection of another thread.\<close>

theorem failed_connect_closes_twice:
  assumes "on_socket A = Returned n" and "0 < n"
    and "Socket_connect M A addr new_Socket = Some (st, s, closed)" and "\<not> ok st"
  shows "closed @ destroy_Socket s = [n, n]"
  using assms
  by (auto simp: Socket_connect_def connect_failed_def destroy_Socket_def Let_def
      split: option.splits if_splits Option.bind_splits)

definition refused :: connect_answers where
  "refused = \<lparr>on_socket = Returned 7, stale_errno = 0, on_nodelay = None, on_reuseaddr = None,
     on_linger = None, on_fcntl = None, on_connect = Some 101, ssl_new_ok = True, ssl_new_error = 0,
     on_set_fd = 1, on_set_host = 1\<rparr>"

lemma failed_connect_closes_twice_witness:
  "snd (snd (the (Socket_connect \<lparr>sys_message = show_int, tls_message = show_int\<rparr> refused
      \<lparr>ss_family = AF_INET, sa_data = replicate 14 NUL\<rparr> new_Socket))) @
    destroy_Socket (fst (snd (the (Socket_connect \<lparr>sys_message = show_int, tls_message = show_int\<rparr> refused
      \<lparr>ss_family = AF_INET, sa_data = replicate 14 NUL\<rparr> new_Socket)))) = [7, 7]"
proof -
  let ?M = "\<lparr>sys_message = show_int, tls_message = show_int\<rparr>"
  let ?a = "\<lparr>ss_family = AF_INET, sa_data = replicate 14 NUL\<rparr>"
  have c: "Socket_connect ?M refused ?a new_Socket =
      Some (Status_errno show_int SOCKET_ERROR 101, \<lparr>fd = 7\<rparr>, [7])"
    by (simp add: Socket_connect_def refused_def get_addr_def length_addr_def connect_failed_def
        new_Socket_def EINPROGRESS_def)
  show ?thesis
    using failed_connect_closes_twice [OF _ _ c, of 7] c by (simp add: refused_def)
qed

end
