(* ===== verification/Counters.thy ===== *)
theory Counters
  imports Prelude
begin

text \<open>
  The counting side of the program, shared by the connections and the reports: the counters of
  one I/O thread (\<^verbatim>\<open>Counters\<close> of \<^verbatim>\<open>apib/apib_reporting.h\<close>, with the functions of
  \<^verbatim>\<open>apib/apib_iothread.cc\<close> that update and exchange them) and the process-wide tallies of
  connections and socket errors. The counters are 64 bits wide, so they are integers here.
\<close>

record Counters =
  successfulRequests :: int
  failedRequests :: int
  bytesRead :: int
  bytesWritten :: int
  latencies :: "int list"

definition new_Counters :: Counters where
  "new_Counters = \<lparr>successfulRequests = 0, failedRequests = 0, bytesRead = 0, bytesWritten = 0, latencies = []\<rparr>"

definition recordResult :: "int \<Rightarrow> int \<Rightarrow> Counters \<Rightarrow> Counters" where
  "recordResult statusCode latency c =
     (let c1 = (if statusCode \<ge> 200 \<and> statusCode < 300
                then c\<lparr>successfulRequests := successfulRequests c + 1\<rparr>
                else c\<lparr>failedRequests := failedRequests c + 1\<rparr>)
      in c1\<lparr>latencies := latencies c1 @ [latency]\<rparr>)"

definition recordRead :: "nat \<Rightarrow> Counters \<Rightarrow> Counters" where
  "recordRead n c = c\<lparr>bytesRead := bytesRead c + int n\<rparr>"

definition recordWrite :: "nat \<Rightarrow> Counters \<Rightarrow> Counters" where
  "recordWrite n c = c\<lparr>bytesWritten := bytesWritten c + int n\<rparr>"

text \<open>\<open>exchangeCounters\<close> is one atomic exchange: the old counters, and the thread's new ones.\<close>

definition exchangeCounters :: "Counters \<Rightarrow> Counters \<times> Counters" where
  "exchangeCounters c = (c, new_Counters)"

record Tallies =
  reporting :: bool
  socketErrors :: int
  connectionsOpened :: int

definition RecordSocketError :: "Tallies \<Rightarrow> Tallies" where
  "RecordSocketError g = (if \<not> reporting g then g else g\<lparr>socketErrors := socketErrors g + 1\<rparr>)"

definition RecordConnectionOpen :: "Tallies \<Rightarrow> Tallies" where
  "RecordConnectionOpen g = (if \<not> reporting g then g else g\<lparr>connectionsOpened := connectionsOpened g + 1\<rparr>)"

section \<open>What the counters count\<close>

text \<open>\<open>requests\<close> is the number of results recorded; the three ways of counting them agree.\<close>

definition requests :: "Counters \<Rightarrow> int" where
  "requests c = successfulRequests c + failedRequests c"

definition counters_ok :: "Counters \<Rightarrow> bool" where
  "counters_ok c \<longleftrightarrow>
     0 \<le> successfulRequests c \<and> 0 \<le> failedRequests c \<and> 0 \<le> bytesRead c \<and> 0 \<le> bytesWritten c \<and>
     requests c = int (length (latencies c))"

lemma new_Counters_ok [simp]: "counters_ok new_Counters"
  by (simp add: counters_ok_def requests_def new_Counters_def)

lemma new_Counters_simps [simp]:
  "requests new_Counters = 0" "latencies new_Counters = []" "bytesRead new_Counters = 0"
  "bytesWritten new_Counters = 0" "successfulRequests new_Counters = 0" "failedRequests new_Counters = 0"
  by (simp_all add: requests_def new_Counters_def)

lemma recordResult_simps [simp]:
  "requests (recordResult st l c) = requests c + 1"
  "latencies (recordResult st l c) = latencies c @ [l]"
  "bytesRead (recordResult st l c) = bytesRead c"
  "bytesWritten (recordResult st l c) = bytesWritten c"
  by (simp_all add: recordResult_def requests_def Let_def)

lemma record_bytes_simps [simp]:
  "requests (recordRead n c) = requests c" "requests (recordWrite n c) = requests c"
  "latencies (recordRead n c) = latencies c" "latencies (recordWrite n c) = latencies c"
  "bytesRead (recordRead n c) = bytesRead c + int n" "bytesRead (recordWrite n c) = bytesRead c"
  "bytesWritten (recordWrite n c) = bytesWritten c + int n" "bytesWritten (recordRead n c) = bytesWritten c"
  by (simp_all add: recordRead_def recordWrite_def requests_def)

lemma record_ok [simp, intro]:
  assumes "counters_ok c"
  shows "counters_ok (recordResult st l c)" "counters_ok (recordRead n c)" "counters_ok (recordWrite n c)"
  using assms by (simp_all add: counters_ok_def recordResult_def recordRead_def recordWrite_def requests_def Let_def)

end
