(* ===== verification/Counter_Exchange.thy ===== *)
theory Counter_Exchange
  imports Counters
begin

text \<open>
  The exchange of a thread's counters at the grain of its memory accesses: class \<^verbatim>\<open>IOThread\<close>
  keeps a pointer to its \<^verbatim>\<open>Counters\<close> in an atomic word (\<^verbatim>\<open>counterPtr_\<close>). Recording a result loads
  the pointer and then changes the object; the main thread exchanges the pointer and then reads
  the old object and keeps it (\<^verbatim>\<open>ReportIntervalResults\<close>, \<^verbatim>\<open>RecordStop\<close>) or frees it
  (\<^verbatim>\<open>RecordStart\<close>). The rest of the development takes both for atomic; here they are not, and an
  access to a freed object is the value \<^const>\<open>None\<close>.
\<close>

section \<open>State and steps\<close>

text \<open>What the I/O thread is doing: nothing, or recording a result into the object it has loaded.\<close>

datatype io_state = Idle | Recording nat int int

record shared =
  objects :: "Counters list"      \<comment> \<open>every object allocated; its number is its address\<close>
  freed :: "nat list"
  counterPtr :: nat
  io :: io_state
  kept :: "nat list"              \<comment> \<open>\<^verbatim>\<open>accumulatedResults\<close>\<close>
  total :: int                    \<comment> \<open>results added to the totals\<close>

datatype access = Load int int | Update | Exchange_keep | Exchange_free

text \<open>\<open>Load\<close> and \<open>Update\<close> are the two halves of \<^verbatim>\<open>recordResult\<close>; the exchanges allocate new counters.\<close>

fun shared_step :: "access \<Rightarrow> shared \<Rightarrow> shared option" where
  "shared_step (Load status latency) m =
     (if io m = Idle then Some (m\<lparr>io := Recording (counterPtr m) status latency\<rparr>) else None)"
| "shared_step Update m =
     (case io m of
        Idle \<Rightarrow> None
      | Recording p status latency \<Rightarrow>
          if p \<in> set (freed m) \<or> length (objects m) \<le> p then None
          else Some (m\<lparr>objects := (objects m)[p := recordResult status latency (objects m ! p)], io := Idle\<rparr>))"
| "shared_step Exchange_keep m =
     (let old = counterPtr m in
      if old \<in> set (freed m) \<or> length (objects m) \<le> old then None
      else Some (m\<lparr>objects := objects m @ [new_Counters], counterPtr := length (objects m), kept := kept m @ [old],
                  total := total m + requests (objects m ! old)\<rparr>))"
| "shared_step Exchange_free m =
     (let old = counterPtr m in
      if old \<in> set (freed m) then None
      else Some (m\<lparr>objects := objects m @ [new_Counters], counterPtr := length (objects m), freed := freed m @ [old]\<rparr>))"

fun shared_run :: "access list \<Rightarrow> shared \<Rightarrow> shared option" where
  "shared_run [] m = Some m"
| "shared_run (a # as) m = (case shared_step a m of None \<Rightarrow> None | Some m' \<Rightarrow> shared_run as m')"

definition live :: "shared \<Rightarrow> bool" where
  "live m \<longleftrightarrow> counterPtr m < length (objects m) \<and> counterPtr m \<notin> set (freed m) \<and> distinct (kept m @ [counterPtr m]) \<and>
     list_all (\<lambda>p. p < length (objects m)) (kept m @ freed m)"

text \<open>The results counted so far, and the latencies kept for the report.\<close>

definition counted_requests :: "shared \<Rightarrow> int" where
  "counted_requests m = total m + requests (objects m ! counterPtr m)"

definition kept_latencies :: "shared \<Rightarrow> int list" where
  "kept_latencies m = concat (map (\<lambda>p. latencies (objects m ! p)) (kept m @ [counterPtr m]))"

section \<open>Undisturbed recording\<close>

lemma recording_counts:
  assumes "live m" "io m = Idle"
  obtains m' where "shared_run [Load status latency, Update] m = Some m'" "live m'"
    "counted_requests m' = counted_requests m + 1" "io m' = Idle"
proof -
  let ?m = "m\<lparr>objects := (objects m)[counterPtr m := recordResult status latency (objects m ! counterPtr m)]\<rparr>"
  have "shared_run [Load status latency, Update] m = Some ?m"
    using assms by (simp add: live_def)
  moreover have "live ?m" "counted_requests ?m = counted_requests m + 1"
    using assms(1) by (simp_all add: live_def counted_requests_def)
  ultimately show ?thesis using that assms(2) by simp
qed

section \<open>Properties\<close>

text \<open>C40. Recording a result races with the exchange of the counters. If the main thread exchanges the
  pointer between the load and the update of a recording thread, then at the end of an interval
  the result is added to no total although its latency is kept for the report, so the two
  disagree; and at the start of a run the update goes to freed memory.\<close>

theorem exchange_races_with_recording:
  assumes "live m" "io m = Idle"
  shows "\<exists>m'. shared_run [Load status latency, Exchange_keep, Update] m = Some m' \<and> live m' \<and>
      counted_requests m' = counted_requests m \<and>
      kept_latencies m' = kept_latencies m @ [latency] \<and>
      shared_run [Load status latency, Exchange_free, Update] m = None"
proof -
  let ?p = "counterPtr m" and ?n = "length (objects m)"
  let ?o = "(objects m @ [new_Counters])[?p := recordResult status latency (objects m ! ?p)]"
  let ?m = "m\<lparr>objects := ?o, counterPtr := ?n, kept := kept m @ [?p], total := total m + requests (objects m ! ?p)\<rparr>"
  have l: "?p < ?n" "?p \<notin> set (freed m)" "?p \<notin> set (kept m)" "distinct (kept m)" "\<forall>q \<in> set (kept m). q < ?n" "\<forall>q \<in> set (freed m). q < ?n"
    using assms(1) by (auto simp: live_def list_all_iff)
  have run: "shared_run [Load status latency, Exchange_keep, Update] m = Some ?m"
    using assms(2) l by (simp add: nth_append Let_def)
  have lv: "live ?m" using l by (auto simp: live_def list_all_iff intro: less_SucI)
  have cr: "counted_requests ?m = counted_requests m"
    using l by (simp add: counted_requests_def nth_append nth_list_update)
  have "concat (map (\<lambda>q. latencies (?o ! q)) (kept m)) = concat (map (\<lambda>q. latencies (objects m ! q)) (kept m))"
    using l by (intro arg_cong [of _ _ concat] map_cong) (auto simp: nth_append nth_list_update)
  moreover have "latencies (?o ! ?p) = latencies (objects m ! ?p) @ [latency]" "latencies (?o ! ?n) = []"
    using l by (simp_all add: nth_append nth_list_update)
  ultimately have "kept_latencies ?m = kept_latencies m @ [latency]"
    unfolding kept_latencies_def shared.simps by (simp del: map_map)
  moreover have "shared_run [Load status latency, Exchange_free, Update] m = None"
    using assms(2) l by (simp add: Let_def)
  ultimately show ?thesis using run lv cr by blast
qed

lemma exchange_races_with_recording_witness:
  "\<exists>m'. shared_run [Load 200 5, Exchange_keep, Update]
      \<lparr>objects = [new_Counters], freed = [], counterPtr = 0, io = Idle, kept = [], total = 0\<rparr> = Some m' \<and>
    counted_requests m' = 0 \<and> kept_latencies m' = [5]"
proof -
  let ?m = "\<lparr>objects = [new_Counters], freed = [], counterPtr = 0, io = Idle, kept = [], total = 0\<rparr>"
  have "live ?m" "io ?m = Idle" "counted_requests ?m = 0" "kept_latencies ?m = []"
    by (simp_all add: live_def counted_requests_def kept_latencies_def)
  with exchange_races_with_recording [of ?m 200 5] show ?thesis by auto
qed

end
