(* ===== verification/Http_Message.thy ===== *)
theory Http_Message
  imports Url_Parser
begin

text \<open>
  The HTTP parser the program embeds, \<^verbatim>\<open>third_party/http_parser/http_parser.{h,c}\<close>, for responses and
  as the program uses it: \<^verbatim>\<open>HTTP_PARSER_STRICT\<close> is 0, \<^verbatim>\<open>lenient_http_headers\<close> is off, and
  \<^verbatim>\<open>on_message_complete\<close> is the only callback (its calls are the third result of
  \<open>http_parser_execute\<close>), so the marks, which only tell the other callbacks where their text starts,
  are left out. The states of requests cannot be reached from \<^verbatim>\<open>s_start_res\<close>. The local variables
  \<^verbatim>\<open>p_state\<close> and \<^verbatim>\<open>nread\<close> are the parser's own fields, as every return writes them back.
  \<^const>\<open>None\<close> is a failed \<^verbatim>\<open>assert\<close>.
\<close>

section \<open>Constants and characters\<close>

definition ULLONG_MAX :: nat where "ULLONG_MAX = 2 ^ 64 - 1"
definition max_header_size :: nat where "max_header_size = 80 * 1024"

definition HPE_INVALID_EOF_STATE :: nat where "HPE_INVALID_EOF_STATE = 11"
definition HPE_HEADER_OVERFLOW :: nat where "HPE_HEADER_OVERFLOW = 12"
definition HPE_INVALID_VERSION :: nat where "HPE_INVALID_VERSION = 14"
definition HPE_INVALID_STATUS :: nat where "HPE_INVALID_STATUS = 15"
definition HPE_LF_EXPECTED :: nat where "HPE_LF_EXPECTED = 23"
definition HPE_INVALID_HEADER_TOKEN :: nat where "HPE_INVALID_HEADER_TOKEN = 24"
definition HPE_INVALID_CONTENT_LENGTH :: nat where "HPE_INVALID_CONTENT_LENGTH = 25"
definition HPE_UNEXPECTED_CONTENT_LENGTH :: nat where "HPE_UNEXPECTED_CONTENT_LENGTH = 26"
definition HPE_INVALID_CHUNK_SIZE :: nat where "HPE_INVALID_CHUNK_SIZE = 27"
definition HPE_INVALID_CONSTANT :: nat where "HPE_INVALID_CONSTANT = 28"

text \<open>The table of token characters, which also changes letters to lower case; NUL stands for 0.\<close>

definition TOKEN :: "char \<Rightarrow> char" where
  "TOKEN c =
     (if is_upper c then char_of (byte_of c + 32)
      else if is_lower c \<or> is_digit c \<or> c \<in> set '' !#$%&*+-.^_`|~'' \<or> c = CHR 0x27 then c
      else NUL)"

definition STRICT_TOKEN :: "char \<Rightarrow> char" where
  "STRICT_TOKEN c = (if c = CHR '' '' then NUL else TOKEN c)"

definition lower_char :: "char \<Rightarrow> char" where
  "lower_char c = char_of (LOWER c)"

definition IS_HEADER_CHAR :: "char \<Rightarrow> bool" where
  "IS_HEADER_CHAR c \<longleftrightarrow> c = CR \<or> c = LF \<or> c = TAB \<or> 31 < byte_of c \<and> byte_of c \<noteq> 127"

definition digit_val :: "char \<Rightarrow> nat" where
  "digit_val c = byte_of c - 48"

text \<open>The table has 128 entries of 256: the bytes from 128 on have the value 0, not -1.\<close>

definition unhex :: "char \<Rightarrow> nat option" where
  "unhex c =
     (if is_digit c then Some (byte_of c - 48)
      else if 65 \<le> byte_of c \<and> byte_of c \<le> 70 then Some (byte_of c - 55)
      else if 97 \<le> byte_of c \<and> byte_of c \<le> 102 then Some (byte_of c - 87)
      else if 128 \<le> byte_of c then Some 0
      else None)"

section \<open>The parser\<close>

datatype parser_state =
    s_start_res | s_res_H | s_res_HT | s_res_HTT | s_res_HTTP
  | s_res_http_major | s_res_http_dot | s_res_http_minor | s_res_http_end
  | s_res_first_status_code | s_res_status_code | s_res_status_start | s_res_status
  | s_res_line_almost_done
  | s_header_field_start | s_header_field | s_header_value_discard_ws
  | s_header_value_discard_ws_almost_done | s_header_value_discard_lws | s_header_value_start
  | s_header_value | s_header_value_lws | s_header_almost_done
  | s_chunk_size_start | s_chunk_size | s_chunk_parameters | s_chunk_size_almost_done
  | s_headers_almost_done | s_headers_done
  | s_chunk_data | s_chunk_data_almost_done | s_chunk_data_done
  | s_body_identity | s_body_identity_eof | s_message_done

datatype header_states =
    h_general | h_C | h_CO | h_CON
  | h_matching_connection | h_matching_proxy_connection | h_matching_content_length
  | h_matching_transfer_encoding | h_matching_upgrade
  | h_connection | h_content_length | h_content_length_num | h_content_length_ws
  | h_transfer_encoding | h_upgrade
  | h_matching_transfer_encoding_token_start | h_matching_transfer_encoding_chunked
  | h_matching_transfer_encoding_token
  | h_matching_connection_token_start | h_matching_connection_keep_alive
  | h_matching_connection_close | h_matching_connection_upgrade | h_matching_connection_token
  | h_transfer_encoding_chunked | h_connection_keep_alive | h_connection_close | h_connection_upgrade

record http_parser =
  pstate :: parser_state
  header_state :: header_states
  p_index :: nat
  flag_chunked :: bool
  flag_keep_alive :: bool
  flag_close :: bool
  flag_connection_upgrade :: bool
  flag_trailing :: bool
  flag_upgrade :: bool
  flag_skipbody :: bool
  flag_content_length :: bool
  flag_transfer_encoding :: bool
  nread :: nat
  content_length :: nat
  http_major :: nat
  http_minor :: nat
  status_code :: nat
  http_errno :: nat
  p_upgrade :: bool

text \<open>\<^verbatim>\<open>http_parser_init\<close> for \<^verbatim>\<open>HTTP_RESPONSE\<close>.\<close>

definition http_parser_init :: http_parser where
  "http_parser_init =
     \<lparr>pstate = s_start_res, header_state = h_general, p_index = 0, flag_chunked = False,
      flag_keep_alive = False, flag_close = False, flag_connection_upgrade = False, flag_trailing = False,
      flag_upgrade = False, flag_skipbody = False, flag_content_length = False,
      flag_transfer_encoding = False, nread = 0, content_length = 0, http_major = 0, http_minor = 0,
      status_code = 0, http_errno = 0, p_upgrade = False\<rparr>"

definition http_message_needs_eof :: "http_parser \<Rightarrow> bool" where
  "http_message_needs_eof p =
     (if status_code p div 100 = 1 \<or> status_code p = 204 \<or> status_code p = 304 \<or> flag_skipbody p then False
      else if flag_transfer_encoding p \<and> \<not> flag_chunked p then True
      else if flag_chunked p \<or> content_length p \<noteq> ULLONG_MAX then False
      else True)"

definition http_should_keep_alive :: "http_parser \<Rightarrow> bool" where
  "http_should_keep_alive p =
     (if http_major p > 0 \<and> http_minor p > 0
      then (if flag_close p then False else \<not> http_message_needs_eof p)
      else (if \<not> flag_keep_alive p then False else \<not> http_message_needs_eof p))"

section \<open>One byte\<close>

text \<open>
  An iteration of the loop over the input at byte \<^verbatim>\<open>p\<close> either ends with \<^verbatim>\<open>p\<close> moved by a number of further
  bytes, before \<^verbatim>\<open>p++\<close> (\<open>Goes_on\<close>), or returns the parser and a number of bytes, counted from \<^verbatim>\<open>p\<close>
  (\<open>Returns\<close>). Both say whether \<^verbatim>\<open>on_message_complete\<close> was called.
\<close>

datatype step = Goes_on http_parser nat bool | Returns http_parser nat bool

fun shift :: "nat \<Rightarrow> step \<Rightarrow> step" where
  "shift n (Goes_on p k m) = Goes_on p (n + k) m"
| "shift n (Returns p k m) = Returns p (n + k) m"

abbreviation goes_on :: "http_parser \<Rightarrow> step" where "goes_on p \<equiv> Goes_on p 0 False"

definition fails :: "nat \<Rightarrow> http_parser \<Rightarrow> step" where
  "fails e p = Returns (p\<lparr>http_errno := e\<rparr>) 0 False"

definition PARSING_HEADER :: "parser_state \<Rightarrow> bool" where
  "PARSING_HEADER s \<longleftrightarrow>
     s \<notin> {s_chunk_data, s_chunk_data_almost_done, s_chunk_data_done, s_body_identity, s_body_identity_eof, s_message_done}"

text \<open>\<^verbatim>\<open>COUNT_HEADER_SIZE\<close>: the new count, and the test.\<close>

definition count_header :: "nat \<Rightarrow> http_parser \<Rightarrow> http_parser" where
  "count_header v p = p\<lparr>nread := (nread p + v) mod 2 ^ 32\<rparr>"

definition overflowed :: "http_parser \<Rightarrow> bool" where
  "overflowed p \<longleftrightarrow> nread p > max_header_size"

text \<open>The cases of the \<^verbatim>\<open>switch\<close>, those first to which others continue with \<^verbatim>\<open>REEXECUTE\<close>. A new message
  starts in \<^verbatim>\<open>s_start_res\<close>.\<close>

definition on_message_done :: "http_parser \<Rightarrow> step" where
  "on_message_done p0 =
     (let p = p0\<lparr>pstate := s_start_res\<rparr> in
      if p_upgrade p then Returns p 1 True else Goes_on p 0 True)"

definition on_headers_done :: "http_parser \<Rightarrow> step" where
  "on_headers_done p0 =
     (let p = p0\<lparr>nread := 0\<rparr>;
          hasBody = (flag_chunked p \<or> content_length p > 0 \<and> content_length p \<noteq> ULLONG_MAX);
          new_message = p\<lparr>pstate := s_start_res\<rparr>
      in if p_upgrade p \<and> (flag_skipbody p \<or> \<not> hasBody) then Returns new_message 1 True
         else if flag_skipbody p then Goes_on new_message 0 True
         else if flag_chunked p then goes_on (p\<lparr>pstate := s_chunk_size_start\<rparr>)
         else if flag_transfer_encoding p then goes_on (p\<lparr>pstate := s_body_identity_eof\<rparr>)
         else if content_length p = 0 then Goes_on new_message 0 True
         else if content_length p \<noteq> ULLONG_MAX then goes_on (p\<lparr>pstate := s_body_identity\<rparr>)
         else if \<not> http_message_needs_eof p then Goes_on new_message 0 True
         else goes_on (p\<lparr>pstate := s_body_identity_eof\<rparr>))"

definition on_headers_almost_done :: "http_parser \<Rightarrow> step" where
  "on_headers_almost_done p =
     (if flag_trailing p then on_message_done (p\<lparr>pstate := s_message_done\<rparr>)
      else if flag_transfer_encoding p \<and> flag_content_length p then fails HPE_UNEXPECTED_CONTENT_LENGTH p
      else on_headers_done (p\<lparr>pstate := s_headers_done,
             p_upgrade := (flag_upgrade p \<and> flag_connection_upgrade p \<and> status_code p = 101)\<rparr>))"

definition first_header_state :: "char \<Rightarrow> header_states" where
  "first_header_state c =
     (if c = CHR ''c'' then h_C
      else if c = CHR ''p'' then h_matching_proxy_connection
      else if c = CHR ''t'' then h_matching_transfer_encoding
      else if c = CHR ''u'' then h_matching_upgrade
      else h_general)"

definition on_header_field_start :: "char \<Rightarrow> http_parser \<Rightarrow> step" where
  "on_header_field_start ch p =
     (if ch = CR then goes_on (p\<lparr>pstate := s_headers_almost_done\<rparr>)
      else if ch = LF then on_headers_almost_done (p\<lparr>pstate := s_headers_almost_done\<rparr>)
      else if TOKEN ch = NUL then fails HPE_INVALID_HEADER_TOKEN p
      else goes_on (p\<lparr>p_index := 0, pstate := s_header_field, header_state := first_header_state (TOKEN ch)\<rparr>))"

text \<open>A header has ended: what its value has set. The end of an empty value has the same cases.\<close>

definition finish_header :: "http_parser \<Rightarrow> http_parser" where
  "finish_header p =
     (case header_state p of
        h_connection_keep_alive \<Rightarrow> p\<lparr>flag_keep_alive := True\<rparr>
      | h_connection_close \<Rightarrow> p\<lparr>flag_close := True\<rparr>
      | h_transfer_encoding_chunked \<Rightarrow> p\<lparr>flag_chunked := True\<rparr>
      | h_connection_upgrade \<Rightarrow> p\<lparr>flag_connection_upgrade := True\<rparr>
      | _ \<Rightarrow> p)"

definition on_header_value_start :: "char \<Rightarrow> http_parser \<Rightarrow> step" where
  "on_header_value_start ch p0 =
     (let p = p0\<lparr>pstate := s_header_value, p_index := 0\<rparr>; c = lower_char ch in
      case header_state p of
        h_upgrade \<Rightarrow> goes_on (p\<lparr>flag_upgrade := True, header_state := h_general\<rparr>)
      | h_transfer_encoding \<Rightarrow>
          goes_on (p\<lparr>header_state := (if c = CHR ''c'' then h_matching_transfer_encoding_chunked
                                      else h_matching_transfer_encoding_token)\<rparr>)
      | h_matching_transfer_encoding_token_start \<Rightarrow> goes_on p
      | h_content_length \<Rightarrow>
          if \<not> IS_NUM ch then fails HPE_INVALID_CONTENT_LENGTH p
          else if flag_content_length p then fails HPE_UNEXPECTED_CONTENT_LENGTH p
          else goes_on (p\<lparr>flag_content_length := True, content_length := digit_val ch,
                 header_state := h_content_length_num\<rparr>)
      | h_content_length_ws \<Rightarrow> goes_on p
      | h_connection \<Rightarrow>
          goes_on (p\<lparr>header_state := (if c = CHR ''k'' then h_matching_connection_keep_alive
                                      else if c = CHR ''c'' then h_matching_connection_close
                                      else if c = CHR ''u'' then h_matching_connection_upgrade
                                      else h_matching_connection_token)\<rparr>)
      | h_matching_connection_token_start \<Rightarrow> goes_on p
      | _ \<Rightarrow> goes_on (p\<lparr>header_state := h_general\<rparr>))"

definition on_header_value_discard_ws :: "char \<Rightarrow> http_parser \<Rightarrow> step" where
  "on_header_value_discard_ws ch p =
     (if ch = CHR '' '' \<or> ch = TAB then goes_on p
      else if ch = CR then goes_on (p\<lparr>pstate := s_header_value_discard_ws_almost_done\<rparr>)
      else if ch = LF then goes_on (p\<lparr>pstate := s_header_value_discard_lws\<rparr>)
      else on_header_value_start ch p)"

definition on_header_value_discard_lws :: "char \<Rightarrow> http_parser \<Rightarrow> step" where
  "on_header_value_discard_lws ch p =
     (if ch = CHR '' '' \<or> ch = TAB then goes_on (p\<lparr>pstate := s_header_value_discard_ws\<rparr>)
      else if header_state p = h_content_length then fails HPE_INVALID_CONTENT_LENGTH p
      else on_header_field_start ch ((finish_header p)\<lparr>pstate := s_header_field_start\<rparr>))"

definition on_header_value_lws :: "char \<Rightarrow> http_parser \<Rightarrow> step" where
  "on_header_value_lws ch p =
     (if ch = CHR '' '' \<or> ch = TAB then
        on_header_value_start ch
          ((if header_state p = h_content_length_num then p\<lparr>header_state := h_content_length_ws\<rparr> else p)
             \<lparr>pstate := s_header_value_start\<rparr>)
      else on_header_field_start ch ((finish_header p)\<lparr>pstate := s_header_field_start\<rparr>))"

definition on_header_almost_done :: "char \<Rightarrow> http_parser \<Rightarrow> step" where
  "on_header_almost_done ch p =
     (if ch \<noteq> LF then fails HPE_LF_EXPECTED p else goes_on (p\<lparr>pstate := s_header_value_lws\<rparr>))"

section \<open>Runs of bytes\<close>

text \<open>Another byte of the name of a header. The index has five bits.\<close>

definition next_index :: "http_parser \<Rightarrow> http_parser" where
  "next_index p = p\<lparr>p_index := (p_index p + 1) mod 32\<rparr>"

definition match_field :: "string \<Rightarrow> header_states \<Rightarrow> char \<Rightarrow> http_parser \<Rightarrow> http_parser" where
  "match_field word found c p0 =
     (let p = next_index p0 in
      if p_index p > length word \<or> c \<noteq> (word @ [NUL]) ! p_index p then p\<lparr>header_state := h_general\<rparr>
      else if p_index p = length word - 1 then p\<lparr>header_state := found\<rparr>
      else p)"

definition header_field_char :: "char \<Rightarrow> http_parser \<Rightarrow> http_parser option" where
  "header_field_char ch p =
     (let c = TOKEN ch in
      case header_state p of
        h_general \<Rightarrow> Some p
      | h_C \<Rightarrow> Some ((next_index p)\<lparr>header_state := (if c = CHR ''o'' then h_CO else h_general)\<rparr>)
      | h_CO \<Rightarrow> Some ((next_index p)\<lparr>header_state := (if c = CHR ''n'' then h_CON else h_general)\<rparr>)
      | h_CON \<Rightarrow>
          Some ((next_index p)\<lparr>header_state := (if c = CHR ''n'' then h_matching_connection
                                                else if c = CHR ''t'' then h_matching_content_length
                                                else h_general)\<rparr>)
      | h_matching_connection \<Rightarrow> Some (match_field ''connection'' h_connection c p)
      | h_matching_proxy_connection \<Rightarrow> Some (match_field ''proxy-connection'' h_connection c p)
      | h_matching_content_length \<Rightarrow> Some (match_field ''content-length'' h_content_length c p)
      | h_matching_transfer_encoding \<Rightarrow>
          (let p1 = match_field ''transfer-encoding'' h_transfer_encoding c p in
           Some (if header_state p1 = h_transfer_encoding then p1\<lparr>flag_transfer_encoding := True\<rparr> else p1))
      | h_matching_upgrade \<Rightarrow> Some (match_field ''upgrade'' h_upgrade c p)
      | h_connection \<Rightarrow> Some (if ch \<noteq> CHR '' '' then p\<lparr>header_state := h_general\<rparr> else p)
      | h_content_length \<Rightarrow> Some (if ch \<noteq> CHR '' '' then p\<lparr>header_state := h_general\<rparr> else p)
      | h_transfer_encoding \<Rightarrow> Some (if ch \<noteq> CHR '' '' then p\<lparr>header_state := h_general\<rparr> else p)
      | h_upgrade \<Rightarrow> Some (if ch \<noteq> CHR '' '' then p\<lparr>header_state := h_general\<rparr> else p)
      | _ \<Rightarrow> None)"

text \<open>The loop over a name: the parser and the number of bytes before the first one that is no token
  or the end. A name that is of no interest is skipped with a loop of its own.\<close>

definition more_tokens :: "string \<Rightarrow> nat" where
  "more_tokens rest =
     length (takeWhile (\<lambda>x. TOKEN x \<noteq> NUL) (take (min (Suc (length rest)) max_header_size - 1) rest))"

function header_field_loop :: "http_parser \<Rightarrow> string \<Rightarrow> (http_parser \<times> nat) option" where
  "header_field_loop p [] = Some (p, 0)"
| "header_field_loop p (ch # rest) =
     (if TOKEN ch = NUL then Some (p, 0)
      else do {
        p1 \<leftarrow> header_field_char ch p;
        let k = (if header_state p = h_general then more_tokens rest else 0);
        (p2, n) \<leftarrow> header_field_loop p1 (drop k rest);
        Some (p2, Suc k + n)
      })"
  by pat_completeness auto
termination
  by (relation "measure (\<lambda>(p, data). length data)") simp_all

declare header_field_loop.simps [simp del]

definition on_header_field :: "string \<Rightarrow> http_parser \<Rightarrow> step option" where
  "on_header_field data p0 = do {
     (p1, n) \<leftarrow> header_field_loop p0 data;
     if n = length data then
       let p = count_header (n - 1) p1 in
       Some (if overflowed p then Returns (p\<lparr>http_errno := HPE_HEADER_OVERFLOW\<rparr>) (n - 1) False
             else Goes_on p (n - 1) False)
     else
       let p = count_header n p1 in
       Some (if overflowed p then Returns (p\<lparr>http_errno := HPE_HEADER_OVERFLOW\<rparr>) n False
             else if data ! n = CHR '':'' then Goes_on (p\<lparr>pstate := s_header_value_discard_ws\<rparr>) n False
             else Returns (p\<lparr>http_errno := HPE_INVALID_HEADER_TOKEN\<rparr>) n False)
   }"

text \<open>Another byte of the value of a header. The loop keeps the header state in a local variable, \<open>h\<close>.
  \<open>Inl\<close> is the parser with an error.\<close>

definition match_value ::
    "string \<Rightarrow> header_states \<Rightarrow> header_states \<Rightarrow> header_states \<Rightarrow> char \<Rightarrow> http_parser \<Rightarrow> http_parser \<times> header_states" where
  "match_value word h found other c p0 =
     (let p = next_index p0 in
      if p_index p > length word \<or> c \<noteq> (word @ [NUL]) ! p_index p then (p, other)
      else if p_index p = length word - 1 then (p, found)
      else (p, h))"

definition bad_length :: "header_states \<Rightarrow> http_parser \<Rightarrow> http_parser" where
  "bad_length h p = p\<lparr>http_errno := HPE_INVALID_CONTENT_LENGTH, header_state := h\<rparr>"

definition length_digit :: "char \<Rightarrow> http_parser \<Rightarrow> http_parser + http_parser \<times> header_states" where
  "length_digit ch p =
     (if ch = CHR '' '' then Inr (p, h_content_length_ws)
      else if \<not> IS_NUM ch then Inl (bad_length h_content_length_num p)
      else if (ULLONG_MAX - 10) div 10 < content_length p then Inl (bad_length h_content_length_num p)
      else Inr (p\<lparr>content_length := content_length p * 10 + digit_val ch\<rparr>, h_content_length_num))"

definition connection_token_start :: "char \<Rightarrow> header_states" where
  "connection_token_start c =
     (if c = CHR ''k'' then h_matching_connection_keep_alive
      else if c = CHR ''c'' then h_matching_connection_close
      else if c = CHR ''u'' then h_matching_connection_upgrade
      else if STRICT_TOKEN c \<noteq> NUL then h_matching_connection_token
      else if c = CHR '' '' \<or> c = TAB then h_matching_connection_token_start
      else h_general)"

definition connection_token_end :: "char \<Rightarrow> header_states \<Rightarrow> http_parser \<Rightarrow> http_parser \<times> header_states" where
  "connection_token_end ch h p =
     (if ch = CHR '','' then
        ((finish_header (p\<lparr>header_state := h\<rparr>))\<lparr>header_state := header_state p, p_index := 0\<rparr>, h_matching_connection_token_start)
      else if ch \<noteq> CHR '' '' then (p, h_matching_connection_token)
      else (p, h))"

definition header_value_char ::
    "char \<Rightarrow> header_states \<Rightarrow> http_parser \<Rightarrow> (http_parser + http_parser \<times> header_states) option" where
  "header_value_char ch h p =
     (let c = lower_char ch in
      case h of
        h_connection \<Rightarrow> None
      | h_transfer_encoding \<Rightarrow> None
      | h_content_length \<Rightarrow> Some (if ch = CHR '' '' then Inr (p, h) else length_digit ch p)
      | h_content_length_num \<Rightarrow> Some (length_digit ch p)
      | h_content_length_ws \<Rightarrow> Some (if ch = CHR '' '' then Inr (p, h) else Inl (bad_length h p))
      | h_matching_transfer_encoding_token_start \<Rightarrow>
          Some (Inr (p, if c = CHR ''c'' then h_matching_transfer_encoding_chunked
                        else if STRICT_TOKEN c \<noteq> NUL then h_matching_transfer_encoding_token
                        else if c = CHR '' '' \<or> c = TAB then h
                        else h_general))
      | h_matching_transfer_encoding_chunked \<Rightarrow>
          Some (Inr (match_value ''chunked'' h h_transfer_encoding_chunked h_matching_transfer_encoding_token c p))
      | h_matching_transfer_encoding_token \<Rightarrow>
          Some (Inr (if ch = CHR '','' then (p\<lparr>p_index := 0\<rparr>, h_matching_transfer_encoding_token_start) else (p, h)))
      | h_matching_connection_token_start \<Rightarrow> Some (Inr (p, connection_token_start c))
      | h_matching_connection_keep_alive \<Rightarrow>
          Some (Inr (match_value ''keep-alive'' h h_connection_keep_alive h_matching_connection_token c p))
      | h_matching_connection_close \<Rightarrow>
          Some (Inr (match_value ''close'' h h_connection_close h_matching_connection_token c p))
      | h_matching_connection_upgrade \<Rightarrow>
          Some (Inr (match_value ''upgrade'' h h_connection_upgrade h_matching_connection_token c p))
      | h_matching_connection_token \<Rightarrow>
          Some (Inr (if ch = CHR '','' then (p\<lparr>p_index := 0\<rparr>, h_matching_connection_token_start) else (p, h)))
      | h_transfer_encoding_chunked \<Rightarrow>
          Some (Inr (p, if ch \<noteq> CHR '' '' then h_matching_transfer_encoding_token else h))
      | h_connection_keep_alive \<Rightarrow> Some (Inr (connection_token_end ch h p))
      | h_connection_close \<Rightarrow> Some (Inr (connection_token_end ch h p))
      | h_connection_upgrade \<Rightarrow> Some (Inr (connection_token_end ch h p))
      | _ \<Rightarrow> Some (Inr (p, h_general)))"

text \<open>How the loop over a value ends, at which offset. A value of no interest has a loop of its own, over
  at most \<open>max_header_size\<close> bytes; the byte after that many is skipped unread.\<close>

datatype value_end = At_cr | At_lf | At_end | At_error

definition value_byte :: "char \<Rightarrow> bool" where
  "value_byte x \<longleftrightarrow> x \<noteq> CR \<and> x \<noteq> LF \<and> IS_HEADER_CHAR x"

function header_value_loop ::
    "http_parser \<Rightarrow> header_states \<Rightarrow> string \<Rightarrow> (http_parser \<times> header_states \<times> nat \<times> value_end) option" where
  "header_value_loop p h [] = Some (p, h, 0, At_end)"
| "header_value_loop p h (ch # rest) =
     (if ch = CR then Some (p, h, 0, At_cr)
      else if ch = LF then Some (p, h, 0, At_lf)
      else if \<not> IS_HEADER_CHAR ch then Some (p\<lparr>http_errno := HPE_INVALID_HEADER_TOKEN\<rparr>, h, 0, At_error)
      else if h = h_general then
        let seg = take (min (Suc (length rest)) max_header_size - 1) rest;
            k = length (takeWhile value_byte seg)
        in if k < length seg then
             if seg ! k = CR \<or> seg ! k = LF then do {
               (p2, h2, n, e) \<leftarrow> header_value_loop p h (drop k rest);
               Some (p2, h2, Suc k + n, e)
             }
             else Some (p\<lparr>http_errno := HPE_INVALID_HEADER_TOKEN\<rparr>, h, Suc k, At_error)
           else if k = length rest then Some (p, h, Suc k, At_end)
           else do {
             (p2, h2, n, e) \<leftarrow> header_value_loop p h (drop (Suc k) rest);
             Some (p2, h2, Suc (Suc k) + n, e)
           }
      else do {
        r \<leftarrow> header_value_char ch h p;
        case r of Inl p1 \<Rightarrow> Some (p1, h, 0, At_error)
        | Inr (p1, h1) \<Rightarrow> do {
            (p2, h2, n, e) \<leftarrow> header_value_loop p1 h1 rest;
            Some (p2, h2, Suc n, e)
          }
      })"
  by pat_completeness auto
termination
  by (relation "measure (\<lambda>(p, h, data). length data)") (simp_all add: less_Suc_eq_le)

declare header_value_loop.simps [simp del]

definition on_header_value :: "string \<Rightarrow> http_parser \<Rightarrow> step option" where
  "on_header_value data p0 = do {
     (p1, h, n, e) \<leftarrow> header_value_loop p0 (header_state p0) data;
     Some (case e of
       At_error \<Rightarrow> Returns p1 n False
     | At_lf \<Rightarrow>
         let p = count_header n (p1\<lparr>pstate := s_header_almost_done\<rparr>) in
         if overflowed p then Returns (p\<lparr>http_errno := HPE_HEADER_OVERFLOW\<rparr>) n False
         else shift n (on_header_almost_done LF (p\<lparr>header_state := h\<rparr>))
     | At_cr \<Rightarrow>
         let p = count_header n (p1\<lparr>pstate := s_header_almost_done, header_state := h\<rparr>) in
         if overflowed p then Returns (p\<lparr>http_errno := HPE_HEADER_OVERFLOW\<rparr>) n False
         else Goes_on p n False
     | At_end \<Rightarrow>
         let p = count_header (n - 1) (p1\<lparr>header_state := h\<rparr>) in
         if overflowed p then Returns (p\<lparr>http_errno := HPE_HEADER_OVERFLOW\<rparr>) (n - 1) False
         else Goes_on p (n - 1) False)
   }"

text \<open>The bytes of a body: as many as are there, up to the length.\<close>

definition on_body_identity :: "string \<Rightarrow> http_parser \<Rightarrow> step option" where
  "on_body_identity data p0 =
     (if content_length p0 = 0 \<or> content_length p0 = ULLONG_MAX then None
      else
        let to_read = min (content_length p0) (length data);
            p = p0\<lparr>content_length := content_length p0 - to_read\<rparr>
        in Some (if content_length p = 0 then shift (to_read - 1) (on_message_done (p\<lparr>pstate := s_message_done\<rparr>))
                 else Goes_on p (to_read - 1) False))"

definition on_chunk_data :: "string \<Rightarrow> http_parser \<Rightarrow> step option" where
  "on_chunk_data data p0 =
     (if \<not> flag_chunked p0 \<or> content_length p0 = 0 \<or> content_length p0 = ULLONG_MAX then None
      else
        let to_read = min (content_length p0) (length data);
            p = p0\<lparr>content_length := content_length p0 - to_read\<rparr>
        in Some (Goes_on (if content_length p = 0 then p\<lparr>pstate := s_chunk_data_almost_done\<rparr> else p) (to_read - 1) False))"

section \<open>The status line and the sizes of chunks\<close>

definition on_start_res :: "char \<Rightarrow> http_parser \<Rightarrow> step" where
  "on_start_res ch p0 =
     (if ch = CR \<or> ch = LF then goes_on p0
      else
        let p = p0\<lparr>flag_chunked := False, flag_keep_alive := False, flag_close := False,
                  flag_connection_upgrade := False, flag_trailing := False, flag_upgrade := False,
                  flag_skipbody := False, flag_content_length := False, flag_transfer_encoding := False,
                  content_length := ULLONG_MAX\<rparr>
        in if ch = CHR ''H'' then goes_on (p\<lparr>pstate := s_res_H\<rparr>) else fails HPE_INVALID_CONSTANT p)"

definition on_status :: "char \<Rightarrow> http_parser \<Rightarrow> step" where
  "on_status ch p =
     (if ch = CR then goes_on (p\<lparr>pstate := s_res_line_almost_done\<rparr>)
      else if ch = LF then goes_on (p\<lparr>pstate := s_header_field_start\<rparr>)
      else goes_on p)"

definition on_status_start :: "char \<Rightarrow> http_parser \<Rightarrow> step" where
  "on_status_start ch p0 =
     (let p = p0\<lparr>pstate := s_res_status, p_index := 0\<rparr> in
      if ch = CR \<or> ch = LF then on_status ch p else goes_on p)"

definition on_status_code :: "char \<Rightarrow> http_parser \<Rightarrow> step" where
  "on_status_code ch p0 =
     (if \<not> IS_NUM ch then
        if ch = CHR '' '' then goes_on (p0\<lparr>pstate := s_res_status_start\<rparr>)
        else if ch = CR \<or> ch = LF then on_status_start ch (p0\<lparr>pstate := s_res_status_start\<rparr>)
        else fails HPE_INVALID_STATUS p0
      else
        let p = p0\<lparr>status_code := status_code p0 * 10 + digit_val ch\<rparr> in
        if status_code p > 999 then fails HPE_INVALID_STATUS p else goes_on p)"

definition on_first_status_code :: "char \<Rightarrow> http_parser \<Rightarrow> step" where
  "on_first_status_code ch p =
     (if \<not> IS_NUM ch then if ch = CHR '' '' then goes_on p else fails HPE_INVALID_STATUS p
      else goes_on (p\<lparr>status_code := digit_val ch, pstate := s_res_status_code\<rparr>))"

definition on_chunk_size_start :: "char \<Rightarrow> http_parser \<Rightarrow> step option" where
  "on_chunk_size_start ch p =
     (if nread p \<noteq> 1 \<or> \<not> flag_chunked p then None
      else case unhex ch of
        None \<Rightarrow> Some (fails HPE_INVALID_CHUNK_SIZE p)
      | Some v \<Rightarrow> Some (goes_on (p\<lparr>content_length := v, pstate := s_chunk_size\<rparr>)))"

definition on_chunk_size :: "char \<Rightarrow> http_parser \<Rightarrow> step option" where
  "on_chunk_size ch p =
     (if \<not> flag_chunked p then None
      else if ch = CR then Some (goes_on (p\<lparr>pstate := s_chunk_size_almost_done\<rparr>))
      else case unhex ch of
        None \<Rightarrow>
          Some (if ch = CHR '';'' \<or> ch = CHR '' '' then goes_on (p\<lparr>pstate := s_chunk_parameters\<rparr>)
                else fails HPE_INVALID_CHUNK_SIZE p)
      | Some v \<Rightarrow>
          Some (if (ULLONG_MAX - 16) div 16 < content_length p then fails HPE_INVALID_CONTENT_LENGTH p
                else goes_on (p\<lparr>content_length := content_length p * 16 + v\<rparr>)))"

definition on_chunk_parameters :: "char \<Rightarrow> http_parser \<Rightarrow> step option" where
  "on_chunk_parameters ch p =
     (if \<not> flag_chunked p then None
      else if ch = CR then Some (goes_on (p\<lparr>pstate := s_chunk_size_almost_done\<rparr>))
      else Some (goes_on p))"

definition on_chunk_size_almost_done :: "http_parser \<Rightarrow> step option" where
  "on_chunk_size_almost_done p0 =
     (if \<not> flag_chunked p0 then None
      else
        let p = p0\<lparr>nread := 0\<rparr> in
        Some (goes_on (if content_length p = 0 then p\<lparr>flag_trailing := True, pstate := s_header_field_start\<rparr>
                       else p\<lparr>pstate := s_chunk_data\<rparr>)))"

definition on_chunk_data_almost_done :: "http_parser \<Rightarrow> step option" where
  "on_chunk_data_almost_done p =
     (if \<not> flag_chunked p \<or> content_length p \<noteq> 0 then None
      else Some (goes_on (p\<lparr>pstate := s_chunk_data_done\<rparr>)))"

definition on_chunk_data_done :: "http_parser \<Rightarrow> step option" where
  "on_chunk_data_done p =
     (if \<not> flag_chunked p then None
      else Some (goes_on (p\<lparr>nread := 0, pstate := s_chunk_size_start\<rparr>)))"

section \<open>The loop over the input\<close>

text \<open>The \<^verbatim>\<open>switch\<close>, on the byte \<open>ch\<close> and the rest of the input.\<close>

definition on_byte :: "char \<Rightarrow> string \<Rightarrow> http_parser \<Rightarrow> step option" where
  "on_byte ch rest p =
     (case pstate p of
        s_start_res \<Rightarrow> Some (on_start_res ch p)
      | s_res_H \<Rightarrow> Some (goes_on (p\<lparr>pstate := s_res_HT\<rparr>))
      | s_res_HT \<Rightarrow> Some (goes_on (p\<lparr>pstate := s_res_HTT\<rparr>))
      | s_res_HTT \<Rightarrow> Some (goes_on (p\<lparr>pstate := s_res_HTTP\<rparr>))
      | s_res_HTTP \<Rightarrow> Some (goes_on (p\<lparr>pstate := s_res_http_major\<rparr>))
      | s_res_http_major \<Rightarrow>
          Some (if \<not> IS_NUM ch then fails HPE_INVALID_VERSION p
                else goes_on (p\<lparr>http_major := digit_val ch, pstate := s_res_http_dot\<rparr>))
      | s_res_http_dot \<Rightarrow>
          Some (if ch \<noteq> CHR ''.'' then fails HPE_INVALID_VERSION p else goes_on (p\<lparr>pstate := s_res_http_minor\<rparr>))
      | s_res_http_minor \<Rightarrow>
          Some (if \<not> IS_NUM ch then fails HPE_INVALID_VERSION p
                else goes_on (p\<lparr>http_minor := digit_val ch, pstate := s_res_http_end\<rparr>))
      | s_res_http_end \<Rightarrow>
          Some (if ch \<noteq> CHR '' '' then fails HPE_INVALID_VERSION p
                else goes_on (p\<lparr>pstate := s_res_first_status_code\<rparr>))
      | s_res_first_status_code \<Rightarrow> Some (on_first_status_code ch p)
      | s_res_status_code \<Rightarrow> Some (on_status_code ch p)
      | s_res_status_start \<Rightarrow> Some (on_status_start ch p)
      | s_res_status \<Rightarrow> Some (on_status ch p)
      | s_res_line_almost_done \<Rightarrow> Some (goes_on (p\<lparr>pstate := s_header_field_start\<rparr>))
      | s_header_field_start \<Rightarrow> Some (on_header_field_start ch p)
      | s_header_field \<Rightarrow> on_header_field (ch # rest) p
      | s_header_value_discard_ws \<Rightarrow> Some (on_header_value_discard_ws ch p)
      | s_header_value_discard_ws_almost_done \<Rightarrow> Some (goes_on (p\<lparr>pstate := s_header_value_discard_lws\<rparr>))
      | s_header_value_discard_lws \<Rightarrow> Some (on_header_value_discard_lws ch p)
      | s_header_value_start \<Rightarrow> Some (on_header_value_start ch p)
      | s_header_value \<Rightarrow> on_header_value (ch # rest) p
      | s_header_value_lws \<Rightarrow> Some (on_header_value_lws ch p)
      | s_header_almost_done \<Rightarrow> Some (on_header_almost_done ch p)
      | s_chunk_size_start \<Rightarrow> on_chunk_size_start ch p
      | s_chunk_size \<Rightarrow> on_chunk_size ch p
      | s_chunk_parameters \<Rightarrow> on_chunk_parameters ch p
      | s_chunk_size_almost_done \<Rightarrow> on_chunk_size_almost_done p
      | s_headers_almost_done \<Rightarrow> Some (on_headers_almost_done p)
      | s_headers_done \<Rightarrow> Some (on_headers_done p)
      | s_chunk_data \<Rightarrow> on_chunk_data (ch # rest) p
      | s_chunk_data_almost_done \<Rightarrow> on_chunk_data_almost_done p
      | s_chunk_data_done \<Rightarrow> on_chunk_data_done p
      | s_body_identity \<Rightarrow> on_body_identity (ch # rest) p
      | s_body_identity_eof \<Rightarrow> Some (Goes_on p (length rest) False)
      | s_message_done \<Rightarrow> Some (on_message_done p))"

definition iteration :: "char \<Rightarrow> string \<Rightarrow> http_parser \<Rightarrow> step option" where
  "iteration ch rest p0 =
     (let p = (if PARSING_HEADER (pstate p0) then count_header 1 p0 else p0) in
      if PARSING_HEADER (pstate p0) \<and> overflowed p then Some (fails HPE_HEADER_OVERFLOW p)
      else on_byte ch rest p)"

function parse_bytes :: "http_parser \<Rightarrow> string \<Rightarrow> (http_parser \<times> nat \<times> bool) option" where
  "parse_bytes p [] = Some (p, 0, False)"
| "parse_bytes p (ch # rest) = do {
     s \<leftarrow> iteration ch rest p;
     case s of Returns p1 n m \<Rightarrow> Some (p1, n, m)
     | Goes_on p1 k m \<Rightarrow> do {
         (p2, n, m2) \<leftarrow> parse_bytes p1 (drop k rest);
         Some (p2, Suc k + n, m \<or> m2)
       }
   }"
  by pat_completeness auto
termination
  by (relation "measure (\<lambda>(p, data). length data)") simp_all

declare parse_bytes.simps [simp del]

text \<open>The whole function: the parser, what it returns, and whether a message was completed.\<close>

definition http_parser_execute :: "http_parser \<Rightarrow> string \<Rightarrow> (http_parser \<times> nat \<times> bool) option" where
  "http_parser_execute p data =
     (if http_errno p \<noteq> 0 then Some (p, 0, False)
      else if data = [] then
        (if pstate p = s_body_identity_eof then Some (p, 0, True)
         else if pstate p = s_start_res then Some (p, 0, False)
         else Some (p\<lparr>http_errno := HPE_INVALID_EOF_STATE\<rparr>, 1, False))
      else parse_bytes p data)"

text \<open>A server that closes before it has sent anything leaves the parser where it was, with no
  error and no message.\<close>

lemma execute_nothing [simp]:
  "http_parser_execute http_parser_init [] = Some (http_parser_init, 0, False)"
  by (simp add: http_parser_execute_def http_parser_init_def)

end
