(* ===== verification/Http_Safety.thy ===== *)
theory Http_Safety
  imports Http_Message
begin

text \<open>
  The HTTP parser is safe: in every state it reaches, no input makes it fail an \<^verbatim>\<open>assert\<close>, it
  consumes no more than it is given, and without an error it consumes everything, unless the
  server has changed the protocol.
\<close>

section \<open>The invariant\<close>

definition field_states :: "header_states set" where
  "field_states =
     {h_general, h_C, h_CO, h_CON, h_matching_connection, h_matching_proxy_connection,
      h_matching_content_length, h_matching_transfer_encoding, h_matching_upgrade,
      h_connection, h_content_length, h_transfer_encoding, h_upgrade}"

definition value_state :: "header_states \<Rightarrow> bool" where
  "value_state h \<longleftrightarrow> h \<noteq> h_connection \<and> h \<noteq> h_transfer_encoding"

definition state_ok :: "http_parser \<Rightarrow> bool" where
  "state_ok p \<longleftrightarrow>
     content_length p \<le> ULLONG_MAX \<and>
     (case pstate p of
        s_header_field \<Rightarrow> header_state p \<in> field_states
      | s_header_value \<Rightarrow> value_state (header_state p)
      | s_chunk_size_start \<Rightarrow> flag_chunked p \<and> nread p = 0
      | s_chunk_size \<Rightarrow> flag_chunked p \<and> content_length p < ULLONG_MAX
      | s_chunk_parameters \<Rightarrow> flag_chunked p \<and> content_length p < ULLONG_MAX
      | s_chunk_size_almost_done \<Rightarrow> flag_chunked p \<and> content_length p < ULLONG_MAX
      | s_chunk_data \<Rightarrow> flag_chunked p \<and> 0 < content_length p \<and> content_length p < ULLONG_MAX
      | s_chunk_data_almost_done \<Rightarrow> flag_chunked p \<and> content_length p = 0
      | s_chunk_data_done \<Rightarrow> flag_chunked p
      | s_body_identity \<Rightarrow> 0 < content_length p \<and> content_length p \<noteq> ULLONG_MAX
      | _ \<Rightarrow> True)"

abbreviation sound :: "http_parser \<Rightarrow> bool" where
  "sound p \<equiv> http_errno p = 0 \<and> content_length p \<le> ULLONG_MAX"

definition parser_ok :: "http_parser \<Rightarrow> bool" where
  "parser_ok p \<longleftrightarrow> http_errno p = 0 \<longrightarrow> state_ok p"

text \<open>A step that keeps it, with \<open>l\<close> bytes of input behind the current one.\<close>

fun step_ok :: "nat \<Rightarrow> step \<Rightarrow> bool" where
  "step_ok l (Goes_on p k m) \<longleftrightarrow> k \<le> l \<and> http_errno p = 0 \<and> state_ok p"
| "step_ok l (Returns p n m) \<longleftrightarrow> n \<le> Suc l \<and> (http_errno p = 0 \<longrightarrow> 0 < n \<and> p_upgrade p \<and> pstate p = s_start_res \<and> state_ok p)"

definition safe_step :: "nat \<Rightarrow> step option \<Rightarrow> bool" where
  "safe_step l s \<longleftrightarrow> (case s of None \<Rightarrow> False | Some t \<Rightarrow> step_ok l t)"

named_theorems error_codes

lemmas [error_codes] =
  HPE_HEADER_OVERFLOW_def HPE_INVALID_VERSION_def HPE_INVALID_STATUS_def HPE_LF_EXPECTED_def
  HPE_INVALID_HEADER_TOKEN_def HPE_INVALID_CONTENT_LENGTH_def HPE_UNEXPECTED_CONTENT_LENGTH_def
  HPE_INVALID_CHUNK_SIZE_def HPE_INVALID_CONSTANT_def HPE_INVALID_EOF_STATE_def

lemma safe_step_simps [simp]: "safe_step l (Some t) = step_ok l t" "\<not> safe_step l None"
  by (simp_all add: safe_step_def)

lemma fails_ok: "e \<noteq> 0 \<Longrightarrow> step_ok l (fails e p)"
  by (simp add: fails_def)

lemma shift_ok: "step_ok l s \<Longrightarrow> step_ok (n + l) (shift n s)"
  by (cases s) simp_all

lemma digit_val_range: "IS_NUM c \<Longrightarrow> digit_val c \<le> 9"
  by (auto simp: IS_NUM_def is_digit_def digit_val_def)

section \<open>Cases of one byte\<close>

lemma on_message_done_ok: "sound p \<Longrightarrow> step_ok l (on_message_done p)"
  by (simp add: on_message_done_def Let_def state_ok_def)

lemma on_headers_done_ok: "sound p \<Longrightarrow> step_ok l (on_headers_done p)"
  by (simp add: on_headers_done_def Let_def state_ok_def)

lemma on_headers_almost_done_ok: "sound p \<Longrightarrow> step_ok l (on_headers_almost_done p)"
  by (simp add: on_headers_almost_done_def on_message_done_ok on_headers_done_ok fails_ok error_codes)

lemma on_header_field_start_ok: "sound p \<Longrightarrow> step_ok l (on_header_field_start ch p)"
  by (simp add: on_header_field_start_def on_headers_almost_done_ok fails_ok error_codes state_ok_def
      first_header_state_def field_states_def)

lemma finish_header_simps [simp]:
  "http_errno (finish_header p) = http_errno p" "content_length (finish_header p) = content_length p" "nread (finish_header p) = nread p"
  by (cases "header_state p"; simp add: finish_header_def)+

lemma on_header_value_start_ok: "sound p \<Longrightarrow> step_ok l (on_header_value_start ch p)"
  by (cases "header_state p")
    (simp_all add: on_header_value_start_def Let_def state_ok_def value_state_def fails_ok error_codes ULLONG_MAX_def
      le_trans[OF digit_val_range])

lemma on_header_value_discard_ws_ok:
  "sound p \<Longrightarrow> pstate p = s_header_value_discard_ws \<Longrightarrow> step_ok l (on_header_value_discard_ws ch p)"
  by (simp add: on_header_value_discard_ws_def on_header_value_start_ok state_ok_def)

lemma on_header_value_discard_lws_ok: "sound p \<Longrightarrow> step_ok l (on_header_value_discard_lws ch p)"
  by (simp add: on_header_value_discard_lws_def on_header_field_start_ok fails_ok error_codes state_ok_def)

lemma on_header_value_lws_ok: "sound p \<Longrightarrow> step_ok l (on_header_value_lws ch p)"
  by (simp add: on_header_value_lws_def on_header_field_start_ok on_header_value_start_ok)

lemma on_header_almost_done_ok: "sound p \<Longrightarrow> step_ok l (on_header_almost_done ch p)"
  by (simp add: on_header_almost_done_def fails_ok error_codes state_ok_def)

lemma on_start_res_ok: "sound p \<Longrightarrow> pstate p = s_start_res \<Longrightarrow> step_ok l (on_start_res ch p)"
  by (simp add: on_start_res_def Let_def fails_ok error_codes state_ok_def)

lemma on_status_ok: "sound p \<Longrightarrow> pstate p = s_res_status \<Longrightarrow> step_ok l (on_status ch p)"
  by (simp add: on_status_def state_ok_def)

lemma on_status_start_ok: "sound p \<Longrightarrow> step_ok l (on_status_start ch p)"
  by (simp add: on_status_start_def Let_def on_status_ok state_ok_def)

lemma on_status_code_ok: "sound p \<Longrightarrow> pstate p = s_res_status_code \<Longrightarrow> step_ok l (on_status_code ch p)"
  by (simp add: on_status_code_def Let_def on_status_start_ok fails_ok error_codes state_ok_def)

lemma on_first_status_code_ok:
  "sound p \<Longrightarrow> pstate p = s_res_first_status_code \<Longrightarrow> step_ok l (on_first_status_code ch p)"
  by (simp add: on_first_status_code_def fails_ok error_codes state_ok_def)

lemma unhex_range: "unhex c = Some v \<Longrightarrow> v < 16"
  by (auto simp: unhex_def is_digit_def split: if_splits)

lemma chunk_cases_ok:
  assumes "sound p"
  shows "flag_chunked p \<Longrightarrow> nread p = 1 \<Longrightarrow> safe_step l (on_chunk_size_start ch p)"
    and "flag_chunked p \<Longrightarrow> content_length p < ULLONG_MAX \<Longrightarrow> pstate p = s_chunk_size \<Longrightarrow> safe_step l (on_chunk_size ch p)"
    and "flag_chunked p \<Longrightarrow> content_length p < ULLONG_MAX \<Longrightarrow> pstate p = s_chunk_parameters \<Longrightarrow>
      safe_step l (on_chunk_parameters ch p)"
    and "flag_chunked p \<Longrightarrow> content_length p < ULLONG_MAX \<Longrightarrow> safe_step l (on_chunk_size_almost_done p)"
    and "flag_chunked p \<Longrightarrow> content_length p = 0 \<Longrightarrow> safe_step l (on_chunk_data_almost_done p)"
    and "flag_chunked p \<Longrightarrow> safe_step l (on_chunk_data_done p)"
proof -
  show "flag_chunked p \<Longrightarrow> nread p = 1 \<Longrightarrow> safe_step l (on_chunk_size_start ch p)"
    using assms
    by (auto simp: on_chunk_size_start_def fails_ok error_codes state_ok_def ULLONG_MAX_def dest: unhex_range
        split: option.split)
  show "flag_chunked p \<Longrightarrow> content_length p < ULLONG_MAX \<Longrightarrow> pstate p = s_chunk_size \<Longrightarrow> safe_step l (on_chunk_size ch p)"
    using assms
    by (auto simp: on_chunk_size_def fails_ok error_codes state_ok_def ULLONG_MAX_def dest: unhex_range
        split: option.split)
qed (use assms in \<open>simp_all add: on_chunk_parameters_def on_chunk_size_almost_done_def on_chunk_data_almost_done_def
      on_chunk_data_done_def Let_def state_ok_def\<close>)

section \<open>Runs of bytes\<close>

lemma on_body_identity_ok:
  assumes "sound p" "pstate p = s_body_identity" "0 < content_length p" "content_length p \<noteq> ULLONG_MAX"
  shows "safe_step (length rest) (on_body_identity (ch # rest) p)"
proof -
  have "content_length p - min (content_length p) (Suc (length rest)) < ULLONG_MAX"
    using assms by linarith
  then show ?thesis
    using assms
    by (auto simp: on_body_identity_def Let_def state_ok_def on_message_done_def)
qed

lemma on_chunk_data_ok:
  assumes "sound p" "pstate p = s_chunk_data" "flag_chunked p" "0 < content_length p" "content_length p \<noteq> ULLONG_MAX"
  shows "safe_step (length rest) (on_chunk_data (ch # rest) p)"
proof -
  have "content_length p - min (content_length p) (Suc (length rest)) < ULLONG_MAX"
    using assms by linarith
  then show ?thesis
    using assms by (auto simp: on_chunk_data_def Let_def state_ok_def)
qed

text \<open>The loop over a name changes nothing else than the index, the header state and a flag.\<close>

definition same_field :: "http_parser \<Rightarrow> http_parser \<Rightarrow> bool" where
  "same_field p q \<longleftrightarrow>
     http_errno q = http_errno p \<and> content_length q = content_length p \<and> pstate q = pstate p \<and> nread q = nread p"

lemma match_field_ok:
  "same_field p (match_field word found c p)"
  "header_state (match_field word found c p) \<in> {h_general, found, header_state p}"
  by (simp_all add: same_field_def match_field_def next_index_def Let_def)

lemma header_field_char_ok:
  assumes "header_state p \<in> field_states"
  obtains q where "header_field_char ch p = Some q" "header_state q \<in> field_states" "same_field p q"
proof -
  have "\<exists>q. header_field_char ch p = Some q \<and> header_state q \<in> field_states \<and> same_field p q"
  proof (cases "header_state p")
  qed (use assms match_field_ok[where p = p] in \<open>force simp: header_field_char_def Let_def field_states_def next_index_def
        same_field_def\<close>)+
  then show thesis using that by blast
qed

lemma header_field_loop_ok:
  "header_state p \<in> field_states \<Longrightarrow>
   \<exists>q n. header_field_loop p data = Some (q, n) \<and> n \<le> length data \<and> header_state q \<in> field_states \<and> same_field p q"
proof (induction p data rule: header_field_loop.induct)
  case (1 p)
  then show ?case by (simp add: header_field_loop.simps same_field_def)
next
  case (2 p ch rest)
  show ?case
  proof (cases "TOKEN ch = NUL")
    case True
    then show ?thesis using 2(2) by (simp add: header_field_loop.simps same_field_def)
  next
    case False
    define k where "k = (if header_state p = h_general then more_tokens rest else 0)"
    have k: "k \<le> length rest"
      by (simp add: k_def more_tokens_def le_trans[OF length_takeWhile_le])
    obtain q1 where q1: "header_field_char ch p = Some q1" "header_state q1 \<in> field_states" "same_field p q1"
      using header_field_char_ok 2(2) by blast
    obtain q n where "header_field_loop q1 (drop k rest) = Some (q, n)" "n \<le> length (drop k rest)"
        "header_state q \<in> field_states" "same_field q1 q"
      using 2(1)[OF False q1(1) k_def q1(2)] by blast
    then show ?thesis
      using False q1 k by (simp add: header_field_loop.simps k_def[symmetric] same_field_def)
  qed
qed

lemma on_header_field_ok:
  assumes "sound p" "pstate p = s_header_field" "header_state p \<in> field_states"
  shows "safe_step (length rest) (on_header_field (ch # rest) p)"
proof -
  obtain q n where q: "header_field_loop p (ch # rest) = Some (q, n)" "n \<le> Suc (length rest)"
      "header_state q \<in> field_states" "same_field p q"
    using header_field_loop_ok[OF assms(3), of "ch # rest"] by auto
  show ?thesis
    using assms q(2-4)
    by (auto simp: on_header_field_def q(1) Let_def count_header_def overflowed_def same_field_def state_ok_def error_codes)
qed

text \<open>The loop over a value.\<close>

definition value_step :: "http_parser \<Rightarrow> http_parser + http_parser \<times> header_states \<Rightarrow> bool" where
  "value_step p r \<longleftrightarrow>
     (case r of Inl q \<Rightarrow> http_errno q \<noteq> 0
      | Inr (q, h) \<Rightarrow> sound q \<and> value_state h \<and> pstate q = pstate p \<and> nread q = nread p)"

lemma length_digit_ok: "sound p \<Longrightarrow> value_step p (length_digit ch p)"
  using digit_val_range[of ch]
  by (auto simp: length_digit_def value_step_def value_state_def bad_length_def error_codes ULLONG_MAX_def)

lemma connection_token_ok:
  "value_state (connection_token_start c)"
  "sound p \<Longrightarrow> value_state h \<Longrightarrow> value_step p (Inr (connection_token_end ch h p))"
  by (cases h; simp add: connection_token_start_def connection_token_end_def value_state_def value_step_def finish_header_def)+

lemma match_value_step:
  "sound p \<Longrightarrow> value_state h \<Longrightarrow> value_state found \<Longrightarrow> value_state other \<Longrightarrow>
   value_step p (Inr (match_value word h found other c p))"
  by (auto simp: value_step_def match_value_def next_index_def Let_def)

lemma header_value_char_ok:
  assumes "sound p" "value_state h"
  obtains r where "header_value_char ch h p = Some r" "value_step p r"
proof -
  have "\<exists>r. header_value_char ch h p = Some r \<and> value_step p r"
    using assms
    by (cases h)
      (simp_all add: header_value_char_def Let_def length_digit_ok connection_token_ok(2) match_value_step value_state_def
        connection_token_ok(1)[unfolded value_state_def]
        value_step_def[of p "Inr (_, _)"] value_step_def[of p "Inl _"] bad_length_def error_codes)
  then show thesis using that by blast
qed

definition value_result :: "http_parser \<Rightarrow> nat \<Rightarrow> (http_parser \<times> header_states \<times> nat \<times> value_end) option \<Rightarrow> bool" where
  "value_result p l r \<longleftrightarrow>
     (case r of None \<Rightarrow> False
      | Some (q, h, n, e) \<Rightarrow>
          (if e = At_end then n = l else n < l) \<and>
          (if e = At_error then http_errno q \<noteq> 0 else sound q \<and> value_state h \<and> pstate q = pstate p \<and> nread q = nread p))"

lemma value_result_after:
  assumes "value_result q l r" "pstate q = pstate p" "nread q = nread p"
  shows "value_result p (k + l) (r \<bind> (\<lambda>(p2, h2, n, e). Some (p2, h2, k + n, e)))"
  using assms by (auto simp: value_result_def split: option.splits if_splits)

lemma header_value_loop_ok: "sound p \<Longrightarrow> value_state h \<Longrightarrow> value_result p (length data) (header_value_loop p h data)"
proof (induction p h data rule: header_value_loop.induct)
  case (1 p h)
  then show ?case by (simp add: header_value_loop.simps value_result_def)
next
  case (2 p h ch rest)
  let ?seg = "take (min (Suc (length rest)) max_header_size - 1) rest"
  let ?k = "length (takeWhile value_byte ?seg)"
  have k: "?k \<le> length ?seg" "length ?seg \<le> length rest"
    by (rule length_takeWhile_le) simp
  consider "ch = CR \<or> ch = LF \<or> \<not> IS_HEADER_CHAR ch" | "ch \<noteq> CR" "ch \<noteq> LF" "IS_HEADER_CHAR ch" "h = h_general"
    | "ch \<noteq> CR" "ch \<noteq> LF" "IS_HEADER_CHAR ch" "h \<noteq> h_general"
    by blast
  then show ?case
  proof cases
    case 1
    then show ?thesis using 2(4,5) by (auto simp: header_value_loop.simps value_result_def error_codes)
  next
    case g: 2
    consider "?k < length ?seg" "?seg ! ?k = CR \<or> ?seg ! ?k = LF" | "?k < length ?seg" "\<not> (?seg ! ?k = CR \<or> ?seg ! ?k = LF)"
      | "\<not> ?k < length ?seg" "?k = length rest" | "\<not> ?k < length ?seg" "?k \<noteq> length rest"
      by blast
    then show ?thesis
    proof cases
      case c: 1
      have "value_result p (Suc ?k + length (drop ?k rest))
          (header_value_loop p h (drop ?k rest) \<bind> (\<lambda>(p2, h2, n, e). Some (p2, h2, Suc ?k + n, e)))"
        using 2(1)[OF _ _ _ g(4) refl refl c] g 2(4,5) by (intro value_result_after) auto
      then show ?thesis using g c k by (simp add: header_value_loop.simps Let_def)
    next
      case 2
      then show ?thesis
        using g k by (simp add: header_value_loop.simps Let_def value_result_def error_codes)
    next
      case 3
      then show ?thesis using g 2(4,5) by (simp add: header_value_loop.simps Let_def value_result_def)
    next
      case c: 4
      have "value_result p (Suc (Suc ?k) + length (drop (Suc ?k) rest))
          (header_value_loop p h (drop (Suc ?k) rest) \<bind> (\<lambda>(p2, h2, n, e). Some (p2, h2, Suc (Suc ?k) + n, e)))"
        using 2(2)[OF _ _ _ g(4) refl refl c] g 2(4,5) by (intro value_result_after) auto
      moreover have "Suc (Suc ?k) + length (drop (Suc ?k) rest) = length (ch # rest)"
        using c k unfolding length_drop list.size by linarith
      moreover have "header_value_loop p h (ch # rest) =
          header_value_loop p h (drop (Suc ?k) rest) \<bind> (\<lambda>(p2, h2, n, e). Some (p2, h2, Suc (Suc ?k) + n, e))"
        using g c by (simp add: header_value_loop.simps Let_def)
      ultimately show ?thesis by (simp only:)
    qed
  next
    case g: 3
    obtain r where r: "header_value_char ch h p = Some r" "value_step p r"
      using header_value_char_ok 2(4,5) by blast
    show ?thesis
    proof (cases r)
      case (Inl q)
      then show ?thesis using g r by (simp add: header_value_loop.simps value_result_def value_step_def)
    next
      case (Inr qh)
      obtain q h1 where qh: "qh = (q, h1)" by (cases qh)
      then have "sound q" "value_state h1" "pstate q = pstate p" "nread q = nread p"
        using r Inr by (simp_all add: value_step_def)
      then have "value_result p (Suc 0 + length rest)
          (header_value_loop q h1 rest \<bind> (\<lambda>(p2, h2, n, e). Some (p2, h2, Suc 0 + n, e)))"
        using 2(3)[OF _ _ _ g(4) r(1) Inr qh[symmetric]] g by (intro value_result_after[where q = q]) auto
      then show ?thesis using g r Inr qh by (simp add: header_value_loop.simps)
    qed
  qed
qed

lemma on_header_value_ok:
  assumes "sound p" "pstate p = s_header_value" "value_state (header_state p)"
  shows "safe_step (length rest) (on_header_value (ch # rest) p)"
proof -
  obtain q h n e where q: "header_value_loop p (header_state p) (ch # rest) = Some (q, h, n, e)"
    and r: "value_result p (Suc (length rest)) (Some (q, h, n, e))"
    using header_value_loop_ok[OF assms(1,3), of "ch # rest"] by (auto simp: value_result_def split: option.splits)
  show ?thesis
    using assms r
    by (cases e) (auto simp: on_header_value_def q value_result_def Let_def count_header_def overflowed_def state_ok_def
        error_codes on_header_almost_done_def)
qed

section \<open>The whole parser\<close>

lemma on_byte_ok:
  assumes "sound p" "state_ok (p\<lparr>nread := n\<rparr>)" "pstate p = s_chunk_size_start \<Longrightarrow> nread p = 1"
  shows "safe_step (length rest) (on_byte ch rest p)"
proof (cases "pstate p")
qed (use assms in \<open>simp_all add: on_byte_def state_ok_def on_start_res_ok on_first_status_code_ok on_status_code_ok
      on_status_start_ok on_status_ok on_header_field_start_ok on_header_field_ok on_header_value_discard_ws_ok
      on_header_value_discard_lws_ok on_header_value_start_ok on_header_value_ok on_header_value_lws_ok
      on_header_almost_done_ok chunk_cases_ok on_headers_almost_done_ok on_headers_done_ok on_chunk_data_ok
      on_body_identity_ok on_message_done_ok fails_ok error_codes\<close>)

lemma iteration_ok:
  assumes "http_errno p = 0" "state_ok p"
  shows "safe_step (length rest) (iteration ch rest p)"
proof (cases "PARSING_HEADER (pstate p)")
  case True
  have "state_ok ((count_header 1 p)\<lparr>nread := nread p\<rparr>)"
    using assms by (simp add: count_header_def)
  moreover have "pstate p = s_chunk_size_start \<Longrightarrow> nread (count_header 1 p) = 1"
    using assms by (simp add: count_header_def state_ok_def)
  ultimately have "safe_step (length rest) (on_byte ch rest (count_header 1 p))"
    using assms by (intro on_byte_ok[where n = "nread p"]) (simp_all add: count_header_def state_ok_def)
  then show ?thesis
    using True by (simp add: iteration_def Let_def fails_ok error_codes)
next
  case False
  have "state_ok (p\<lparr>nread := nread p\<rparr>)" using assms by simp
  then have "safe_step (length rest) (on_byte ch rest p)"
    using assms False by (intro on_byte_ok[where n = "nread p"]) (auto simp: PARSING_HEADER_def state_ok_def)
  then show ?thesis
    using False by (simp add: iteration_def Let_def)
qed

lemma ex_bool: "Ex Not" "\<exists>m. m"
  by (rule exI[of _ False], simp) (rule exI[of _ True], simp)

lemma parse_bytes_safe:
  "http_errno p = 0 \<Longrightarrow> state_ok p \<Longrightarrow>
   \<exists>q n m. parse_bytes p data = Some (q, n, m) \<and> n \<le> length data \<and> parser_ok q \<and>
     (http_errno q = 0 \<longrightarrow> (data \<noteq> [] \<longrightarrow> 0 < n) \<and> (p_upgrade q \<or> n = length data))"
proof (induction p data rule: parse_bytes.induct)
  case (1 p)
  then show ?case by (simp add: parse_bytes.simps parser_ok_def ex_bool)
next
  case (2 p ch rest)
  obtain s where s: "iteration ch rest p = Some s" "step_ok (length rest) s"
    using iteration_ok[OF 2(2,3), of rest ch] by (cases "iteration ch rest p") auto
  show ?case
  proof (cases s)
    case (Returns q n m)
    then show ?thesis using s by (auto simp: parse_bytes.simps parser_ok_def)
  next
    case (Goes_on q k m)
    then have q: "k \<le> length rest" "http_errno q = 0" "state_ok q"
      using s by simp_all
    obtain q2 n2 m2 where "parse_bytes q (drop k rest) = Some (q2, n2, m2)"
        "n2 \<le> length (drop k rest) \<and> parser_ok q2 \<and> (http_errno q2 = 0 \<longrightarrow>
           (drop k rest \<noteq> [] \<longrightarrow> 0 < n2) \<and> (p_upgrade q2 \<or> n2 = length (drop k rest)))"
      using 2(1)[OF s(1) Goes_on q(2,3)] by (elim exE conjE) (rule that; simp)
    then show ?thesis
      using s q(1) Goes_on by (auto simp: parse_bytes.simps)
  qed
qed

lemma http_parser_execute_ok:
  assumes "parser_ok p"
  obtains q n m where "http_parser_execute p data = Some (q, n, m)" "parser_ok q"
    "http_errno q = 0 \<Longrightarrow> n \<le> length data \<and> (data \<noteq> [] \<longrightarrow> 0 < n) \<and> (p_upgrade q \<or> n = length data)"
proof (cases "http_errno p = 0 \<and> data \<noteq> []")
  case True
  then have "http_errno p = 0" "state_ok p" using assms by (simp_all add: parser_ok_def)
  from parse_bytes_safe[OF this, of data] obtain q n m where "parse_bytes p data = Some (q, n, m) \<and> n \<le> length data \<and> parser_ok q \<and>
     (http_errno q = 0 \<longrightarrow> (data \<noteq> [] \<longrightarrow> 0 < n) \<and> (p_upgrade q \<or> n = length data))"
    by (elim exE) (rule that)
  then show thesis
    using True by (intro that[of q n m]) (simp_all add: http_parser_execute_def)
next
  case False
  then consider "http_errno p \<noteq> 0" | "http_errno p = 0" "data = []" "pstate p = s_body_identity_eof"
    | "http_errno p = 0" "data = []" "pstate p = s_start_res"
    | "http_errno p = 0" "data = []" "pstate p \<noteq> s_body_identity_eof" "pstate p \<noteq> s_start_res"
    by (cases "http_errno p = 0"; cases "pstate p = s_body_identity_eof"; cases "pstate p = s_start_res") simp_all
  then show thesis
  proof cases
    case 1
    then show ?thesis by (intro that[of p 0 False]) (simp_all add: http_parser_execute_def assms)
  next
    case 2
    then show ?thesis by (intro that[of p 0 True]) (simp_all add: http_parser_execute_def assms)
  next
    case 3
    then show ?thesis by (intro that[of p 0 False]) (simp_all add: http_parser_execute_def assms)
  next
    case 4
    then show ?thesis
      by (intro that[of "p\<lparr>http_errno := HPE_INVALID_EOF_STATE\<rparr>" 1 False])
        (simp_all add: http_parser_execute_def parser_ok_def error_codes)
  qed
qed

lemma parser_ok_init [simp]: "parser_ok http_parser_init"
  by (simp add: parser_ok_def state_ok_def http_parser_init_def)

text \<open>The parsers that some reads lead to.\<close>

inductive parser_reachable :: "http_parser \<Rightarrow> bool" where
  new_parser: "parser_reachable http_parser_init"
| read_more: "parser_reachable p \<Longrightarrow> http_parser_execute p data = Some (q, n, m) \<Longrightarrow> parser_reachable q"

lemma parser_reachable_ok: "parser_reachable p \<Longrightarrow> parser_ok p"
proof (induction rule: parser_reachable.induct)
  case (read_more p data q n m)
  then show ?case using http_parser_execute_ok[of p data] by auto
qed simp



end
