(* ===== verification/Http_Feed.thy ===== *)
theory Http_Feed
  imports Http_Safety
begin

text \<open>
  The HTTP parser does not depend on how the network cuts a response into reads. The reference is the
  parser given one byte at a time, \<open>feed\<close>: there the loops over the bytes of a name, a value or a body
  do a single round, and every run of bytes counts as so many headers bytes. The parser given a whole
  block does the same, or both fail.
\<close>

section \<open>One byte at a time\<close>

fun feed :: "http_parser \<Rightarrow> string \<Rightarrow> (http_parser \<times> bool) option" where
  "feed p [] = Some (p, False)"
| "feed p (c # cs) =
     (case iteration c [] p of
        Some (Goes_on q k m) \<Rightarrow> map_option (map_prod id (\<lambda>m2. m \<or> m2)) (feed q cs)
      | _ \<Rightarrow> None)"

lemma feed_append: "feed p (a @ b) = feed p a \<bind> (\<lambda>(q, m). map_option (map_prod id (\<lambda>m2. m \<or> m2)) (feed q b))"
proof (induction a arbitrary: p)
  case Nil
  then show ?case by (cases "feed p b") auto
next
  case (Cons c a)
  then show ?case
    by (auto split: option.splits step.splits Option.bind_splits simp: map_prod_def option.map_comp comp_def case_prod_unfold)
qed

lemma feed_ok:
  assumes "http_errno p = 0" "state_ok p" "feed p data = Some (q, m)"
  shows "http_errno q = 0 \<and> state_ok q"
  using assms
proof (induction data arbitrary: p m)
  case (Cons c data)
  obtain s where s: "iteration c [] p = Some s" "step_ok 0 s"
    using iteration_ok[OF Cons.prems(1,2), of "[]" c] by (cases "iteration c [] p") auto
  show ?case
    using Cons.IH Cons.prems(3) s by (cases s) (auto)
qed simp

section \<open>Comparing results\<close>

definition failed :: "(http_parser \<times> nat \<times> bool) option \<Rightarrow> bool" where
  "failed r \<longleftrightarrow> (case r of None \<Rightarrow> True | Some (q, n, m) \<Rightarrow> http_errno q \<noteq> 0)"

definition agree :: "(http_parser \<times> nat \<times> bool) option \<Rightarrow> (http_parser \<times> nat \<times> bool) option \<Rightarrow> bool" where
  "agree r s \<longleftrightarrow> r = s \<or> failed r \<and> failed s"

definition after :: "nat \<Rightarrow> bool \<Rightarrow> (http_parser \<times> nat \<times> bool) option \<Rightarrow> (http_parser \<times> nat \<times> bool) option" where
  "after k m r = map_option (\<lambda>(q, n, m2). (q, k + n, m \<or> m2)) r"

lemma agree_refl [simp]: "agree r r"
  by (simp add: agree_def)

lemma failed_after [simp]: "failed (after k m r) = failed r"
  by (simp add: failed_def after_def split: option.split)

definition fails_step :: "step option \<Rightarrow> bool" where
  "fails_step s \<longleftrightarrow> (case s of Some (Returns q n m) \<Rightarrow> http_errno q \<noteq> 0 | Some (Goes_on q k m) \<Rightarrow> False | None \<Rightarrow> True)"

lemma fails_step_simps [simp]:
  "fails_step None" "fails_step (Some (Returns q n m)) = (http_errno q \<noteq> 0)" "\<not> fails_step (Some (Goes_on q k m))"
  by (simp_all add: fails_step_def)

lemma shift_shift [simp]: "shift a (shift b s) = shift (a + b) s"
  by (cases s) simp_all

lemma shift_0 [simp]: "shift 0 s = s"
  by (cases s) simp_all

lemma fails_step_fails [simp]: "e \<noteq> 0 \<Longrightarrow> fails_step (Some (fails e p))"
  by (simp add: fails_def)

lemma parse_bytes_failed: "fails_step (iteration c rest p) \<Longrightarrow> failed (parse_bytes p (c # rest))"
  by (auto simp: parse_bytes.simps fails_step_def failed_def split: option.splits step.splits Option.bind_splits)

text \<open>A run of bytes whose rest is a run of its own.\<close>

lemma parse_bytes_run:
  assumes "iteration c (d # rest) p = map_option (shift 1) (iteration d rest q)"
  shows "parse_bytes p (c # d # rest) = after 1 False (parse_bytes q (d # rest))"
proof (cases "iteration d rest q")
  case None
  then show ?thesis using assms by (simp add: parse_bytes.simps after_def)
next
  case (Some s)
  then show ?thesis
    using assms by (cases s) (auto simp: parse_bytes.simps after_def split: Option.bind_splits)
qed

lemma parse_bytes_step:
  assumes "iteration c rest p = Some (Goes_on q 0 m)"
  shows "parse_bytes p (c # rest) = after 1 m (parse_bytes q rest)"
  using assms by (cases "parse_bytes q rest") (auto simp: parse_bytes.simps after_def)

section \<open>Counting\<close>

lemma count_header_simps [simp]:
  "pstate (count_header v p) = pstate p" "header_state (count_header v p) = header_state p"
  "http_errno (count_header v p) = http_errno p" "content_length (count_header v p) = content_length p"
  "p_index (count_header v p) = p_index p" "flag_chunked (count_header v p) = flag_chunked p"
  "nread (count_header v p) = (nread p + v) mod 2 ^ 32"
  "count_header a (count_header b p) = count_header (b + a) p"
  "count_header v (p\<lparr>pstate := s\<rparr>) = (count_header v p)\<lparr>pstate := s\<rparr>"
  "count_header v (p\<lparr>header_state := h\<rparr>) = (count_header v p)\<lparr>header_state := h\<rparr>"
  "count_header v (p\<lparr>p_index := i\<rparr>) = (count_header v p)\<lparr>p_index := i\<rparr>"
  "count_header v (p\<lparr>flag_transfer_encoding := t\<rparr>) = (count_header v p)\<lparr>flag_transfer_encoding := t\<rparr>"
  by (simp_all add: count_header_def mod_add_left_eq add.assoc)

lemma overflow_later:
  assumes "overflowed (count_header a p)" "a \<le> b" "nread p \<le> max_header_size" "b \<le> max_header_size"
  shows "overflowed (count_header b p)"
  using assms by (simp add: overflowed_def max_header_size_def)

lemma overflowed_update [simp]:
  "overflowed (p\<lparr>pstate := s\<rparr>) = overflowed p" "overflowed (p\<lparr>header_state := h\<rparr>) = overflowed p"
  by (simp_all add: overflowed_def)

section \<open>Names\<close>

lemma match_field_count: "match_field word found c (count_header v p) = count_header v (match_field word found c p)"
  by (simp add: match_field_def next_index_def Let_def)

lemma field_char_count: "header_field_char ch (count_header v p) = map_option (count_header v) (header_field_char ch p)"
  by (cases "header_state p") (simp_all add: header_field_char_def Let_def match_field_count next_index_def)

lemma field_loop_count:
  "header_field_loop (count_header v p) data = map_option (map_prod (count_header v) id) (header_field_loop p data)"
proof (induction p data rule: header_field_loop.induct)
  case (1 p)
  then show ?case by (simp add: header_field_loop.simps)
next
  case (2 p ch rest)
  then show ?case
    by (cases "header_field_char ch p"; cases "TOKEN ch = NUL")
      (auto simp: header_field_loop.simps field_char_count Let_def split: Option.bind_splits)
qed

lemma on_header_field_overflow:
  assumes "header_field_loop p data = Some (p2, n)" "overflowed (count_header (if n = length data then n - 1 else n) p2)"
  shows "fails_step (on_header_field data p)"
  using assms by (cases "n = length data") (simp_all add: on_header_field_def Let_def error_codes)

lemma more_tokens_short: "Suc (length rest) \<le> max_header_size \<Longrightarrow> more_tokens rest = length (takeWhile (\<lambda>x. TOKEN x \<noteq> NUL) rest)"
  by (simp add: more_tokens_def)

lemma more_tokens_Nil [simp]: "more_tokens [] = 0"
  by (simp add: more_tokens_def)

lemma field_loop_Cons:
  assumes "Suc (length rest) \<le> max_header_size" "TOKEN c \<noteq> NUL"
  shows "header_field_loop p (c # rest) =
    header_field_char c p \<bind> (\<lambda>p1. map_option (map_prod id Suc) (header_field_loop p1 rest))"
proof (cases "header_state p = h_general")
  case False
  then show ?thesis
    using assms(2)
    by (cases "header_field_char c p") (auto simp: header_field_loop.simps split: Option.bind_splits)
next
  case True
  then have one: "header_field_char x p = Some p" for x by (simp add: header_field_char_def)
  show ?thesis
  proof (cases rest)
    case Nil
    then show ?thesis using True assms(2) one by (simp add: header_field_loop.simps more_tokens_def)
  next
    case (Cons d r)
    then show ?thesis
      using True assms one
      by (cases "TOKEN d = NUL"; cases "header_field_loop p (drop (length (takeWhile (\<lambda>x. TOKEN x \<noteq> NUL) r)) r)")
        (auto simp: header_field_loop.simps more_tokens_short)
  qed
qed

text \<open>A byte of a name, with more to come.\<close>

lemma field_run:
  assumes "pstate p = s_header_field" "http_errno p = 0" "header_state p \<in> field_states"
    and "Suc (Suc (length rest)) \<le> max_header_size" "iteration c [] p = Some (Goes_on q 0 m)"
  shows "iteration c (d # rest) p = Some (Goes_on q 0 m) \<or>
    m = False \<and> (iteration c (d # rest) p = map_option (shift 1) (iteration d rest q) \<or>
      fails_step (iteration c (d # rest) p) \<and> fails_step (iteration d rest q))"
proof -
  let ?p = "count_header 1 p"
  have no: "\<not> overflowed ?p" and it: "on_header_field [c] ?p = Some (Goes_on q 0 m)"
    using assms(1,5)
    by (auto simp: iteration_def on_byte_def PARSING_HEADER_def fails_def Let_def split: if_splits)
  have bulk: "iteration c (d # rest) p = on_header_field (c # d # rest) ?p"
    using assms(1) no by (simp add: iteration_def on_byte_def PARSING_HEADER_def Let_def)
  show ?thesis
  proof (cases "TOKEN c = NUL")
    case True
    then show ?thesis
      using it unfolding bulk
      by (auto simp: on_header_field_def header_field_loop.simps Let_def split: if_splits)
  next
    case False
    obtain p1 where p1: "header_field_char c ?p = Some p1" "header_state p1 \<in> field_states" "same_field ?p p1"
      using header_field_char_ok[of ?p c] assms(3) by auto
    have q: "q = count_header 0 p1" "m = False"
      using it False p1 no
      by (auto simp: on_header_field_def field_loop_Cons header_field_loop.simps max_header_size_def Let_def
          same_field_def overflowed_def split: if_splits)
    obtain p2 n where p2: "header_field_loop p1 (d # rest) = Some (p2, n)" "n \<le> Suc (length rest)" "same_field p1 p2"
      using header_field_loop_ok[OF p1(2), of "d # rest"] by auto
    have loop: "header_field_loop ?p (c # d # rest) = Some (p2, Suc n)"
      using False assms(4) p1(1) p2(1) by (simp add: field_loop_Cons)
    have nread: "nread p2 \<le> max_header_size" "nread p2 = nread p1"
      using p1(3) p2(3) no by (simp_all add: same_field_def overflowed_def)
    have st: "pstate q = s_header_field"
      using q p1(3) assms(1) by (simp add: same_field_def)
    have loop2: "header_field_loop (count_header 1 p1) (d # rest) = Some (count_header 1 p2, n)"
      using p2(1) by (simp add: field_loop_count)
    have second: "iteration d rest q = (if overflowed (count_header 1 p1) then Some (fails HPE_HEADER_OVERFLOW (count_header 1 p1))
        else on_header_field (d # rest) (count_header 1 p1))"
      using st q by (simp add: iteration_def on_byte_def PARSING_HEADER_def Let_def)
    show ?thesis
    proof (cases "overflowed (count_header 1 p1)")
      case True
      then have "overflowed (count_header 1 p2)" using nread by (simp add: overflowed_def)
      then have "overflowed (count_header v p2)" if "1 \<le> v" "v \<le> max_header_size" for v
        using overflow_later that nread(1) by blast
      then have "fails_step (on_header_field (c # d # rest) ?p)"
        using p2(2) assms(4) by (intro on_header_field_overflow[OF loop]) auto
      then show ?thesis
        using True second q(2) by (simp add: bulk error_codes)
    next
      case no2: False
      have "n \<noteq> length (d # rest) \<or> 1 \<le> n" by auto
      then have "on_header_field (c # d # rest) ?p = map_option (shift 1) (on_header_field (d # rest) (count_header 1 p1))"
        unfolding on_header_field_def loop loop2
        by (auto simp: Let_def)
      then show ?thesis using no2 second q(2) by (simp add: bulk)
    qed
  qed
qed

section \<open>Values\<close>

definition value_cons :: "char \<Rightarrow> header_states \<Rightarrow> http_parser \<Rightarrow> string \<Rightarrow>
    (http_parser \<times> header_states \<times> nat \<times> value_end) option" where
  "value_cons c h p rest =
     header_value_char c h p \<bind>
       (\<lambda>r. case r of Inl p1 \<Rightarrow> Some (p1, h, 0, At_error)
         | Inr (p1, h1) \<Rightarrow> map_option (\<lambda>(p2, h2, n, e). (p2, h2, Suc n, e)) (header_value_loop p1 h1 rest))"

lemma value_loop_end:
  "header_value_loop p h (CR # rest) = Some (p, h, 0, At_cr)"
  "header_value_loop p h (LF # rest) = Some (p, h, 0, At_lf)"
  "c \<noteq> CR \<Longrightarrow> c \<noteq> LF \<Longrightarrow> \<not> IS_HEADER_CHAR c \<Longrightarrow>
     header_value_loop p h (c # rest) = Some (p\<lparr>http_errno := HPE_INVALID_HEADER_TOKEN\<rparr>, h, 0, At_error)"
  by (simp_all add: header_value_loop.simps)

lemma value_loop_general:
  assumes "Suc (length rest) \<le> max_header_size" "value_byte c"
  shows "header_value_loop p h_general (c # rest) =
    (let k = length (takeWhile value_byte rest)
     in if k < length rest then
          if rest ! k = CR \<or> rest ! k = LF
          then map_option (\<lambda>(p2, h2, n, e). (p2, h2, Suc k + n, e)) (header_value_loop p h_general (drop k rest))
          else Some (p\<lparr>http_errno := HPE_INVALID_HEADER_TOKEN\<rparr>, h_general, Suc k, At_error)
        else Some (p, h_general, Suc k, At_end))"
proof -
  have "length (takeWhile value_byte rest) \<le> length rest" by (rule length_takeWhile_le)
  then show ?thesis
    using assms
    by (cases "header_value_loop p h_general (drop (length (takeWhile value_byte rest)) rest)")
      (auto simp: header_value_loop.simps(2)[of p h_general c rest] value_byte_def Let_def split: Option.bind_splits)
qed

lemma value_loop_Cons:
  assumes "Suc (length rest) \<le> max_header_size" "c \<noteq> CR" "c \<noteq> LF" "IS_HEADER_CHAR c"
  shows "header_value_loop p h (c # rest) = value_cons c h p rest"
proof (cases "h = h_general")
  case False
  then show ?thesis
    using assms(2-4)
    by (auto simp: header_value_loop.simps value_cons_def split: Option.bind_splits sum.splits prod.splits)
next
  case True
  have one: "header_value_char x h_general p = Some (Inr (p, h_general))" for x by (simp add: header_value_char_def)
  show ?thesis
  proof (cases rest)
    case Nil
    then show ?thesis using True assms one by (simp add: header_value_loop.simps value_cons_def)
  next
    case (Cons d r)
    consider "value_byte d" | "d = CR \<or> d = LF" | "\<not> value_byte d" "d \<noteq> CR" "d \<noteq> LF" "\<not> IS_HEADER_CHAR d"
      by (auto simp: value_byte_def)
    then show ?thesis
    proof cases
      case 1
      have "value_byte c" using assms by (simp add: value_byte_def)
      from value_loop_general[OF assms(1) this] show ?thesis
        using True assms(1) one Cons 1
        by (simp add: value_cons_def value_loop_general Let_def option.map_comp comp_def case_prod_unfold)
    next
      case 2
      then have "header_value_loop p h (c # rest) = map_option (\<lambda>(p2, h2, n, e). (p2, h2, Suc n, e)) (header_value_loop p h rest)"
        using True assms Cons
        by (cases "header_value_loop p h_general (d # r)")
          (auto simp: header_value_loop.simps(2)[of p h_general c "d # r"] value_byte_def Let_def)
      then show ?thesis using True one by (simp add: value_cons_def)
    next
      case 3
      then show ?thesis
        using True assms one Cons
        by (simp add: header_value_loop.simps(2)[of p h_general c "d # r"] header_value_loop.simps(2)[of p h_general d r]
            value_cons_def Let_def)
    qed
  qed
qed

text \<open>The loop does not look at the header state of the parser, nor at the count.\<close>

definition recount :: "nat \<Rightarrow> header_states \<Rightarrow> http_parser \<Rightarrow> http_parser" where
  "recount v x p = (count_header v p)\<lparr>header_state := x\<rparr>"

lemma match_value_recount:
  "match_value word h found other c (recount v x p) = map_prod (recount v x) id (match_value word h found other c p)"
  by (simp add: match_value_def next_index_def recount_def count_header_def Let_def)

lemma connection_token_end_recount:
  "connection_token_end c h (recount v x p) = map_prod (recount v x) id (connection_token_end c h p)"
  by (cases h) (simp_all add: connection_token_end_def finish_header_def recount_def count_header_def)

definition same_char :: "(http_parser \<Rightarrow> http_parser) \<Rightarrow> (http_parser + http_parser \<times> header_states) option \<Rightarrow>
    (http_parser + http_parser \<times> header_states) option \<Rightarrow> bool" where
  "same_char f r s \<longleftrightarrow>
     (case r of None \<Rightarrow> s = None | Some (Inl q) \<Rightarrow> (\<exists>q2. s = Some (Inl q2) \<and> http_errno q2 \<noteq> 0)
      | Some (Inr (q, h)) \<Rightarrow> s = Some (Inr (f q, h)))"

lemma length_digit_recount: "same_char (recount v x) (Some (length_digit c p)) (Some (length_digit c (recount v x p)))"
  by (auto simp: same_char_def length_digit_def bad_length_def recount_def count_header_def error_codes)

lemma value_char_recount: "same_char (recount v x) (header_value_char c h p) (header_value_char c h (recount v x p))"
proof (cases h)
qed (simp_all add: header_value_char_def Let_def length_digit_recount match_value_recount connection_token_end_recount
    same_char_def[of _ "Some (Inr _)"] same_char_def[of _ None] same_char_def[of _ "Some (Inl _)"] bad_length_def error_codes
    split: prod.split, simp_all add: recount_def count_header_def)

definition same_value :: "(http_parser \<Rightarrow> http_parser) \<Rightarrow> (http_parser \<times> header_states \<times> nat \<times> value_end) option \<Rightarrow>
    (http_parser \<times> header_states \<times> nat \<times> value_end) option \<Rightarrow> bool" where
  "same_value f r s \<longleftrightarrow>
     (case r of None \<Rightarrow> s = None
      | Some (q, h, n, e) \<Rightarrow> \<exists>q2. s = Some (q2, h, n, e) \<and> (if e = At_error then http_errno q2 \<noteq> 0 else q2 = f q))"

lemma same_value_Suc:
  "same_value f r s \<Longrightarrow> same_value f (map_option (\<lambda>(p2, h2, n, e). (p2, h2, Suc n, e)) r)
     (map_option (\<lambda>(p2, h2, n, e). (p2, h2, Suc n, e)) s)"
  by (auto simp: same_value_def split: option.splits)

lemma value_loop_recount:
  "length data \<le> max_header_size \<Longrightarrow>
   same_value (recount v x) (header_value_loop p h data) (header_value_loop (recount v x p) h data)"
proof (induction data arbitrary: p h)
  case Nil
  then show ?case by (simp add: header_value_loop.simps same_value_def)
next
  case (Cons c rest)
  show ?case
  proof (cases "c = CR \<or> c = LF \<or> \<not> IS_HEADER_CHAR c")
    case True
    then show ?thesis by (auto simp: header_value_loop.simps same_value_def error_codes)
  next
    case False
    then have eq: "header_value_loop q h (c # rest) = value_cons c h q rest" for q
      using value_loop_Cons Cons.prems by simp
    have "same_char (recount v x) (header_value_char c h p) (header_value_char c h (recount v x p))"
      by (rule value_char_recount)
    then show ?thesis
      unfolding eq value_cons_def using Cons
      by (auto simp: same_char_def same_value_def[of _ None] same_value_def[of _ "Some _"] intro!: same_value_Suc
          split: option.splits sum.splits prod.splits)
  qed
qed

text \<open>A byte of a value, with more to come.\<close>

lemma on_header_value_overflow:
  assumes "header_value_loop p (header_state p) data = Some (p2, h2, n, e)" "e \<noteq> At_error"
    "overflowed (count_header (if e = At_end then n - 1 else n) p2)"
  shows "fails_step (on_header_value data p)"
  using assms by (cases e) (simp_all add: on_header_value_def Let_def error_codes)

lemma on_header_value_error:
  assumes "header_value_loop p (header_state p) data = Some (p2, h2, n, At_error)" "http_errno p2 \<noteq> 0"
  shows "fails_step (on_header_value data p)"
  using assms by (simp add: on_header_value_def)

lemma value_run:
  assumes "pstate p = s_header_value" "sound p" "value_state (header_state p)"
    and "Suc (Suc (length rest)) \<le> max_header_size" "iteration c [] p = Some (Goes_on q 0 m)"
  shows "iteration c (d # rest) p = Some (Goes_on q 0 m) \<or>
    m = False \<and> (iteration c (d # rest) p = map_option (shift 1) (iteration d rest q) \<or>
      fails_step (iteration c (d # rest) p) \<and> fails_step (iteration d rest q))"
proof -
  let ?p = "count_header 1 p" and ?h = "header_state p"
  have no: "\<not> overflowed ?p" and it: "on_header_value [c] ?p = Some (Goes_on q 0 m)"
    using assms(1,5)
    by (auto simp: iteration_def on_byte_def PARSING_HEADER_def fails_def Let_def split: if_splits)
  have bulk: "iteration c (d # rest) p = on_header_value (c # d # rest) ?p"
    using assms(1) no by (simp add: iteration_def on_byte_def PARSING_HEADER_def Let_def)
  show ?thesis
  proof (cases "c = CR \<or> c = LF \<or> \<not> IS_HEADER_CHAR c")
    case True
    then have "header_value_loop ?p ?h (c # d # rest) = header_value_loop ?p ?h [c]"
      by (auto simp: header_value_loop.simps)
    then show ?thesis using it unfolding bulk by (simp add: on_header_value_def)
  next
    case False
    then have c: "c \<noteq> CR" "c \<noteq> LF" "IS_HEADER_CHAR c" by auto
    have snd: "sound ?p" using assms(2) by simp
    obtain r where r: "header_value_char c ?h ?p = Some r" "value_step ?p r"
      using header_value_char_ok[OF snd assms(3)] by blast
    have one: "header_value_loop ?p ?h [c] = value_cons c ?h ?p []"
      using c by (intro value_loop_Cons) (simp_all add: max_header_size_def)
    have two: "header_value_loop ?p ?h (c # d # rest) = value_cons c ?h ?p (d # rest)"
      using c assms(4) by (intro value_loop_Cons) simp_all
    show ?thesis
    proof (cases r)
      case (Inl p1)
      then show ?thesis using it one r(1) by (simp add: on_header_value_def value_cons_def)
    next
      case (Inr ph)
      obtain p1 h1 where ph: "ph = (p1, h1)" by (cases ph)
      have p1: "sound p1" "value_state h1" "pstate p1 = s_header_value" "nread p1 = nread ?p"
        using r(2) Inr ph assms(1) by (simp_all add: value_step_def)
      have q: "q = recount 0 h1 p1" "m = False"
        using it one r(1) Inr ph no p1(4)
        by (auto simp: on_header_value_def value_cons_def header_value_loop.simps recount_def overflowed_def Let_def
            split: if_splits)
      obtain p2 h2 n e where p2: "header_value_loop p1 h1 (d # rest) = Some (p2, h2, n, e)"
        and ok: "value_result p1 (Suc (length rest)) (Some (p2, h2, n, e))"
        using header_value_loop_ok[OF p1(1,2), of "d # rest"] by (auto simp: value_result_def split: option.splits)
      have loop: "header_value_loop ?p (header_state ?p) (c # d # rest) = Some (p2, h2, Suc n, e)"
        using two r(1) Inr ph p2 by (simp add: value_cons_def)
      let ?q = "recount 1 h1 p1"
      have q1: "count_header 1 q = ?q" "pstate q = s_header_value" "header_state ?q = h1" "pstate ?q = s_header_value"
        using q p1(3) by (simp_all add: recount_def)
      have second: "iteration d rest q = (if overflowed ?q then Some (fails HPE_HEADER_OVERFLOW ?q)
          else on_header_value (d # rest) ?q)"
        using q1 by (simp add: iteration_def on_byte_def PARSING_HEADER_def Let_def)
      have "same_value (recount 1 h1) (header_value_loop p1 h1 (d # rest)) (header_value_loop ?q h1 (d # rest))"
        using assms(4) by (intro value_loop_recount) simp
      then obtain q2 where q2: "header_value_loop ?q (header_state ?q) (d # rest) = Some (q2, h2, n, e)"
          "if e = At_error then http_errno q2 \<noteq> 0 else q2 = recount 1 h1 p2"
        using p2 q1(3) by (auto simp: same_value_def)
      show ?thesis
      proof (cases "e = At_error")
        case True
        have "fails_step (on_header_value (c # d # rest) ?p)" "fails_step (on_header_value (d # rest) ?q)"
          using True ok q2 by (intro on_header_value_error[OF loop[unfolded True]] on_header_value_error[OF q2(1)[unfolded True]];
            simp add: value_result_def)+
        then show ?thesis using second q(2) by (auto simp: bulk error_codes)
      next
        case noerr: False
        have nread: "nread p2 = nread p1" "nread p2 \<le> max_header_size" "e = At_end \<Longrightarrow> n = Suc (length rest)" "n \<le> Suc (length rest)"
          using ok noerr p1(4) no by (auto simp: value_result_def overflowed_def split: if_splits)
        show ?thesis
        proof (cases "overflowed ?q")
          case True
          then have "overflowed (count_header 1 p2)" using nread by (simp add: overflowed_def recount_def)
          then have "fails_step (on_header_value (c # d # rest) ?p)"
          proof (intro on_header_value_overflow[OF loop noerr])
            show "overflowed (count_header (if e = At_end then Suc n - 1 else Suc n) p2)"
            proof (rule overflow_later[OF \<open>overflowed (count_header 1 p2)\<close>])
              show "1 \<le> (if e = At_end then Suc n - 1 else Suc n)" using nread(3) by simp
              show "(if e = At_end then Suc n - 1 else Suc n) \<le> max_header_size" using nread(4) assms(4) by auto
            qed (rule nread(2))
          qed
          then show ?thesis using True second q(2) by (simp add: bulk error_codes)
        next
          case no2: False
          show ?thesis
          proof (cases "overflowed (count_header (if e = At_end then n else Suc n) p2)")
            case True
            have "fails_step (on_header_value (c # d # rest) ?p)" "fails_step (on_header_value (d # rest) ?q)"
              using True noerr nread(3) q2(2)
              by (cases "e = At_end"; intro on_header_value_overflow[OF loop] on_header_value_overflow[OF q2(1)];
                simp add: recount_def)+
            then show ?thesis using no2 second q(2) by (simp add: bulk)
          next
            case False
            then have "on_header_value (c # d # rest) ?p = map_option (shift 1) (on_header_value (d # rest) ?q)"
              unfolding on_header_value_def loop q2(1)
              using noerr nread(3) q2(2) by (cases e) (auto simp: Let_def recount_def)
            then show ?thesis using no2 second q(2) by (simp add: bulk)
          qed
        qed
      qed
    qed
  qed
qed

section \<open>Bodies\<close>

lemma body_run:
  assumes "pstate p = s_body_identity" "0 < content_length p" "content_length p < ULLONG_MAX"
    and "iteration c [] p = Some (Goes_on q 0 m)"
  shows "iteration c (d # rest) p = Some (Goes_on q 0 m) \<or>
    m = False \<and> iteration c (d # rest) p = map_option (shift 1) (iteration d rest q)"
proof (cases "content_length p = 1")
  case True
  then show ?thesis
    using assms by (simp add: iteration_def on_byte_def PARSING_HEADER_def on_body_identity_def Let_def)
next
  case False
  then have q: "q = p\<lparr>content_length := content_length p - 1\<rparr>" "m = False"
    using assms by (auto simp: iteration_def on_byte_def PARSING_HEADER_def on_body_identity_def Let_def min_def split: if_splits)
  have "min (content_length p) (Suc (Suc (length rest))) = Suc (min (content_length p - 1) (Suc (length rest)))"
    using assms(2) by (cases "content_length p") simp_all
  then show ?thesis
    using assms False q
    by (cases "content_length p")
      (auto simp: iteration_def on_byte_def PARSING_HEADER_def on_body_identity_def Let_def on_message_done_def)
qed

lemma chunk_run:
  assumes "pstate p = s_chunk_data" "flag_chunked p" "0 < content_length p" "content_length p < ULLONG_MAX"
    and "iteration c [] p = Some (Goes_on q 0 m)"
  shows "iteration c (d # rest) p = Some (Goes_on q 0 m) \<or>
    m = False \<and> iteration c (d # rest) p = map_option (shift 1) (iteration d rest q)"
proof (cases "content_length p = 1")
  case True
  then show ?thesis
    using assms by (simp add: iteration_def on_byte_def PARSING_HEADER_def on_chunk_data_def Let_def)
next
  case False
  then have q: "q = p\<lparr>content_length := content_length p - 1\<rparr>" "m = False"
    using assms by (auto simp: iteration_def on_byte_def PARSING_HEADER_def on_chunk_data_def Let_def min_def split: if_splits)
  have "min (content_length p) (Suc (Suc (length rest))) = Suc (min (content_length p - 1) (Suc (length rest)))"
    using assms(3) by (cases "content_length p") simp_all
  then show ?thesis
    using assms False q
    by (cases "content_length p")
      (auto simp: iteration_def on_byte_def PARSING_HEADER_def on_chunk_data_def Let_def)
qed

section \<open>Every state\<close>

definition run_state :: "parser_state \<Rightarrow> bool" where
  "run_state s \<longleftrightarrow> s \<in> {s_header_field, s_header_value, s_body_identity, s_chunk_data, s_body_identity_eof}"

lemma iteration_single: "\<not> run_state (pstate p) \<Longrightarrow> iteration c rest p = iteration c [] p"
  by (cases "pstate p") (simp_all add: run_state_def iteration_def on_byte_def Let_def)

lemma peel:
  assumes "http_errno p = 0" "state_ok p" "Suc (length rest) \<le> max_header_size"
    and "iteration c [] p = Some (Goes_on q 0 m)"
  shows "agree (parse_bytes p (c # rest)) (after 1 m (parse_bytes q rest))"
proof -
  consider "rest = []" | "\<not> run_state (pstate p)" | "pstate p = s_body_identity_eof"
    | d r where "rest = d # r" "run_state (pstate p)" "pstate p \<noteq> s_body_identity_eof"
    by (cases rest) auto
  then show ?thesis
  proof cases
    case 1
    then show ?thesis using parse_bytes_step[of c rest p q m] assms(4) by simp
  next
    case 2
    then show ?thesis using parse_bytes_step[of c rest p q m] assms(4) iteration_single[of p c rest] by simp
  next
    case 3
    then have "q = p" "m = False"
      using assms(4) by (auto simp: iteration_def on_byte_def PARSING_HEADER_def)
    then show ?thesis
      using 3 by (cases rest) (simp_all add: parse_bytes.simps iteration_def on_byte_def PARSING_HEADER_def after_def)
  next
    case 4
    have "iteration c (d # r) p = Some (Goes_on q 0 m) \<or>
      m = False \<and> (iteration c (d # r) p = map_option (shift 1) (iteration d r q) \<or>
        fails_step (iteration c (d # r) p) \<and> fails_step (iteration d r q))"
      using 4 assms field_run[of p r c q m d] value_run[of p r c q m d] body_run[of p c q m d r] chunk_run[of p c q m d r]
      by (auto simp: run_state_def state_ok_def le_less)
    then show ?thesis
      using parse_bytes_step[of c rest p q m] parse_bytes_run[of c d r p q] parse_bytes_failed[of c "d # r" p]
        parse_bytes_failed[of d r q] 4(1)
      by (auto simp: agree_def)
  qed
qed

text \<open>A byte that ends the work, whatever follows.\<close>

lemma field_last:
  assumes "pstate p = s_header_field" "header_state p \<in> field_states" "iteration c [] p = Some (Returns q n m)"
  shows "iteration c rest p = Some (Returns q n m)"
proof (cases "overflowed (count_header 1 p)")
  case True
  then show ?thesis using assms(1,3) by (simp add: iteration_def PARSING_HEADER_def Let_def)
next
  case False
  then have it: "on_header_field [c] (count_header 1 p) = Some (Returns q n m)"
    using assms(1,3) by (simp add: iteration_def on_byte_def PARSING_HEADER_def Let_def)
  obtain p1 where "header_field_char c (count_header 1 p) = Some p1" "same_field (count_header 1 p) p1"
    using header_field_char_ok[of "count_header 1 p" c] assms(2) by auto
  then have "TOKEN c = NUL"
    using it False
    by (auto simp: on_header_field_def field_loop_Cons header_field_loop.simps max_header_size_def Let_def
        same_field_def overflowed_def split: if_splits)
  then have "on_header_field (c # rest) (count_header 1 p) = on_header_field [c] (count_header 1 p)"
    by (simp add: on_header_field_def header_field_loop.simps Let_def)
  then show ?thesis
    using it assms(1) False by (simp add: iteration_def on_byte_def PARSING_HEADER_def Let_def)
qed

lemma value_last:
  assumes "pstate p = s_header_value" "sound p" "value_state (header_state p)" "iteration c [] p = Some (Returns q n m)"
    and "Suc (length rest) \<le> max_header_size"
  shows "iteration c rest p = Some (Returns q n m)"
proof (cases "overflowed (count_header 1 p)")
  case True
  then show ?thesis using assms(1,4) by (simp add: iteration_def PARSING_HEADER_def Let_def)
next
  case False
  let ?p = "count_header 1 p" and ?h = "header_state p"
  have it: "on_header_value [c] ?p = Some (Returns q n m)"
    using assms(1,4) False by (simp add: iteration_def on_byte_def PARSING_HEADER_def Let_def)
  have "header_value_loop ?p ?h (c # rest) = header_value_loop ?p ?h [c]"
  proof (cases "c = CR \<or> c = LF \<or> \<not> IS_HEADER_CHAR c")
    case True
    then show ?thesis by (auto simp: header_value_loop.simps)
  next
    case nofail: False
    then have one: "header_value_loop ?p ?h (c # xs) = value_cons c ?h ?p xs" if "Suc (length xs) \<le> max_header_size" for xs
      using value_loop_Cons that by simp
    have snd: "sound ?p" using assms(2) by simp
    obtain r where r: "header_value_char c ?h ?p = Some r" "value_step ?p r"
      using header_value_char_ok[OF snd assms(3)] by blast
    show ?thesis
    proof (cases r)
      case (Inl p1)
      then show ?thesis using one[of "[]"] one[of rest] assms(5) r(1) by (simp add: value_cons_def max_header_size_def)
    next
      case (Inr ph)
      then have False
        using it one[of "[]"] r False
        by (cases ph) (auto simp: on_header_value_def value_cons_def header_value_loop.simps value_step_def max_header_size_def
            overflowed_def Let_def split: if_splits)
      then show ?thesis ..
    qed
  qed
  then show ?thesis
    using it assms(1) False by (simp add: iteration_def on_byte_def PARSING_HEADER_def Let_def on_header_value_def)
qed

lemma peel_last:
  assumes "http_errno p = 0" "state_ok p" "Suc (length rest) \<le> max_header_size"
    and "iteration c [] p = Some (Returns q n m)"
  shows "iteration c rest p = Some (Returns q n m)"
proof (cases "run_state (pstate p)")
  case False
  then show ?thesis using iteration_single[of p c rest] assms(4) by simp
next
  case True
  then consider "pstate p = s_header_field" | "pstate p = s_header_value" | "pstate p = s_body_identity"
    | "pstate p = s_chunk_data" | "pstate p = s_body_identity_eof"
    by (auto simp: run_state_def)
  then show ?thesis
  proof cases
    case 1
    then show ?thesis by (rule field_last[OF _ _ assms(4)]) (use assms(2) 1 in \<open>simp add: state_ok_def\<close>)
  next
    case 2
    then show ?thesis
      by (rule value_last[OF _ _ _ assms(4,3)]) (use assms(1,2) 2 in \<open>simp_all add: state_ok_def\<close>)
  next
    case 3
    then have "content_length p = 1"
      using assms by (auto simp: state_ok_def iteration_def on_byte_def PARSING_HEADER_def on_body_identity_def Let_def min_def
          split: if_splits)
    then show ?thesis
      using 3 assms(4)
      by (simp add: iteration_def on_byte_def PARSING_HEADER_def on_body_identity_def Let_def ULLONG_MAX_def)
  next
    case 4
    then show ?thesis
      using assms by (auto simp: iteration_def on_byte_def PARSING_HEADER_def on_chunk_data_def Let_def split: if_splits)
  next
    case 5
    then show ?thesis using assms by (simp add: iteration_def on_byte_def PARSING_HEADER_def)
  qed
qed

section \<open>A block and its bytes\<close>

lemma parse_bytes_feed:
  assumes "http_errno p = 0" "state_ok p" "length data \<le> max_header_size"
  shows "case feed p data of Some (q, m) \<Rightarrow> parse_bytes p data = Some (q, length data, m)
    | None \<Rightarrow> \<exists>q n m. parse_bytes p data = Some (q, n, m) \<and> (http_errno q \<noteq> 0 \<or> p_upgrade q \<and> pstate q = s_start_res)"
  using assms
proof (induction data arbitrary: p)
  case Nil
  then show ?case by (simp add: parse_bytes.simps)
next
  case (Cons c rest)
  obtain s where s: "iteration c [] p = Some s" "step_ok 0 s"
    using iteration_ok[OF Cons.prems(1,2), of "[]" c] by (cases "iteration c [] p") auto
  from parse_bytes_safe[OF Cons.prems(1,2), of "c # rest"] obtain r where r: "parse_bytes p (c # rest) = Some r"
    by (elim exE conjE) (rule that)
  have len: "Suc (length rest) \<le> max_header_size" using Cons.prems(3) by simp
  show ?case
  proof (cases s)
    case (Returns q n m)
    have "parse_bytes p (c # rest) = Some (q, n, m)"
      using peel_last[OF Cons.prems(1,2) len s(1)[unfolded Returns]] by (simp add: parse_bytes.simps)
    then show ?thesis using s Returns by auto
  next
    case (Goes_on q k m)
    then have q: "k = 0" "http_errno q = 0" "state_ok q" using s(2) by simp_all
    have ag: "agree (parse_bytes p (c # rest)) (after 1 m (parse_bytes q rest))"
      using peel[OF Cons.prems(1,2) len] s(1) Goes_on q(1) by simp
    have ih: "case feed q rest of Some (t, m) \<Rightarrow> parse_bytes q rest = Some (t, length rest, m)
      | None \<Rightarrow> \<exists>t n m. parse_bytes q rest = Some (t, n, m) \<and> (http_errno t \<noteq> 0 \<or> p_upgrade t \<and> pstate t = s_start_res)"
      by (rule Cons.IH[OF q(2,3)]) (use len in simp)
    show ?thesis
    proof (cases "feed q rest")
      case None
      then obtain t n m2 where t: "parse_bytes q rest = Some (t, n, m2)" "http_errno t \<noteq> 0 \<or> p_upgrade t \<and> pstate t = s_start_res"
        using ih by auto
      have "feed p (c # rest) = None" using s(1) Goes_on None by simp
      moreover have "\<exists>t n m. parse_bytes p (c # rest) = Some (t, n, m) \<and> (http_errno t \<noteq> 0 \<or> p_upgrade t \<and> pstate t = s_start_res)"
        using ag t r by (cases r) (auto simp: agree_def failed_def after_def)
      ultimately show ?thesis by simp
    next
      case (Some t)
      obtain u m2 where u: "t = (u, m2)" by (cases t)
      have "http_errno u = 0" using feed_ok[OF q(2,3)] Some u by blast
      then have "parse_bytes p (c # rest) = after 1 m (parse_bytes q rest)"
        using ag ih Some u by (auto simp: agree_def failed_def after_def)
      then show ?thesis using ih s(1) Goes_on Some u by (simp add: after_def)
    qed
  qed
qed

text \<open>Once the protocol has changed, the parser is at a body until it stops.\<close>

definition switched :: "http_parser \<Rightarrow> bool" where
  "switched p \<longleftrightarrow> p_upgrade p \<and> pstate p = s_start_res"

definition upgrade_ok :: "http_parser \<Rightarrow> bool" where
  "upgrade_ok p \<longleftrightarrow> (p_upgrade p \<longrightarrow>
     pstate p \<in> {s_chunk_size_start, s_chunk_size, s_chunk_parameters, s_chunk_size_almost_done, s_chunk_data,
       s_chunk_data_almost_done, s_chunk_data_done, s_body_identity, s_body_identity_eof} \<or>
     flag_trailing p \<and> pstate p \<in> {s_header_field_start, s_header_field, s_header_value_discard_ws,
       s_header_value_discard_ws_almost_done, s_header_value_discard_lws, s_header_value_start, s_header_value,
       s_header_value_lws, s_header_almost_done, s_headers_almost_done})"

fun step_upgrade :: "step \<Rightarrow> bool" where
  "step_upgrade (Goes_on p k m) = upgrade_ok p"
| "step_upgrade (Returns p n m) = True"

lemma match_field_upgrade [simp]:
  "p_upgrade (match_field w f c p) = p_upgrade p" "flag_trailing (match_field w f c p) = flag_trailing p"
  "pstate (match_field w f c p) = pstate p"
  by (simp_all add: match_field_def next_index_def Let_def)

lemma finish_header_upgrade [simp]:
  "p_upgrade (finish_header p) = p_upgrade p" "flag_trailing (finish_header p) = flag_trailing p"
  "pstate (finish_header p) = pstate p"
  by (cases "header_state p"; simp add: finish_header_def)+

lemma count_header_upgrade [simp]:
  "p_upgrade (count_header v p) = p_upgrade p" "flag_trailing (count_header v p) = flag_trailing p"
  by (simp_all add: count_header_def)

lemma field_char_upgrade:
  "header_field_char c p = Some q \<Longrightarrow> p_upgrade q = p_upgrade p \<and> flag_trailing q = flag_trailing p \<and> pstate q = pstate p"
  by (cases "header_state p") (auto simp: header_field_char_def next_index_def Let_def split: if_splits)

lemma value_char_upgrade:
  "header_value_char c h p = Some (Inr (q, h1)) \<Longrightarrow>
   p_upgrade q = p_upgrade p \<and> flag_trailing q = flag_trailing p \<and> pstate q = pstate p"
  by (cases h)
    (auto simp: header_value_char_def match_value_def connection_token_end_def length_digit_def next_index_def finish_header_def
      Let_def split: if_splits)

lemma step_upgrade_fails [simp]: "step_upgrade (fails e p)"
  by (simp add: fails_def)

lemma on_header_field_start_upgrade:
  "p_upgrade p \<longrightarrow> flag_trailing p \<Longrightarrow> step_upgrade (on_header_field_start c p)"
  by (auto simp: on_header_field_start_def on_headers_almost_done_def on_headers_done_def on_message_done_def
      upgrade_ok_def Let_def)

lemma on_header_value_start_upgrade:
  "p_upgrade p \<longrightarrow> flag_trailing p \<Longrightarrow> step_upgrade (on_header_value_start c p)"
  by (cases "header_state p") (simp_all add: on_header_value_start_def upgrade_ok_def Let_def)

lemma iteration_upgrade:
  assumes "upgrade_ok p" "state_ok p" "http_errno p = 0" "iteration c [] p = Some s"
  shows "step_upgrade s"
proof -
  define q where "q = (if PARSING_HEADER (pstate p) then count_header 1 p else p)"
  have q: "p_upgrade q = p_upgrade p" "flag_trailing q = flag_trailing p" "pstate q = pstate p" "header_state q = header_state p"
    by (simp_all add: q_def)
  from assms(4) have "s = fails HPE_HEADER_OVERFLOW q \<or> on_byte c [] q = Some s"
    by (auto simp: iteration_def q_def Let_def split: if_splits)
  moreover have "step_upgrade s" if s: "on_byte c [] q = Some s"
  proof (cases "pstate q")
    case s_header_field
    then show ?thesis
      using s assms(1) q
      by (cases "header_field_char c q") (auto simp: on_byte_def on_header_field_def header_field_loop.simps upgrade_ok_def
          Let_def dest!: field_char_upgrade split: if_splits)
  next
    case s_header_value
    have s1: "on_header_value [c] q = Some s" using s s_header_value by (simp add: on_byte_def)
    consider "c = CR" | "c = LF" | "c \<noteq> CR" "c \<noteq> LF" "\<not> IS_HEADER_CHAR c" | "c \<noteq> CR" "c \<noteq> LF" "IS_HEADER_CHAR c"
      by blast
    then show ?thesis
    proof cases
      case 4
      then have "header_value_loop q (header_state q) [c] = value_cons c (header_state q) q []"
        by (intro value_loop_Cons) (simp_all add: max_header_size_def)
      moreover have "sound q" "value_state (header_state q)"
        using assms(2,3) q s_header_value by (simp_all add: state_ok_def q_def)
      then obtain r where "header_value_char c (header_state q) q = Some r"
        using header_value_char_ok by metis
      ultimately show ?thesis
        using s1 s_header_value assms(1) q
        by (cases r) (auto simp: on_header_value_def value_cons_def header_value_loop.simps(1) upgrade_ok_def Let_def
            dest!: value_char_upgrade split: if_splits)
    qed (use s1 s_header_value assms(1) q in \<open>auto simp: on_header_value_def value_loop_end
      upgrade_ok_def on_header_almost_done_def Let_def split: if_splits\<close>)
  qed (use s assms(1) q in \<open>auto simp: on_byte_def upgrade_ok_def on_header_field_start_upgrade on_header_value_start_upgrade
      on_headers_almost_done_def on_headers_done_def on_message_done_def Let_def on_start_res_def on_status_def on_status_start_def
      on_status_code_def on_first_status_code_def on_header_value_discard_ws_def on_header_value_discard_lws_def
      on_header_value_lws_def on_header_almost_done_def on_chunk_size_start_def on_chunk_size_def on_chunk_parameters_def
      on_chunk_size_almost_done_def on_chunk_data_almost_done_def on_chunk_data_done_def on_chunk_data_def on_body_identity_def
      split: option.splits if_splits\<close>)
  ultimately show ?thesis by auto
qed

lemma feed_upgrade:
  assumes "upgrade_ok p" "state_ok p" "http_errno p = 0" "feed p data = Some (q, m)"
  shows "upgrade_ok q"
  using assms
proof (induction data arbitrary: p m)
  case (Cons c data)
  obtain s where s: "iteration c [] p = Some s" "step_ok 0 s"
    using iteration_ok[OF Cons.prems(3,2), of "[]" c] by (cases "iteration c [] p") auto
  then have "step_upgrade s" using iteration_upgrade Cons.prems by blast
  then show ?case
    using Cons.IH Cons.prems(4) s by (cases s) auto
qed simp

section \<open>Reads\<close>

text \<open>Blocks one after the other, until the parser stops: for an error, or as the server has changed the
  protocol.\<close>

fun read_blocks :: "http_parser \<Rightarrow> string list \<Rightarrow> (http_parser \<times> bool) option" where
  "read_blocks p [] = Some (p, False)"
| "read_blocks p (b # bs) =
     (case http_parser_execute p b of
        Some (q, n, m) \<Rightarrow>
          if http_errno q \<noteq> 0 \<or> switched q then None
          else map_option (map_prod id (\<lambda>m2. m \<or> m2)) (read_blocks q bs)
      | None \<Rightarrow> None)"

definition block_ok :: "string \<Rightarrow> bool" where
  "block_ok b \<longleftrightarrow> b \<noteq> [] \<and> length b \<le> max_header_size"

lemma execute_feed:
  assumes "http_errno p = 0" "state_ok p" "upgrade_ok p" "block_ok b"
  shows "case feed p b of Some (q, m) \<Rightarrow> http_parser_execute p b = Some (q, length b, m) \<and> http_errno q = 0 \<and> \<not> switched q
    | None \<Rightarrow> \<exists>q n m. http_parser_execute p b = Some (q, n, m) \<and> (http_errno q \<noteq> 0 \<or> switched q)"
proof -
  have ex: "http_parser_execute p b = parse_bytes p b"
    using assms by (simp add: http_parser_execute_def block_ok_def)
  show ?thesis
  proof (cases "feed p b")
    case None
    then show ?thesis
      using parse_bytes_feed[OF assms(1,2), of b] assms(4) ex by (simp add: block_ok_def switched_def)
  next
    case (Some r)
    obtain q m where r: "r = (q, m)" by (cases r)
    have "http_errno q = 0" "upgrade_ok q"
      using feed_ok[OF assms(1,2)] feed_upgrade[OF assms(3,2,1)] Some r by blast+
    then show ?thesis
      using parse_bytes_feed[OF assms(1,2), of b] assms(4) ex Some r
      by (auto simp: block_ok_def switched_def upgrade_ok_def)
  qed
qed

lemma read_blocks_feed:
  assumes "http_errno p = 0" "state_ok p" "upgrade_ok p" "list_all block_ok bs"
  shows "read_blocks p bs = feed p (concat bs)"
  using assms
proof (induction bs arbitrary: p)
  case (Cons b bs)
  have "block_ok b" using Cons.prems(4) by simp
  note ef = execute_feed[OF Cons.prems(1-3) this]
  show ?case
  proof (cases "feed p b")
    case None
    then show ?thesis using ef by (auto simp: feed_append)
  next
    case (Some r)
    obtain q m where r: "r = (q, m)" by (cases r)
    have "http_errno q = 0" "state_ok q" "upgrade_ok q"
      using feed_ok[OF Cons.prems(1,2)] feed_upgrade[OF Cons.prems(3,2,1)] Some r by blast+
    then have "read_blocks q bs = feed q (concat bs)" using Cons.IH Cons.prems(4) by simp
    then show ?thesis using ef Some r by (simp add: feed_append)
  qed
qed simp

lemma init_ok: "http_errno http_parser_init = 0" "state_ok http_parser_init" "upgrade_ok http_parser_init"
  by (simp_all add: http_parser_init_def state_ok_def upgrade_ok_def)

text \<open>C12. How the network cuts a response into reads does not matter: whichever blocks the same bytes arrive
  in, the parser ends in the same state, with the same answer to whether a message is complete, or it
  stops, for an error or a change of protocol, both times.\<close>

theorem reads_split_anyhow:
  assumes "concat as = concat bs" "list_all block_ok as" "list_all block_ok bs"
  shows "read_blocks http_parser_init as = read_blocks http_parser_init bs"
  using assms read_blocks_feed[OF init_ok] by simp

theorem reads_split_anyhow_witness:
  "read_blocks http_parser_init [''HTTP/1.1 2'', ''04 No Content'' @ [CR, LF, CR], [LF]] =
   read_blocks http_parser_init [''HTTP'', ''/1.1 204 No Content'' @ [CR], [LF, CR, LF]]"
  by (rule reads_split_anyhow) (simp_all add: block_ok_def max_header_size_def)

end
