(* ===== verification/Http_Response.thy ===== *)
theory Http_Response
  imports Http_Feed "HOL-Library.Sublist"
begin

text \<open>
  The responses a server sends, as text, and what the HTTP parser makes of them: it takes a response to
  be complete exactly at its last byte, and reports its status and whether the connection can be kept.
\<close>

section \<open>Responses\<close>

text \<open>The body is a list of chunks; without chunked encoding their bytes follow each other.\<close>

record response =
  r_minor :: nat
  r_status :: nat
  r_reason :: string
  r_headers :: "(string \<times> string) list"
  r_body :: "string list"

definition CRLF :: string where "CRLF = [CR, LF]"

definition status_line :: "response \<Rightarrow> string" where
  "status_line r =
     ''HTTP/1.'' @ [digit_char (r_minor r)] @ '' '' @
     map digit_char [r_status r div 100, r_status r div 10 mod 10, r_status r mod 10] @ '' '' @ r_reason r @ CRLF"

definition header_line :: "string \<times> string \<Rightarrow> string" where
  "header_line h = fst h @ '': '' @ snd h @ CRLF"

definition chunk_text :: "string \<Rightarrow> string" where
  "chunk_text b = map digit_char (digits_of 16 (length b)) @ CRLF @ b @ CRLF"

text \<open>What the headers say, in any mixture of upper and lower case.\<close>

definition named :: "string \<Rightarrow> string \<times> string \<Rightarrow> bool" where
  "named w h \<longleftrightarrow> map TOKEN (fst h) = w"

definition about_connection :: "string \<times> string \<Rightarrow> bool" where
  "about_connection h \<longleftrightarrow> named ''connection'' h \<or> named ''proxy-connection'' h"

definition says :: "string \<Rightarrow> string \<times> string \<Rightarrow> bool" where
  "says w h \<longleftrightarrow> map lower_char (snd h) = w"

definition chunked_response :: "response \<Rightarrow> bool" where
  "chunked_response r \<longleftrightarrow> (\<exists>h \<in> set (r_headers r). named ''transfer-encoding'' h)"

definition has_length :: "response \<Rightarrow> bool" where
  "has_length r \<longleftrightarrow> (\<exists>h \<in> set (r_headers r). named ''content-length'' h)"

definition connection_says :: "string \<Rightarrow> response \<Rightarrow> bool" where
  "connection_says w r \<longleftrightarrow> (\<exists>h \<in> set (r_headers r). about_connection h \<and> says w h)"

definition response_text :: "response \<Rightarrow> string" where
  "response_text r =
     status_line r @ concat (map header_line (r_headers r)) @ CRLF @
     (if chunked_response r then concat (map chunk_text (r_body r)) @ ''0'' @ CRLF @ CRLF else concat (r_body r))"

definition header_ok :: "string \<times> string \<Rightarrow> bool" where
  "header_ok h \<longleftrightarrow>
     fst h \<noteq> [] \<and> list_all (\<lambda>c. STRICT_TOKEN c \<noteq> NUL) (fst h) \<and>
     snd h \<noteq> [] \<and> list_all value_byte (snd h) \<and> hd (snd h) \<noteq> CHR '' '' \<and> hd (snd h) \<noteq> TAB \<and>
     (about_connection h \<longrightarrow> says ''close'' h \<or> says ''keep-alive'' h) \<and>
     (named ''transfer-encoding'' h \<longrightarrow> says ''chunked'' h) \<and> \<not> named ''upgrade'' h \<and>
     \<not> strict_prefix ''transfer-encoding'' (map TOKEN (fst h))"

text \<open>A body is framed by its length, by chunks, or by a status that allows none.\<close>

definition framed :: "response \<Rightarrow> bool" where
  "framed r \<longleftrightarrow>
     (if chunked_response r then \<not> has_length r \<and> list_all (\<lambda>b. b \<noteq> [] \<and> length b < 2 ^ 60) (r_body r)
      else if has_length r then
        length (filter (named ''content-length'') (r_headers r)) = 1 \<and> length (concat (r_body r)) < 2 ^ 60 \<and>
        (\<forall>h \<in> set (r_headers r). named ''content-length'' h \<longrightarrow> snd h = show_nat (length (concat (r_body r))))
      else concat (r_body r) = [] \<and> (r_status r div 100 = 1 \<or> r_status r = 204 \<or> r_status r = 304))"

definition response_ok :: "response \<Rightarrow> bool" where
  "response_ok r \<longleftrightarrow>
     r_minor r < 10 \<and> 100 \<le> r_status r \<and> r_status r < 1000 \<and> CR \<notin> set (r_reason r) \<and> LF \<notin> set (r_reason r) \<and>
     list_all header_ok (r_headers r) \<and> framed r \<and>
     length (status_line r) + length (concat (map header_line (r_headers r))) + 2 \<le> max_header_size"

text \<open>Whether the server keeps the connection: from HTTP/1.1 on unless it says otherwise.\<close>

definition stays_open :: "response \<Rightarrow> bool" where
  "stays_open r \<longleftrightarrow> (if r_minor r > 0 then \<not> connection_says ''close'' r else connection_says ''keep-alive'' r)"

section \<open>Walking through a text\<close>

text \<open>What a byte of a header changes besides what it says.\<close>

definition core :: "http_parser \<Rightarrow> http_parser" where
  "core p = p\<lparr>pstate := s_start_res, header_state := h_general, p_index := 0, nread := 0\<rparr>"

definition walks :: "http_parser \<Rightarrow> string \<Rightarrow> http_parser \<Rightarrow> bool" where
  "walks p s q \<longleftrightarrow> feed p s = Some (q, False)"

lemma walks_Nil [simp]: "walks p [] q \<longleftrightarrow> q = p"
  by (auto simp: walks_def)

lemma walks_append: "walks p s q \<Longrightarrow> walks q t r \<Longrightarrow> walks p (s @ t) r"
  by (simp add: walks_def feed_append)

lemma walks_Cons: "iteration c [] p = Some (goes_on q) \<Longrightarrow> walks p (c # s) r \<longleftrightarrow> walks q s r"
  by (cases "feed q s") (auto simp: walks_def)

text \<open>One byte of the headers.\<close>

definition counted :: "http_parser \<Rightarrow> http_parser" where
  "counted p = p\<lparr>nread := Suc (nread p)\<rparr>"

lemma header_byte:
  assumes "PARSING_HEADER (pstate p)" "nread p < max_header_size"
  shows "iteration c rest p = on_byte c rest (counted p)"
proof -
  have "count_header 1 p = counted p"
    using assms(2) by (simp add: count_header_def counted_def max_header_size_def)
  then show ?thesis
    using assms by (simp add: iteration_def overflowed_def counted_def Let_def)
qed

lemma counted_simps [simp]:
  "pstate (counted p) = pstate p" "header_state (counted p) = header_state p" "p_index (counted p) = p_index p"
  "nread (counted p) = Suc (nread p)" "core (counted p) = core p" "http_errno (counted p) = http_errno p"
  "content_length (counted p) = content_length p" "flag_content_length (counted p) = flag_content_length p"
  by (simp_all add: counted_def core_def)

lemma core_simps [simp]:
  "core (p\<lparr>pstate := s\<rparr>) = core p" "core (p\<lparr>header_state := h\<rparr>) = core p" "core (p\<lparr>p_index := i\<rparr>) = core p"
  "core (p\<lparr>nread := n\<rparr>) = core p" "core (count_header v p) = core p" "core (core p) = core p"
  by (simp_all add: core_def count_header_def)

section \<open>The status line\<close>

definition status_parser :: "response \<Rightarrow> http_parser" where
  "status_parser r = http_parser_init\<lparr>content_length := ULLONG_MAX, http_major := 1, http_minor := r_minor r,
     status_code := r_status r\<rparr>"

lemma byte_of_literals [simp]:
  "byte_of CR = 13" "byte_of LF = 10" "byte_of TAB = 9" "byte_of (CHR '' '') = 32" "byte_of (CHR ''1'') = 49"
  by (simp_all add: byte_of_def)

lemma digit_facts:
  assumes "d < 10"
  shows "IS_NUM (digit_char d)" "digit_val (digit_char d) = d" "TOKEN (digit_char d) = digit_char d"
    "digit_char d \<noteq> CR" "digit_char d \<noteq> LF" "digit_char d \<noteq> CHR '' ''" "digit_char d \<noteq> TAB"
  using assms byte_of_digit_char[of d]
  by (auto simp: IS_NUM_def digit_val_def is_digit_def TOKEN_def is_upper_def)

lemma walks_header:
  assumes "on_byte c [] (counted p) = Some (goes_on q)" "PARSING_HEADER (pstate p)" "nread p < max_header_size"
  shows "walks p (c # s) r \<longleftrightarrow> walks q s r"
  using assms by (intro walks_Cons) (simp add: header_byte)

lemma walks_start:
  "walks http_parser_init ''HTTP/1.''
     (http_parser_init\<lparr>content_length := ULLONG_MAX, http_major := 1, pstate := s_res_http_minor, nread := 7\<rparr>)"
  unfolding walks_def
  by (simp add: iteration_def on_byte_def PARSING_HEADER_def http_parser_init_def on_start_res_def count_header_def
      overflowed_def max_header_size_def IS_NUM_def is_digit_def digit_val_def Let_def)

lemma walks_reason:
  assumes "pstate p = s_res_status" "CR \<notin> set s" "LF \<notin> set s" "nread p + length s \<le> max_header_size"
  shows "walks p s (p\<lparr>nread := nread p + length s\<rparr>)"
  using assms
proof (induction s arbitrary: p)
  case (Cons c s)
  have "on_byte c [] (counted p) = Some (goes_on (counted p))"
    using Cons.prems by (auto simp: on_byte_def on_status_def)
  then have "walks p (c # s) q \<longleftrightarrow> walks (counted p) s q" for q
    using Cons.prems by (intro walks_header) (simp_all add: PARSING_HEADER_def)
  then show ?case
    using Cons.IH[of "counted p"] Cons.prems by (simp add: counted_def)
qed simp

lemma walks_CRLF:
  assumes "pstate p = s_res_status" "Suc (Suc (nread p)) \<le> max_header_size"
  shows "walks p CRLF (p\<lparr>pstate := s_header_field_start, nread := Suc (Suc (nread p))\<rparr>)"
  using assms
  by (simp add: CRLF_def walks_def header_byte PARSING_HEADER_def on_byte_def on_status_def counted_def)

lemma status_digits:
  assumes "100 \<le> s" "s < 1000"
  shows "(s div 100 * 10 + s div 10 mod 10) * 10 + s mod 10 = (s::nat)"
proof -
  have "s div 100 = s div 10 div 10" by (simp add: div_mult2_eq[symmetric])
  then show ?thesis by presburger
qed

lemma walks_status:
  assumes "pstate p = s_res_http_minor" "m < 10" "100 \<le> s" "s < 1000" "nread p + 6 \<le> max_header_size"
  shows "walks p ([digit_char m] @ '' '' @ map digit_char [s div 100, s div 10 mod 10, s mod 10] @ '' '')
    (p\<lparr>pstate := s_res_status_start, http_minor := m, status_code := s, nread := nread p + 6\<rparr>)"
proof -
  have d: "s div 100 < 10" "s div 10 mod 10 < 10" "s mod 10 < 10" using assms(4) by simp_all
  have s: "(s div 100 * 10 + s div 10 mod 10) * 10 + s mod 10 = s" using assms status_digits by simp
  show ?thesis
    using assms d s
    by (simp add: walks_def header_byte PARSING_HEADER_def on_byte_def counted_def digit_facts on_first_status_code_def
        on_status_code_def Let_def IS_NUM_def[of "CHR '' ''"] is_digit_def[of "CHR '' ''"])
qed

lemma walks_reason_line:
  assumes "pstate p = s_res_status_start" "CR \<notin> set s" "LF \<notin> set s" "nread p + length s + 2 \<le> max_header_size"
  shows "walks p (s @ CRLF) (p\<lparr>p_index := 0, pstate := s_header_field_start, nread := nread p + length s + 2\<rparr>)"
proof (cases s)
  case Nil
  then show ?thesis
    using assms by (simp add: CRLF_def walks_def header_byte PARSING_HEADER_def on_byte_def on_status_start_def
        on_status_def counted_def Let_def)
next
  case (Cons c t)
  let ?q = "(counted p)\<lparr>pstate := s_res_status, p_index := 0\<rparr>"
  have "on_byte c [] (counted p) = Some (goes_on ?q)"
    using assms Cons by (auto simp: on_byte_def on_status_start_def Let_def)
  then have first: "walks p (c # t @ CRLF) q \<longleftrightarrow> walks ?q (t @ CRLF) q" for q
    using assms by (intro walks_header) (simp_all add: PARSING_HEADER_def)
  have a: "walks ?q t (?q\<lparr>nread := nread ?q + length t\<rparr>)"
    using assms Cons by (intro walks_reason) simp_all
  have b: "walks (?q\<lparr>nread := nread ?q + length t\<rparr>) CRLF
      (?q\<lparr>nread := nread ?q + length t, pstate := s_header_field_start, nread := Suc (Suc (nread ?q + length t))\<rparr>)"
    using walks_CRLF[of "?q\<lparr>nread := nread ?q + length t\<rparr>"] assms Cons by simp
  show ?thesis
    using walks_append[OF a b] first Cons by (simp add: counted_def)
qed

lemma walks_status_line:
  assumes "r_minor r < 10" "100 \<le> r_status r" "r_status r < 1000" "CR \<notin> set (r_reason r)" "LF \<notin> set (r_reason r)"
    and "length (status_line r) \<le> max_header_size"
  shows "walks http_parser_init (status_line r)
    ((status_parser r)\<lparr>pstate := s_header_field_start, nread := length (status_line r)\<rparr>)"
proof -
  let ?p = "http_parser_init\<lparr>content_length := ULLONG_MAX, http_major := 1, pstate := s_res_http_minor, nread := 7\<rparr>"
  let ?q = "?p\<lparr>pstate := s_res_status_start, http_minor := r_minor r, status_code := r_status r, nread := 13\<rparr>"
  let ?digits = "map digit_char [r_status r div 100, r_status r div 10 mod 10, r_status r mod 10]"
  have eq: "status_line r = ''HTTP/1.'' @ ([digit_char (r_minor r)] @ '' '' @ ?digits @ '' '') @ r_reason r @ CRLF"
    by (simp add: status_line_def)
  have len: "length (status_line r) = 15 + length (r_reason r)" by (simp add: eq CRLF_def)
  have a: "walks ?p ([digit_char (r_minor r)] @ '' '' @ ?digits @ '' '') ?q"
    using walks_status[of ?p "r_minor r" "r_status r"] assms(1-3) by (simp add: max_header_size_def)
  have b: "walks ?q (r_reason r @ CRLF)
      (?q\<lparr>p_index := 0, pstate := s_header_field_start, nread := nread ?q + length (r_reason r) + 2\<rparr>)"
    using assms(4-6) len by (intro walks_reason_line) (simp_all)
  show ?thesis
    unfolding len unfolding eq status_parser_def
    using walks_append[OF walks_start walks_append[OF a b]] by (simp add: http_parser_init_def CRLF_def)
qed

section \<open>Header lines\<close>

text \<open>What a header line says.\<close>

definition apply_header :: "string \<times> string \<Rightarrow> http_parser \<Rightarrow> http_parser" where
  "apply_header h p =
     (if about_connection h then if says ''close'' h then p\<lparr>flag_close := True\<rparr> else p\<lparr>flag_keep_alive := True\<rparr>
      else if named ''content-length'' h then p\<lparr>flag_content_length := True, content_length := read_digits 10 (snd h)\<rparr>
      else if named ''transfer-encoding'' h then p\<lparr>flag_transfer_encoding := True, flag_chunked := True\<rparr>
      else p)"

text \<open>The state of the automaton that reads a name, and its index: what it has read, in lower case.\<close>

definition name_state :: "string \<Rightarrow> header_states" where
  "name_state ys =
     (if ys = ''c'' then h_C else if ys = ''co'' then h_CO else if ys = ''con'' then h_CON
      else if ys = ''connection'' \<or> ys = ''proxy-connection'' then h_connection
      else if ys = ''content-length'' then h_content_length
      else if ys = ''transfer-encoding'' then h_transfer_encoding
      else if ys = ''upgrade'' then h_upgrade
      else if ys = take (length ys) ''connection'' then h_matching_connection
      else if ys = take (length ys) ''content-length'' then h_matching_content_length
      else if ys = take (length ys) ''proxy-connection'' then h_matching_proxy_connection
      else if ys = take (length ys) ''transfer-encoding'' then h_matching_transfer_encoding
      else if ys = take (length ys) ''upgrade'' then h_matching_upgrade
      else h_general)"

definition name_words :: "string list" where
  "name_words = [''connection'', ''content-length'', ''proxy-connection'', ''transfer-encoding'', ''upgrade'']"

definition name_prefixes :: "string list" where
  "name_prefixes = concat (map (\<lambda>w. map (\<lambda>i. take (Suc i) w) [0..<length w]) name_words)"

lemma name_prefixes_list: "set name_prefixes = set
   [''c'', ''co'', ''con'', ''conn'', ''conne'', ''connec'', ''connect'', ''connecti'', ''connectio'', ''connection'', ''cont'', ''conte'', ''conten'', ''content'', ''content-'', ''content-l'', ''content-le'', ''content-len'', ''content-leng'', ''content-lengt'', ''content-length'', ''p'', ''pr'', ''pro'', ''prox'', ''proxy'', ''proxy-'', ''proxy-c'', ''proxy-co'', ''proxy-con'', ''proxy-conn'', ''proxy-conne'', ''proxy-connec'', ''proxy-connect'', ''proxy-connecti'', ''proxy-connectio'', ''proxy-connection'', ''t'', ''tr'', ''tra'', ''tran'', ''trans'', ''transf'', ''transfe'', ''transfer'', ''transfer-'', ''transfer-e'', ''transfer-en'', ''transfer-enc'', ''transfer-enco'', ''transfer-encod'', ''transfer-encodi'', ''transfer-encodin'', ''transfer-encoding'', ''u'', ''up'', ''upg'', ''upgr'', ''upgra'', ''upgrad'', ''upgrade'']"
  by code_simp

definition reads_name :: "string \<Rightarrow> http_parser \<Rightarrow> bool" where
  "reads_name ys p \<longleftrightarrow> header_state p = name_state ys \<and> (name_state ys \<noteq> h_general \<longrightarrow> p_index p = length ys - 1)"

definition name_step :: "string \<Rightarrow> char \<Rightarrow> http_parser \<Rightarrow> http_parser option \<Rightarrow> bool" where
  "name_step ys d p r \<longleftrightarrow> (case r of None \<Rightarrow> False
    | Some q \<Rightarrow> reads_name (ys @ [d]) q \<and> pstate q = pstate p \<and> nread q = nread p \<and>
        core q = (if ys @ [d] = ''transfer-encoding'' then (core p)\<lparr>flag_transfer_encoding := True\<rparr> else core p))"

lemma name_prefixes_step:
  assumes "ys \<in> set name_prefixes" "header_state p = name_state ys" "p_index p = length ys - 1" "c \<noteq> CHR '' ''"
  shows "name_step ys (TOKEN c) p (header_field_char c p)"
  using assms(1) unfolding name_prefixes_list
  by (simp only: list.set insert_iff empty_iff simp_thms, elim disjE)
    (use assms in \<open>simp_all add: name_state_def header_field_char_def match_field_def next_index_def name_step_def reads_name_def
      core_def Let_def\<close>)

lemma name_prefixes_iff: "ys \<in> set name_prefixes \<longleftrightarrow> (\<exists>w \<in> set name_words. \<exists>i < length w. ys = take (Suc i) w)"
  unfolding name_prefixes_def by (force simp: image_iff)

lemma name_prefixes_closed: "ys @ [d] \<in> set name_prefixes \<Longrightarrow> ys \<noteq> [] \<Longrightarrow> ys \<in> set name_prefixes"
proof -
  assume "ys @ [d] \<in> set name_prefixes" "ys \<noteq> []"
  then obtain w i where w: "w \<in> set name_words" "i < length w" "ys @ [d] = take (Suc i) w"
    by (auto simp: name_prefixes_iff)
  then have "ys = take i w" by (simp add: take_Suc_conv_app_nth)
  moreover have "i \<noteq> 0" using \<open>ys = take i w\<close> \<open>ys \<noteq> []\<close> by auto
  ultimately show ?thesis using w(1,2) by (auto simp: name_prefixes_iff intro!: bexI[of _ w] exI[of _ "i - 1"])
qed

lemma name_prefix_mem:
  assumes "ys = take (length ys) w" "ys \<noteq> []" "w \<in> set name_words"
  shows "ys \<in> set name_prefixes"
proof -
  have "length ys \<le> length w" using assms(1) by (metis length_take min.cobounded1)
  then have "length ys - 1 < length w" "ys = take (Suc (length ys - 1)) w"
    using assms(1,2) by (cases ys; simp)+
  then show ?thesis using assms(3) unfolding name_prefixes_iff by blast
qed

lemma name_state_general:
  assumes "ys \<notin> set name_prefixes" "ys \<noteq> []"
  shows "name_state ys = h_general"
proof -
  have "ys \<noteq> take (length ys) w" if "w \<in> set name_words" for w
    using name_prefix_mem assms that by blast
  then have "ys \<noteq> take (length ys) ''connection''" "ys \<noteq> take (length ys) ''content-length''"
    "ys \<noteq> take (length ys) ''proxy-connection''" "ys \<noteq> take (length ys) ''transfer-encoding''"
    "ys \<noteq> take (length ys) ''upgrade''"
    by (simp_all only: name_words_def list.set insert_iff simp_thms)
  moreover have "ys \<noteq> ''c''" "ys \<noteq> ''co''" "ys \<noteq> ''con''" "ys \<noteq> ''connection''" "ys \<noteq> ''proxy-connection''"
    "ys \<noteq> ''content-length''" "ys \<noteq> ''transfer-encoding''" "ys \<noteq> ''upgrade''"
    using assms(1) unfolding name_prefixes_list
    by (simp_all only: list.set insert_iff empty_iff de_Morgan_disj simp_thms)
  ultimately show ?thesis by (simp only: name_state_def if_False simp_thms)
qed

lemma header_field_char_reads:
  assumes "reads_name ys p" "ys \<noteq> []" "c \<noteq> CHR '' ''"
  shows "name_step ys (TOKEN c) p (header_field_char c p)"
proof (cases "ys \<in> set name_prefixes")
  case True
  then have "name_state ys \<noteq> h_general"
    unfolding name_prefixes_list
    by (simp only: list.set insert_iff empty_iff simp_thms, elim disjE) (simp_all add: name_state_def)
  then show ?thesis using name_prefixes_step[OF True _ _ assms(3)] assms(1) by (simp add: reads_name_def)
next
  case False
  then have "ys @ [TOKEN c] \<notin> set name_prefixes" using name_prefixes_closed assms(2) by blast
  then have "name_state (ys @ [TOKEN c]) = h_general" by (rule name_state_general) simp
  moreover have "ys @ [TOKEN c] \<noteq> ''transfer-encoding''"
    using \<open>ys @ [TOKEN c] \<notin> set name_prefixes\<close> unfolding name_prefixes_list by auto
  ultimately show ?thesis
    using name_state_general[OF False assms(2)] assms(1)
    by (auto simp: name_step_def reads_name_def header_field_char_def)
qed

lemma strict_token: "STRICT_TOKEN c \<noteq> NUL \<longleftrightarrow> TOKEN c \<noteq> NUL \<and> c \<noteq> CHR '' ''"
  by (simp add: STRICT_TOKEN_def)

text \<open>The whole name.\<close>

lemma walks_name_rest:
  assumes "pstate p = s_header_field" "reads_name ys p" "ys \<noteq> []" "list_all (\<lambda>c. STRICT_TOKEN c \<noteq> NUL) n"
    and "nread p + length n \<le> max_header_size" "\<not> strict_prefix ''transfer-encoding'' (ys @ map TOKEN n)"
  shows "\<exists>q. walks p n q \<and> pstate q = s_header_field \<and> reads_name (ys @ map TOKEN n) q \<and> nread q = nread p + length n \<and>
    core q = (if n \<noteq> [] \<and> ys @ map TOKEN n = ''transfer-encoding'' then (core p)\<lparr>flag_transfer_encoding := True\<rparr> else core p)"
  using assms
proof (induction n arbitrary: p ys)
  case (Cons c n)
  have c: "TOKEN c \<noteq> NUL" "c \<noteq> CHR '' ''" using Cons.prems(4) by (simp_all add: strict_token)
  obtain q where q: "header_field_char c (counted p) = Some q" "name_step ys (TOKEN c) (counted p) (Some q)"
    using header_field_char_reads[of ys "counted p" c] Cons.prems(2,3) c(2)
    by (cases "header_field_char c (counted p)") (auto simp: name_step_def reads_name_def)
  have q2: "pstate q = s_header_field" "reads_name (ys @ [TOKEN c]) q" "nread q = Suc (nread p)"
    "core q = (if ys @ [TOKEN c] = ''transfer-encoding'' then (core p)\<lparr>flag_transfer_encoding := True\<rparr> else core p)"
    using q(2) Cons.prems(1) by (simp_all add: name_step_def)
  have small: "nread q \<le> max_header_size" using q2(3) Cons.prems(5) by simp
  then have "count_header 0 q = q" by (simp add: count_header_def max_header_size_def)
  then have "on_byte c [] (counted p) = Some (goes_on q)"
    using q(1) c Cons.prems(1) small
    by (simp add: on_byte_def on_header_field_def header_field_loop.simps overflowed_def)
  then have step: "walks p (c # n) r \<longleftrightarrow> walks q n r" for r
    using Cons.prems by (intro walks_header) (simp_all add: PARSING_HEADER_def)
  have "\<not> (ys @ [TOKEN c] = ''transfer-encoding'' \<and> n \<noteq> [])"
    using Cons.prems(6) by (auto simp: strict_prefix_def prefix_def)
  moreover have "\<not> strict_prefix ''transfer-encoding'' ((ys @ [TOKEN c]) @ map TOKEN n)"
    using Cons.prems(6) by simp
  ultimately show ?case
    using Cons.IH[of q "ys @ [TOKEN c]"] Cons.prems(4,5) q2 step by (cases "n = []") auto
qed auto

text \<open>A header takes effect with the first byte of the next line.\<close>

definition pending :: "http_parser \<Rightarrow> http_parser" where
  "pending p = (if pstate p = s_header_value_lws then finish_header p else p)"

definition at_line :: "http_parser \<Rightarrow> bool" where
  "at_line p \<longleftrightarrow> pstate p = s_header_field_start \<or> pstate p = s_header_value_lws"

lemma finish_header_counted [simp]: "finish_header (counted p) = counted (finish_header p)"
  by (cases "header_state p") (simp_all add: finish_header_def counted_def)

lemma pending_counted [simp]: "pending (counted p) = counted (pending p)"
  by (simp add: pending_def)

lemma pstate_same: "pstate p = s \<Longrightarrow> p\<lparr>pstate := s\<rparr> = p"
  by (cases p) simp

lemma header_state_same: "header_state p = h \<Longrightarrow> p\<lparr>header_state := h\<rparr> = p"
  by (cases p) simp

lemma on_line_start:
  assumes "at_line p" "c \<noteq> CHR '' ''" "c \<noteq> TAB"
  shows "on_byte c rest p = Some (on_header_field_start c ((pending p)\<lparr>pstate := s_header_field_start\<rparr>))"
  using assms(1) unfolding at_line_def
proof
  assume s: "pstate p = s_header_field_start"
  then show ?thesis by (simp add: on_byte_def pending_def pstate_same)
next
  assume s: "pstate p = s_header_value_lws"
  then show ?thesis using assms by (simp add: on_byte_def pending_def on_header_value_lws_def)
qed

lemma TOKEN_separators [simp]: "TOKEN CR = NUL" "TOKEN LF = NUL" "TOKEN TAB = NUL" "TOKEN (CHR '':'') = NUL"
  by (simp_all add: TOKEN_def is_upper_def is_lower_def is_digit_def) (simp_all add: byte_of_def)

lemma first_header_state_name: "first_header_state c = name_state [c]"
  by (simp add: first_header_state_def name_state_def)

lemma walks_name:
  assumes "at_line p" "n \<noteq> []" "list_all (\<lambda>c. STRICT_TOKEN c \<noteq> NUL) n" "nread p + length n \<le> max_header_size"
    and "\<not> strict_prefix ''transfer-encoding'' (map TOKEN n)"
  shows "\<exists>q. walks p n q \<and> pstate q = s_header_field \<and> reads_name (map TOKEN n) q \<and> nread q = nread p + length n \<and>
    core q = (if map TOKEN n = ''transfer-encoding'' then (core (pending p))\<lparr>flag_transfer_encoding := True\<rparr> else core (pending p))"
proof -
  obtain c m where n: "n = c # m" using assms(2) by (cases n) auto
  have c: "TOKEN c \<noteq> NUL" "c \<noteq> CHR '' ''" "c \<noteq> CR" "c \<noteq> LF" "c \<noteq> TAB"
    using assms(3) n by (auto simp: strict_token)
  let ?q = "(counted (pending p))\<lparr>pstate := s_header_field_start, p_index := 0, pstate := s_header_field,
    header_state := first_header_state (TOKEN c)\<rparr>"
  have "on_byte c [] (counted p) = Some (goes_on ?q)"
    using c assms(1) on_line_start[of "counted p" c] by (simp add: at_line_def on_header_field_start_def)
  then have step: "walks p (c # m) r \<longleftrightarrow> walks ?q m r" for r
    using assms(1,4) n by (intro walks_header) (auto simp: PARSING_HEADER_def at_line_def)
  have nr: "nread (pending p) = nread p" by (simp add: pending_def)
  have "reads_name [TOKEN c] ?q" by (simp add: reads_name_def first_header_state_name)
  then have "\<exists>q. walks ?q m q \<and> pstate q = s_header_field \<and> reads_name ([TOKEN c] @ map TOKEN m) q \<and> nread q = nread ?q + length m \<and>
    core q = (if m \<noteq> [] \<and> [TOKEN c] @ map TOKEN m = ''transfer-encoding'' then (core ?q)\<lparr>flag_transfer_encoding := True\<rparr> else core ?q)"
    using assms(3-5) n nr by (intro walks_name_rest) simp_all
  then show ?thesis using n nr step by auto
qed

lemma walks_colon:
  assumes "pstate p = s_header_field" "nread p + 2 \<le> max_header_size"
  shows "walks p '': '' (p\<lparr>pstate := s_header_value_discard_ws, nread := nread p + 2\<rparr>)"
proof -
  have "count_header 0 (counted p) = counted p"
    using assms(2) by (simp add: count_header_def max_header_size_def counted_def)
  then show ?thesis
    using assms by (simp add: walks_def header_byte PARSING_HEADER_def on_byte_def on_header_field_def header_field_loop.simps
        overflowed_def on_header_value_discard_ws_def counted_def Let_def)
qed

section \<open>Values\<close>

lemma walks_value_byte:
  assumes "header_value_char c (header_state p) (counted p) = Some (Inr (q, h))" "nread q = Suc (nread p)" "value_byte c"
    and "pstate p = s_header_value" "nread p < max_header_size"
  shows "walks p (c # s) r \<longleftrightarrow> walks (q\<lparr>header_state := h\<rparr>) s r"
proof (rule walks_header)
  have "header_value_loop (counted p) (header_state p) [c] = value_cons c (header_state p) (counted p) []"
    using assms(3) by (intro value_loop_Cons) (simp_all add: value_byte_def max_header_size_def)
  moreover have "count_header 0 q = q"
    using assms(2,5) by (simp add: count_header_def max_header_size_def)
  ultimately show "on_byte c [] (counted p) = Some (goes_on (q\<lparr>header_state := h\<rparr>))"
    using assms by (simp add: on_byte_def on_header_value_def value_cons_def header_value_loop.simps(1) overflowed_def Let_def)
qed (use assms in \<open>simp_all add: PARSING_HEADER_def\<close>)

lemma walks_value_end:
  assumes "pstate p = s_header_value" "nread p + 2 \<le> max_header_size"
  shows "walks p CRLF (p\<lparr>pstate := s_header_value_lws, nread := nread p + 2\<rparr>)"
proof -
  have "count_header 0 ((counted p)\<lparr>pstate := s_header_almost_done\<rparr>) = (counted p)\<lparr>pstate := s_header_almost_done\<rparr>"
    using assms(2) by (simp add: count_header_def max_header_size_def counted_def)
  then show ?thesis
    using assms by (simp add: CRLF_def walks_def header_byte PARSING_HEADER_def on_byte_def on_header_value_def value_loop_end
        overflowed_def on_header_almost_done_def counted_def Let_def)
qed

text \<open>A value of no interest.\<close>

lemma walks_general:
  assumes "pstate p = s_header_value" "header_state p = h_general" "list_all value_byte v" "nread p + length v \<le> max_header_size"
  shows "walks p v (p\<lparr>nread := nread p + length v\<rparr>)"
  using assms
proof (induction v arbitrary: p)
  case (Cons c v)
  have "walks p (c # v) r \<longleftrightarrow> walks ((counted p)\<lparr>header_state := h_general\<rparr>) v r" for r
    using Cons.prems by (intro walks_value_byte) (simp_all add: header_value_char_def)
  moreover have "(counted p)\<lparr>header_state := h_general\<rparr> = counted p"
    using Cons.prems(2) by (intro header_state_same) simp
  ultimately have "walks p (c # v) r \<longleftrightarrow> walks (counted p) v r" for r by simp
  then show ?case
    using Cons.IH[of "counted p"] Cons.prems by (simp add: counted_def)
qed simp

text \<open>The end of a word of interest.\<close>

lemma walks_match:
  assumes "\<And>c q. header_value_char c h q = Some (Inr (match_value w h found other (lower_char c) q))"
    and "pstate p = s_header_value" "header_state p = h" "map lower_char v = drop (Suc (p_index p)) w" "v \<noteq> []"
    and "length w < 32" "list_all value_byte v" "nread p + length v \<le> max_header_size"
  shows "\<exists>q. walks p v q \<and> pstate q = s_header_value \<and> header_state q = found \<and> core q = core p \<and> nread q = nread p + length v"
  using assms(2-)
proof (induction v arbitrary: p)
  case (Cons c v)
  let ?i = "Suc (p_index p)"
  have len: "length (map lower_char (c # v)) = length w - ?i" using Cons.prems(3) by simp
  then have i: "?i < length w" by simp
  then have "drop ?i w = w ! ?i # drop (Suc ?i) w" by (rule Cons_nth_drop_Suc[symmetric])
  then have c: "lower_char c = w ! ?i" "map lower_char v = drop (Suc ?i) w" using Cons.prems(3) by simp_all
  have next_i: "next_index (counted p) = (counted p)\<lparr>p_index := ?i\<rparr>"
    using i Cons.prems(5) by (simp add: next_index_def)
  let ?h = "if v = [] then found else h" and ?q = "(counted p)\<lparr>p_index := ?i\<rparr>"
  have last: "v = [] \<longleftrightarrow> ?i = length w - 1" using len i by (cases v) auto
  have "header_value_char c (header_state p) (counted p) = Some (Inr (?q, ?h))"
    using i last Cons.prems(2) unfolding Cons.prems(2) assms(1) match_value_def next_i
    by (simp add: c(1) nth_append Let_def)
  then have "walks p (c # v) r \<longleftrightarrow> walks (?q\<lparr>header_state := ?h\<rparr>) v r" for r
    using Cons.prems by (intro walks_value_byte) simp_all
  then show ?case
    using Cons.IH[of "?q\<lparr>header_state := ?h\<rparr>"] Cons.prems c(2) by (cases "v = []") auto
qed simp

lemma foldl_digits_le: "a \<le> foldl (\<lambda>a d. a * b + d) a ds" if "0 < b" for a b :: nat
proof (induction ds arbitrary: a)
  case (Cons d ds)
  have "a \<le> a * b + d" using that by (simp add: trans_le_add1)
  then show ?case using Cons.IH[of "a * b + d"] by simp
qed simp

lemma digit_value_byte: "d < 10 \<Longrightarrow> value_byte (digit_char d)"
  using byte_of_digit_char[of d] digit_facts[of d] by (simp add: value_byte_def IS_HEADER_CHAR_def)

text \<open>A length.\<close>

lemma walks_digits:
  assumes "pstate p = s_header_value" "header_state p = h_content_length_num" "\<forall>d \<in> set ds. d < 10"
    and "foldl (\<lambda>a d. a * 10 + d) (content_length p) ds < 2 ^ 60" "nread p + length ds \<le> max_header_size"
  shows "walks p (map digit_char ds)
    (p\<lparr>content_length := foldl (\<lambda>a d. a * 10 + d) (content_length p) ds, nread := nread p + length ds\<rparr>)"
  using assms
proof (induction ds arbitrary: p)
  case (Cons d ds)
  let ?q = "(counted p)\<lparr>content_length := content_length p * 10 + d\<rparr>"
  have "content_length p * 10 + d < 2 ^ 60"
    using foldl_digits_le[of 10 "content_length p * 10 + d" ds] Cons.prems(4) by simp
  then have "length_digit (digit_char d) (counted p) = Inr (?q, h_content_length_num)"
    using Cons.prems(3) by (simp add: length_digit_def digit_facts ULLONG_MAX_def)
  then have "header_value_char (digit_char d) (header_state p) (counted p) = Some (Inr (?q, h_content_length_num))"
    using Cons.prems(2) by (simp add: header_value_char_def)
  then have "walks p (digit_char d # s) r \<longleftrightarrow> walks (?q\<lparr>header_state := h_content_length_num\<rparr>) s r" for s r
    using Cons.prems by (intro walks_value_byte) (simp_all add: digit_value_byte)
  moreover have "?q\<lparr>header_state := h_content_length_num\<rparr> = ?q"
    using Cons.prems(2) by (intro header_state_same) simp
  ultimately have "walks p (digit_char d # s) r \<longleftrightarrow> walks ?q s r" for s r by simp
  then show ?case
    using Cons.IH[of ?q] Cons.prems by (simp add: counted_def)
qed simp

lemma core_flags:
  "core (p\<lparr>flag_close := b\<rparr>) = (core p)\<lparr>flag_close := b\<rparr>"
  "core (p\<lparr>flag_keep_alive := b\<rparr>) = (core p)\<lparr>flag_keep_alive := b\<rparr>"
  "core (p\<lparr>flag_chunked := b\<rparr>) = (core p)\<lparr>flag_chunked := b\<rparr>"
  "core (p\<lparr>flag_content_length := b\<rparr>) = (core p)\<lparr>flag_content_length := b\<rparr>"
  "core (p\<lparr>content_length := n\<rparr>) = (core p)\<lparr>content_length := n\<rparr>"
  "core (p\<lparr>flag_trailing := b\<rparr>) = (core p)\<lparr>flag_trailing := b\<rparr>"
  by (simp_all add: core_def)

text \<open>What the value adds to what the name has said.\<close>

definition value_effect :: "string \<times> string \<Rightarrow> http_parser \<Rightarrow> http_parser" where
  "value_effect h p =
     (if about_connection h then if says ''close'' h then p\<lparr>flag_close := True\<rparr> else p\<lparr>flag_keep_alive := True\<rparr>
      else if named ''content-length'' h then p\<lparr>flag_content_length := True, content_length := read_digits 10 (snd h)\<rparr>
      else if named ''transfer-encoding'' h then p\<lparr>flag_chunked := True\<rparr>
      else p)"

definition value_read :: "http_parser \<Rightarrow> string \<times> string \<Rightarrow> http_parser \<Rightarrow> bool" where
  "value_read p h q \<longleftrightarrow> walks p (snd h) q \<and> pstate q = s_header_value \<and> nread q = nread p + length (snd h) \<and>
     core (finish_header q) = value_effect h (core p)"

lemma walks_value_start:
  assumes "on_header_value_start c (counted p) = goes_on q" "pstate p = s_header_value_discard_ws" "value_byte c"
    and "c \<noteq> CHR '' ''" "c \<noteq> TAB" "nread p < max_header_size"
  shows "walks p (c # s) r \<longleftrightarrow> walks q s r"
  using assms by (intro walks_header) (simp_all add: on_byte_def on_header_value_discard_ws_def value_byte_def PARSING_HEADER_def)

text \<open>A word of interest: its first letter, its others.\<close>

lemma value_read_word:
  assumes "\<And>c q. header_value_char c m q = Some (Inr (match_value w m found other (lower_char c) q))"
    and "\<And>c. lower_char c = hd w \<Longrightarrow>
      on_header_value_start c (counted p) = goes_on ((counted p)\<lparr>pstate := s_header_value, p_index := 0, header_state := m\<rparr>)"
    and "pstate p = s_header_value_discard_ws" "header_ok h" "says w h" "nread p + length (snd h) \<le> max_header_size"
    and "2 \<le> length w" "length w < 32"
    and "\<And>q. header_state q = found \<Longrightarrow> core (finish_header q) = value_effect h (core q)"
  shows "\<exists>q. value_read p h q"
proof -
  obtain c v where v: "snd h = c # v" "value_byte c" "list_all value_byte v" "c \<noteq> CHR '' ''" "c \<noteq> TAB"
    using assms(4) by (cases "snd h") (auto simp: header_ok_def)
  have w: "lower_char c = hd w" "map lower_char v = drop (Suc 0) w"
    using assms(5,7) v(1) by (cases w; auto simp: says_def)+
  let ?q = "(counted p)\<lparr>pstate := s_header_value, p_index := 0, header_state := m\<rparr>"
  have start: "walks p (c # v) r \<longleftrightarrow> walks ?q v r" for r
    using assms(3,6) v assms(2)[OF w(1)] by (intro walks_value_start) simp_all
  have "length v = length w - 1" using arg_cong[OF w(2), of length] by simp
  then have "v \<noteq> []" using assms(7) by auto
  then have "\<exists>r. walks ?q v r \<and> pstate r = s_header_value \<and> header_state r = found \<and> core r = core ?q \<and> nread r = nread ?q + length v"
    using assms(6,8) v w(2) by (intro walks_match[OF assms(1)]) simp_all
  then show ?thesis
    unfolding value_read_def v(1) start using assms(9) by auto
qed

lemma value_read_connection:
  assumes "pstate p = s_header_value_discard_ws" "header_ok h" "about_connection h" "header_state p = h_connection"
    and "nread p + length (snd h) \<le> max_header_size"
  shows "\<exists>q. value_read p h q"
proof (cases "says ''close'' h")
  case True
  show ?thesis
    by (rule value_read_word[where m = h_matching_connection_close and w = "''close''" and found = h_connection_close
          and other = h_matching_connection_token])
      (use assms True in \<open>simp_all add: header_value_char_def on_header_value_start_def value_effect_def finish_header_def core_flags Let_def\<close>)
next
  case False
  then have "says ''keep-alive'' h" using assms(2,3) by (simp add: header_ok_def)
  then show ?thesis
    by (intro value_read_word[where m = h_matching_connection_keep_alive and w = "''keep-alive''" and
          found = h_connection_keep_alive and other = h_matching_connection_token])
      (use assms False in \<open>simp_all add: header_value_char_def on_header_value_start_def value_effect_def finish_header_def core_flags Let_def\<close>)
qed

lemma value_read_chunked:
  assumes "pstate p = s_header_value_discard_ws" "header_ok h" "named ''transfer-encoding'' h" "header_state p = h_transfer_encoding"
    and "nread p + length (snd h) \<le> max_header_size"
  shows "\<exists>q. value_read p h q"
proof -
  have "says ''chunked'' h" "\<not> about_connection h" "\<not> named ''content-length'' h"
    using assms(2,3) by (auto simp: header_ok_def about_connection_def named_def)
  then show ?thesis
    by (intro value_read_word[where m = h_matching_transfer_encoding_chunked and w = "''chunked''" and
          found = h_transfer_encoding_chunked and other = h_matching_transfer_encoding_token])
      (use assms in \<open>simp_all add: header_value_char_def on_header_value_start_def value_effect_def finish_header_def core_flags Let_def\<close>)
qed

lemma value_read_length:
  assumes "pstate p = s_header_value_discard_ws" "named ''content-length'' h" "header_state p = h_content_length"
    and "snd h = show_nat k" "k < 2 ^ 60" "\<not> flag_content_length p" "nread p + length (snd h) \<le> max_header_size"
  shows "\<exists>q. value_read p h q"
proof -
  obtain d ds where ds: "digits_of 10 k = d # ds" by (cases "digits_of 10 k") auto
  have small: "d < 10" "\<forall>x \<in> set ds. x < 10" using digits_of_bound[of 10 _ k] ds by auto
  have val: "foldl (\<lambda>a d. a * 10 + d) d ds = k" using digits_val_of[of 10 k] ds by (simp add: digits_val_def)
  have tx: "snd h = digit_char d # map digit_char ds" using assms(4) ds by (simp add: show_nat_def)
  let ?q = "(counted p)\<lparr>pstate := s_header_value, p_index := 0, flag_content_length := True, content_length := d,
    header_state := h_content_length_num\<rparr>"
  have room: "Suc (nread p) + length ds \<le> max_header_size" using assms(7) tx by simp
  have "walks p (digit_char d # s) r \<longleftrightarrow> walks ?q s r" for s r
    using assms(1-3,6) small(1) room
    by (intro walks_value_start) (simp_all add: on_header_value_start_def digit_facts digit_value_byte Let_def)
  moreover have "walks ?q (map digit_char ds) (?q\<lparr>content_length := foldl (\<lambda>a d. a * 10 + d) (content_length ?q) ds,
      nread := nread ?q + length ds\<rparr>)"
    using assms(5) small(2) val room by (intro walks_digits) simp_all
  ultimately have "walks p (snd h) (?q\<lparr>content_length := k, nread := nread ?q + length ds\<rparr>)"
    using val tx by simp
  moreover have "\<not> about_connection h" using assms(2) by (auto simp: about_connection_def named_def)
  moreover have "length (snd h) = Suc (length ds)" using tx by simp
  ultimately show ?thesis
    using assms(2,4)
    by (intro exI[of _ "?q\<lparr>content_length := k, nread := nread ?q + length ds\<rparr>"])
      (simp add: value_read_def value_effect_def finish_header_def core_flags read_show_nat)
qed

lemma name_state_of:
  "ys = ''connection'' \<or> ys = ''proxy-connection'' \<Longrightarrow> name_state ys = h_connection"
  "name_state ''content-length'' = h_content_length" "name_state ''transfer-encoding'' = h_transfer_encoding"
  by (auto simp: name_state_def)

lemma name_state_other:
  assumes "ys \<noteq> ''connection''" "ys \<noteq> ''proxy-connection''" "ys \<noteq> ''content-length''" "ys \<noteq> ''transfer-encoding''"
    and "ys \<noteq> ''upgrade''"
  shows "name_state ys \<in> field_states - {h_connection, h_content_length, h_transfer_encoding, h_upgrade}"
  using assms by (simp only: name_state_def if_False simp_thms) (simp add: field_states_def)

lemma value_read_plain:
  assumes "pstate p = s_header_value_discard_ws" "header_ok h" "\<not> about_connection h" "\<not> named ''content-length'' h"
    and "\<not> named ''transfer-encoding'' h" "header_state p \<in> field_states - {h_connection, h_content_length, h_transfer_encoding, h_upgrade}"
    and "nread p + length (snd h) \<le> max_header_size"
  shows "\<exists>q. value_read p h q"
proof -
  obtain c v where v: "snd h = c # v" "value_byte c" "list_all value_byte v" "c \<noteq> CHR '' ''" "c \<noteq> TAB"
    using assms(2) by (cases "snd h") (auto simp: header_ok_def)
  let ?q = "(counted p)\<lparr>pstate := s_header_value, p_index := 0, header_state := h_general\<rparr>"
  have "on_header_value_start c (counted p) = goes_on ?q"
    using assms(6) by (cases "header_state p") (simp_all add: on_header_value_start_def field_states_def Let_def)
  then have "walks p (c # s) r \<longleftrightarrow> walks ?q s r" for s r
    using assms(1,7) v by (intro walks_value_start) simp_all
  moreover have "walks ?q v (?q\<lparr>nread := nread ?q + length v\<rparr>)"
    using assms(7) v by (intro walks_general) simp_all
  ultimately have "walks p (snd h) (?q\<lparr>nread := nread ?q + length v\<rparr>)" using v(1) by simp
  then show ?thesis
    using assms(3-5) v(1)
    by (intro exI[of _ "?q\<lparr>nread := nread ?q + length v\<rparr>"]) (simp add: value_read_def value_effect_def finish_header_def)
qed

text \<open>Every value.\<close>

definition length_ok :: "http_parser \<Rightarrow> string \<times> string \<Rightarrow> bool" where
  "length_ok p h \<longleftrightarrow> (named ''content-length'' h \<longrightarrow> \<not> flag_content_length p \<and> (\<exists>k < 2 ^ 60. snd h = show_nat k))"

lemma value_read_any:
  assumes "pstate p = s_header_value_discard_ws" "header_ok h" "header_state p = name_state (map TOKEN (fst h))"
    and "length_ok p h" "nread p + length (snd h) \<le> max_header_size"
  shows "\<exists>q. value_read p h q"
proof -
  consider "about_connection h" | "named ''content-length'' h" | "named ''transfer-encoding'' h"
    | "\<not> about_connection h" "\<not> named ''content-length'' h" "\<not> named ''transfer-encoding'' h"
    by blast
  then show ?thesis
  proof cases
    case 1
    then have "header_state p = h_connection"
      unfolding assms(3) by (intro name_state_of) (simp add: about_connection_def named_def)
    then show ?thesis using value_read_connection assms 1 by blast
  next
    case 2
    then have "header_state p = h_content_length" using assms(3) name_state_of(2) by (simp add: named_def)
    moreover obtain k where "snd h = show_nat k" "k < 2 ^ 60" "\<not> flag_content_length p"
      using assms(4) 2 by (auto simp: length_ok_def)
    ultimately show ?thesis using assms(1,5) 2 by (intro value_read_length)
  next
    case 3
    then have "header_state p = h_transfer_encoding" using assms(3) name_state_of(3) by (simp add: named_def)
    then show ?thesis using value_read_chunked assms 3 by blast
  next
    case 4
    have "header_state p \<in> field_states - {h_connection, h_content_length, h_transfer_encoding, h_upgrade}"
      unfolding assms(3) using 4 assms(2)
      by (intro name_state_other) (auto simp: about_connection_def named_def header_ok_def)
    then show ?thesis using value_read_plain assms 4 by blast
  qed
qed

section \<open>The headers\<close>

lemma finish_header_moved [simp]:
  "finish_header (p\<lparr>pstate := s\<rparr>) = (finish_header p)\<lparr>pstate := s\<rparr>"
  "finish_header (p\<lparr>nread := n\<rparr>) = (finish_header p)\<lparr>nread := n\<rparr>"
  by (cases "header_state p"; simp add: finish_header_def)+

lemma value_effect_apply:
  "value_effect h (if map TOKEN (fst h) = ''transfer-encoding'' then p\<lparr>flag_transfer_encoding := True\<rparr> else p) = apply_header h p"
  by (auto simp: value_effect_def apply_header_def about_connection_def named_def)

lemma flag_content_length_core: "flag_content_length p = flag_content_length (core p)"
  by (simp add: core_def)

lemma header_read:
  assumes "at_line p" "header_ok h" "length_ok (pending p) h" "nread p + length (header_line h) \<le> max_header_size"
  shows "\<exists>q. walks p (header_line h) q \<and> pstate q = s_header_value_lws \<and> nread q = nread p + length (header_line h) \<and>
    core (pending q) = apply_header h (core (pending p))"
proof -
  have len: "length (header_line h) = length (fst h) + 2 + length (snd h) + 2" by (simp add: header_line_def CRLF_def)
  have "\<exists>q. walks p (fst h) q \<and> pstate q = s_header_field \<and> reads_name (map TOKEN (fst h)) q \<and> nread q = nread p + length (fst h) \<and>
    core q = (if map TOKEN (fst h) = ''transfer-encoding'' then (core (pending p))\<lparr>flag_transfer_encoding := True\<rparr>
      else core (pending p))"
    using assms(1,2,4) len by (intro walks_name) (simp_all add: header_ok_def)
  then obtain q1 where q1: "walks p (fst h) q1" "pstate q1 = s_header_field" "reads_name (map TOKEN (fst h)) q1"
      "nread q1 = nread p + length (fst h)"
      "core q1 = (if map TOKEN (fst h) = ''transfer-encoding'' then (core (pending p))\<lparr>flag_transfer_encoding := True\<rparr>
        else core (pending p))"
    by blast
  let ?q2 = "q1\<lparr>pstate := s_header_value_discard_ws, nread := nread q1 + 2\<rparr>"
  have q2: "walks q1 '': '' ?q2" using q1(2,4) assms(4) len by (intro walks_colon) simp_all
  have "flag_content_length ?q2 = flag_content_length (pending p)"
    unfolding flag_content_length_core[of ?q2] flag_content_length_core[of "pending p"] using q1(5) by simp
  then have "\<exists>q. value_read ?q2 h q"
    using q1 assms(2-4) len by (intro value_read_any) (simp_all add: reads_name_def length_ok_def)
  then obtain q3 where q3: "walks ?q2 (snd h) q3" "pstate q3 = s_header_value" "nread q3 = nread ?q2 + length (snd h)"
      "core (finish_header q3) = value_effect h (core ?q2)"
    by (auto simp: value_read_def)
  let ?q4 = "q3\<lparr>pstate := s_header_value_lws, nread := nread q3 + 2\<rparr>"
  have q4: "walks q3 CRLF ?q4" using q1(4) q3(2,3) assms(4) len by (intro walks_value_end) simp_all
  have "walks p (header_line h) ?q4"
    unfolding header_line_def by (rule walks_append[OF q1(1) walks_append[OF q2 walks_append[OF q3(1) q4]]])
  moreover have "core (pending ?q4) = apply_header h (core (pending p))"
    using q3(4) q1(5) value_effect_apply[of h "core (pending p)"] by (simp add: pending_def)
  moreover have "nread ?q4 = nread p + length (header_line h)" using q1(4) q3(3) len by simp
  ultimately show ?thesis by (intro exI[of _ ?q4]) simp
qed

definition lengths_ok :: "bool \<Rightarrow> (string \<times> string) list \<Rightarrow> bool" where
  "lengths_ok seen hs \<longleftrightarrow>
     list_all (\<lambda>h. named ''content-length'' h \<longrightarrow> (\<exists>k < 2 ^ 60. snd h = show_nat k)) hs \<and>
     length (filter (named ''content-length'') hs) \<le> (if seen then 0 else 1)"

lemma apply_header_length: "flag_content_length (apply_header h p) = (flag_content_length p \<or> named ''content-length'' h \<and> \<not> about_connection h)"
  by (simp add: apply_header_def)

lemma headers_read:
  assumes "at_line p" "list_all header_ok hs" "lengths_ok (flag_content_length (core (pending p))) hs"
    and "nread p + length (concat (map header_line hs)) \<le> max_header_size"
  shows "\<exists>q. walks p (concat (map header_line hs)) q \<and> at_line q \<and> nread q = nread p + length (concat (map header_line hs)) \<and>
    core (pending q) = fold apply_header hs (core (pending p))"
  using assms
proof (induction hs arbitrary: p)
  case (Cons h hs)
  have "length_ok (pending p) h"
    using Cons.prems(3) by (auto simp: lengths_ok_def length_ok_def flag_content_length_core[of "pending p"] split: if_splits)
  then obtain q where q: "walks p (header_line h) q" "pstate q = s_header_value_lws" "nread q = nread p + length (header_line h)"
      "core (pending q) = apply_header h (core (pending p))"
    using header_read[of p h] Cons.prems by auto
  have "lengths_ok (flag_content_length (core (pending q))) hs"
    using Cons.prems(3) unfolding q(4) apply_header_length
    by (auto simp: lengths_ok_def about_connection_def named_def split: if_splits)
  then obtain r where r: "walks q (concat (map header_line hs)) r" "at_line r"
      "nread r = nread q + length (concat (map header_line hs))" "core (pending r) = fold apply_header hs (core (pending q))"
    using Cons.IH[of q] Cons.prems q by (auto simp: at_line_def)
  have "walks p (concat (map header_line (h # hs))) r" using walks_append[OF q(1) r(1)] by simp
  then show ?case using q r by (intro exI[of _ r]) simp
qed simp

section \<open>The end of the headers\<close>

text \<open>A message is complete at the last byte of a text, and not before.\<close>

definition finishes :: "http_parser \<Rightarrow> string \<Rightarrow> http_parser \<Rightarrow> bool" where
  "finishes p s q \<longleftrightarrow> s \<noteq> [] \<and> feed p s = Some (q, True) \<and> (\<exists>q0. walks p (butlast s) q0)"

lemma walks_finishes: "walks p s q \<Longrightarrow> finishes q t r \<Longrightarrow> finishes p (s @ t) r"
  by (auto simp: finishes_def butlast_append feed_append walks_def)

lemma finishes_last:
  assumes "walks p s q" "iteration c [] q = Some (Goes_on r 0 True)"
  shows "finishes p (s @ [c]) r"
  using assms by (auto simp: finishes_def feed_append walks_def)

lemma iteration_header:
  assumes "PARSING_HEADER (pstate p)" "nread p < max_header_size" "on_byte c [] (counted p) = Some s"
  shows "iteration c [] p = Some s"
  using assms by (simp add: header_byte)

text \<open>What is left of the headers when they are complete.\<close>

definition body_parser :: "http_parser \<Rightarrow> parser_state \<Rightarrow> http_parser \<Rightarrow> bool" where
  "body_parser h s q \<longleftrightarrow> core q = h \<and> pstate q = s \<and> nread q = 0"

lemma core_fields:
  "flag_chunked (core p) = flag_chunked p" "flag_trailing (core p) = flag_trailing p" "flag_upgrade (core p) = flag_upgrade p"
  "flag_skipbody (core p) = flag_skipbody p" "flag_content_length (core p) = flag_content_length p"
  "flag_transfer_encoding (core p) = flag_transfer_encoding p" "content_length (core p) = content_length p"
  "status_code (core p) = status_code p" "p_upgrade (core p) = p_upgrade p"
  "flag_connection_upgrade (core p) = flag_connection_upgrade p" "http_errno (core p) = http_errno p"
  by (simp_all add: core_def)

lemma blank_line_start:
  assumes "at_line p" "nread p + 2 \<le> max_header_size"
  shows "\<exists>q. walks p [CR] q \<and> pstate q = s_headers_almost_done \<and> nread q = Suc (nread p) \<and> core q = core (pending p)"
proof -
  let ?q = "(counted (pending p))\<lparr>pstate := s_header_field_start, pstate := s_headers_almost_done\<rparr>"
  have "on_byte CR [] (counted p) = Some (goes_on ?q)"
    using assms on_line_start[of "counted p" CR] by (simp add: at_line_def on_header_field_start_def)
  then have "walks p [CR] ?q"
    using assms by (subst walks_header[of CR p ?q]) (auto simp: PARSING_HEADER_def at_line_def)
  moreover have "nread (pending p) = nread p" by (simp add: pending_def)
  ultimately show ?thesis by (intro exI[of _ ?q]) simp
qed

definition plain_head :: "http_parser \<Rightarrow> bool" where
  "plain_head h \<longleftrightarrow> \<not> flag_trailing h \<and> \<not> flag_upgrade h \<and> \<not> flag_skipbody h \<and> \<not> p_upgrade h \<and>
     \<not> (flag_transfer_encoding h \<and> flag_content_length h)"

text \<open>The headers have ended: what follows.\<close>

lemma headers_end:
  assumes "plain_head (core q)" "pstate q = s_headers_almost_done" "nread q < max_header_size"
  shows "iteration LF [] q = Some (on_headers_done ((counted q)\<lparr>pstate := s_headers_done, p_upgrade := False\<rparr>))"
  using assms by (intro iteration_header)
    (auto simp: PARSING_HEADER_def on_byte_def on_headers_almost_done_def plain_head_def core_def counted_def)

lemma headers_end_body:
  assumes "plain_head (core q)" "pstate q = s_headers_almost_done" "nread q < max_header_size"
  shows "flag_chunked q \<Longrightarrow> \<exists>r. iteration LF [] q = Some (goes_on r) \<and> body_parser (core q) s_chunk_size_start r"
    and "\<not> flag_chunked q \<Longrightarrow> \<not> flag_transfer_encoding q \<Longrightarrow> 0 < content_length q \<Longrightarrow> content_length q \<noteq> ULLONG_MAX \<Longrightarrow>
      \<exists>r. iteration LF [] q = Some (goes_on r) \<and> body_parser (core q) s_body_identity r"
    and "\<not> flag_chunked q \<Longrightarrow> \<not> flag_transfer_encoding q \<Longrightarrow>
      content_length q = 0 \<or> content_length q = ULLONG_MAX \<and> (status_code q div 100 = 1 \<or> status_code q = 204 \<or> status_code q = 304) \<Longrightarrow>
      \<exists>r. iteration LF [] q = Some (Goes_on r 0 True) \<and> body_parser (core q) s_start_res r"
  unfolding headers_end[OF assms] using assms(1)
  by (auto simp: on_headers_done_def counted_def plain_head_def core_def body_parser_def http_message_needs_eof_def ULLONG_MAX_def
      Let_def)

section \<open>Bodies\<close>

lemma identity_body:
  assumes "pstate p = s_body_identity" "content_length p = length b" "b \<noteq> []" "length b < ULLONG_MAX" "\<not> p_upgrade p"
  shows "finishes p b (p\<lparr>content_length := 0, pstate := s_start_res\<rparr>)"
  using assms
proof (induction b arbitrary: p)
  case (Cons c b)
  show ?case
  proof (cases "b = []")
    case True
    then have "iteration c [] p = Some (Goes_on (p\<lparr>content_length := 0, pstate := s_start_res\<rparr>) 0 True)"
      using Cons.prems by (simp add: iteration_def PARSING_HEADER_def on_byte_def on_body_identity_def on_message_done_def Let_def)
    then show ?thesis using finishes_last[of p "[]" p c] True by simp
  next
    case False
    let ?q = "p\<lparr>content_length := length b\<rparr>"
    have "iteration c [] p = Some (goes_on ?q)"
      using Cons.prems False
      by (simp add: iteration_def PARSING_HEADER_def on_byte_def on_body_identity_def Let_def)
    then have "walks p [c] ?q" by (simp add: walks_Cons)
    then show ?thesis
      using walks_finishes[of p "[c]" ?q b] Cons.IH[of ?q] Cons.prems False by simp
  qed
qed simp

section \<open>Chunks\<close>

lemma unhex_digit_char: "d < 16 \<Longrightarrow> unhex (digit_char d) = Some d"
  using byte_of_digit_char[of d] by (auto simp: unhex_def is_digit_def)

lemma hex_digit_facts:
  assumes "d < 16"
  shows "digit_char d \<noteq> CR"
proof
  assume "digit_char d = CR"
  then have "byte_of (digit_char d) = 13" by simp
  then show False using assms byte_of_digit_char[of d] by (simp split: if_splits)
qed

lemma hex_digits_length: "n < 16 ^ k \<Longrightarrow> 0 < k \<Longrightarrow> length (digits_of 16 n) \<le> k"
proof (induction "16::nat" n arbitrary: k rule: digits_of.induct)
  case (1 n)
  show ?case
  proof (cases "n < 16")
    case True
    then show ?thesis using 1(3) by (simp add: digits_of.simps[of 16 n])
  next
    case False
    then have "1 < k" using 1(2) by (cases "k = 1") (use 1(3) in auto)
    moreover from this have "n div 16 < 16 ^ (k - 1)"
      using 1(2) by (cases k) (simp_all add: less_mult_imp_div_less mult.commute)
    ultimately show ?thesis
      using 1(1)[of "k - 1"] False by (simp add: digits_of.simps[of 16 n])
  qed
qed

lemma walks_hex:
  assumes "pstate p = s_chunk_size" "flag_chunked p" "\<forall>d \<in> set ds. d < 16"
    and "foldl (\<lambda>a d. a * 16 + d) (content_length p) ds < 2 ^ 60" "nread p + length ds \<le> max_header_size"
  shows "walks p (map digit_char ds)
    (p\<lparr>content_length := foldl (\<lambda>a d. a * 16 + d) (content_length p) ds, nread := nread p + length ds\<rparr>)"
  using assms
proof (induction ds arbitrary: p)
  case (Cons d ds)
  let ?q = "(counted p)\<lparr>content_length := content_length p * 16 + d\<rparr>"
  have "content_length p * 16 + d < 2 ^ 60"
    using foldl_digits_le[of 16 "content_length p * 16 + d" ds] Cons.prems(4) by simp
  then have "on_byte (digit_char d) [] (counted p) = Some (goes_on ?q)"
    using Cons.prems by (simp add: on_byte_def on_chunk_size_def unhex_digit_char hex_digit_facts ULLONG_MAX_def counted_def)
  then have "walks p (digit_char d # s) r \<longleftrightarrow> walks ?q s r" for s r
    using Cons.prems by (intro walks_header) (simp_all add: PARSING_HEADER_def)
  then show ?case
    using Cons.IH[of ?q] Cons.prems by (simp add: counted_def)
qed simp

lemma walks_chunk_size:
  assumes "pstate p = s_chunk_size_start" "flag_chunked p" "nread p = 0" "n < 2 ^ 60"
  shows "\<exists>q. walks p (map digit_char (digits_of 16 n)) q \<and> pstate q = s_chunk_size \<and> core q = (core p)\<lparr>content_length := n\<rparr> \<and> nread q \<le> 15"
proof -
  obtain d ds where ds: "digits_of 16 n = d # ds" by (cases "digits_of 16 n") auto
  have small: "d < 16" "\<forall>x \<in> set ds. x < 16" using digits_of_bound[of 16 _ n] ds by auto
  have val: "foldl (\<lambda>a d. a * 16 + d) d ds = n" using digits_val_of[of 16 n] ds by (simp add: digits_val_def)
  have len: "Suc (length ds) \<le> 15" using hex_digits_length[of n 15] assms(4) ds by simp
  let ?q = "(counted p)\<lparr>content_length := d, pstate := s_chunk_size\<rparr>"
  have "on_byte (digit_char d) [] (counted p) = Some (goes_on ?q)"
    using assms small(1) by (simp add: on_byte_def on_chunk_size_start_def unhex_digit_char counted_def)
  then have step: "walks p (digit_char d # s) r \<longleftrightarrow> walks ?q s r" for s r
    using assms by (intro walks_header) (simp_all add: PARSING_HEADER_def max_header_size_def)
  let ?r = "?q\<lparr>content_length := foldl (\<lambda>a d. a * 16 + d) (content_length ?q) ds, nread := nread ?q + length ds\<rparr>"
  have "walks ?q (map digit_char ds) ?r"
    using assms small(2) val len by (intro walks_hex) (simp_all add: counted_def max_header_size_def)
  then show ?thesis
    using step ds len val assms(3) by (intro exI[of _ ?r]) (simp add: core_flags)
qed

lemma walks_chunk_size_end:
  assumes "pstate p = s_chunk_size" "flag_chunked p" "nread p \<le> 15"
  shows "walks p CRLF
    (if content_length p = 0 then p\<lparr>nread := 0, flag_trailing := True, pstate := s_header_field_start\<rparr>
     else p\<lparr>nread := 0, pstate := s_chunk_data\<rparr>)"
  using assms
  by (cases "content_length p = 0")
    (auto simp: CRLF_def walks_def header_byte PARSING_HEADER_def on_byte_def on_chunk_size_def on_chunk_size_almost_done_def
      counted_def max_header_size_def)

lemma walks_chunk_data:
  assumes "pstate p = s_chunk_data" "flag_chunked p" "content_length p = length b" "b \<noteq> []" "length b < ULLONG_MAX"
  shows "walks p b (p\<lparr>content_length := 0, pstate := s_chunk_data_almost_done\<rparr>)"
  using assms
proof (induction b arbitrary: p)
  case (Cons c b)
  show ?case
  proof (cases "b = []")
    case True
    then show ?thesis
      using Cons.prems by (simp add: walks_def iteration_def PARSING_HEADER_def on_byte_def on_chunk_data_def Let_def)
  next
    case False
    let ?q = "p\<lparr>content_length := length b\<rparr>"
    have "iteration c [] p = Some (goes_on ?q)"
      using Cons.prems False by (simp add: iteration_def PARSING_HEADER_def on_byte_def on_chunk_data_def Let_def)
    then show ?thesis
      using Cons.IH[of ?q] Cons.prems False by (simp add: walks_Cons)
  qed
qed simp

lemma walks_chunk_end:
  assumes "pstate p = s_chunk_data_almost_done" "flag_chunked p" "content_length p = 0" 
  shows "walks p CRLF (p\<lparr>nread := 0, pstate := s_chunk_size_start\<rparr>)"
  using assms
  by (simp add: CRLF_def walks_def iteration_def PARSING_HEADER_def on_byte_def on_chunk_data_almost_done_def on_chunk_data_done_def)

lemma walks_chunk:
  assumes "body_parser h s_chunk_size_start p" "flag_chunked h" "b \<noteq> []" "length b < 2 ^ 60"
  shows "\<exists>q. walks p (chunk_text b) q \<and> body_parser (h\<lparr>content_length := 0\<rparr>) s_chunk_size_start q"
proof -
  have p: "core p = h" "pstate p = s_chunk_size_start" "nread p = 0" "flag_chunked p"
    using assms(1,2) by (auto simp: body_parser_def core_def)
  obtain q where q: "walks p (map digit_char (digits_of 16 (length b))) q" "pstate q = s_chunk_size"
      "core q = h\<lparr>content_length := length b\<rparr>" "nread q \<le> 15"
    using walks_chunk_size[OF p(2,4,3) assms(4)] p(1) by auto
  have fields: "flag_chunked q" "content_length q = length b"
    using arg_cong[OF q(3), of flag_chunked] arg_cong[OF q(3), of content_length] assms(2) by (simp_all add: core_fields)
  let ?r = "q\<lparr>nread := 0, pstate := s_chunk_data\<rparr>"
  have r: "walks q CRLF ?r" using walks_chunk_size_end[OF q(2) fields(1) q(4)] fields(2) assms(3) by simp
  let ?s = "?r\<lparr>content_length := 0, pstate := s_chunk_data_almost_done\<rparr>"
  have s: "walks ?r b ?s"
    using fields assms(3,4) by (intro walks_chunk_data) (simp_all add: ULLONG_MAX_def)
  let ?t = "?s\<lparr>nread := 0, pstate := s_chunk_size_start\<rparr>"
  have t: "walks ?s CRLF ?t" using fields by (intro walks_chunk_end) simp_all
  have "walks p (chunk_text b) ?t"
    unfolding chunk_text_def by (rule walks_append[OF q(1) walks_append[OF r walks_append[OF s t]]])
  moreover have "body_parser (h\<lparr>content_length := 0\<rparr>) s_chunk_size_start ?t"
    using q(3) by (simp add: body_parser_def core_flags)
  ultimately show ?thesis by blast
qed

lemma walks_chunks:
  assumes "body_parser h s_chunk_size_start p" "flag_chunked h" "list_all (\<lambda>b. b \<noteq> [] \<and> length b < 2 ^ 60) bs"
  shows "\<exists>q n. walks p (concat (map chunk_text bs)) q \<and> body_parser (h\<lparr>content_length := n\<rparr>) s_chunk_size_start q"
  using assms
proof (induction bs arbitrary: p h)
  case Nil
  then show ?case by (intro exI[of _ p] exI[of _ "content_length h"]) simp
next
  case (Cons b bs)
  obtain q where q: "walks p (chunk_text b) q" "body_parser (h\<lparr>content_length := 0\<rparr>) s_chunk_size_start q"
    using walks_chunk[OF Cons.prems(1,2), of b] Cons.prems(3) by auto
  obtain r n where "walks q (concat (map chunk_text bs)) r" "body_parser (h\<lparr>content_length := 0, content_length := n\<rparr>) s_chunk_size_start r"
    using Cons.IH[OF q(2)] Cons.prems(2,3) by auto
  then show ?case using walks_append[OF q(1)] by (intro exI[of _ r] exI[of _ n]) simp
qed

lemma last_chunk:
  assumes "body_parser h s_chunk_size_start p" "flag_chunked h" "\<not> p_upgrade h"
  shows "\<exists>q. finishes p (''0'' @ CRLF @ CRLF) q \<and> body_parser (h\<lparr>content_length := 0, flag_trailing := True\<rparr>) s_start_res (q\<lparr>nread := 0\<rparr>)"
proof -
  have p: "core p = h" "pstate p = s_chunk_size_start" "nread p = 0" "flag_chunked p"
    using assms(1,2) by (auto simp: body_parser_def core_def)
  obtain q where q: "walks p (map digit_char (digits_of 16 0)) q" "pstate q = s_chunk_size"
      "core q = h\<lparr>content_length := 0\<rparr>" "nread q \<le> 15"
    using walks_chunk_size[OF p(2,4,3), of 0] p(1) by auto
  have fields: "flag_chunked q" "content_length q = 0" "\<not> p_upgrade q"
    using arg_cong[OF q(3), of flag_chunked] arg_cong[OF q(3), of content_length] arg_cong[OF q(3), of p_upgrade] assms(2,3)
    by (simp_all add: core_fields)
  let ?r = "q\<lparr>nread := 0, flag_trailing := True, pstate := s_header_field_start\<rparr>"
  have r: "walks q CRLF ?r" using walks_chunk_size_end[OF q(2) fields(1) q(4)] fields(2) by simp
  have line: "at_line ?r" by (simp add: at_line_def)
  obtain s where s: "walks ?r [CR] s" "pstate s = s_headers_almost_done" "nread s = 1" "core s = core ?r"
    using blank_line_start[OF line] by (auto simp: pending_def max_header_size_def)
  have flags: "flag_trailing s" "\<not> p_upgrade s"
    using arg_cong[OF s(4), of flag_trailing] arg_cong[OF s(4), of p_upgrade] fields(3) by (simp_all add: core_def)
  have "iteration LF [] s = Some (Goes_on ((counted s)\<lparr>pstate := s_start_res\<rparr>) 0 True)"
    using s(2,3) flags
    by (intro iteration_header) (simp_all add: PARSING_HEADER_def on_byte_def on_headers_almost_done_def on_message_done_def
        counted_def max_header_size_def)
  from finishes_last[OF s(1) this] have "finishes ?r CRLF ((counted s)\<lparr>pstate := s_start_res\<rparr>)"
    by (simp add: CRLF_def)
  then have "finishes p (map digit_char (digits_of 16 0) @ CRLF @ CRLF) ((counted s)\<lparr>pstate := s_start_res\<rparr>)"
    by (intro walks_finishes[OF q(1)] walks_finishes[OF r])
  moreover have "map digit_char (digits_of 16 0) = ''0''" by (simp add: digits_of.simps digit_char_def flip: byte_of_inject) (simp add: byte_of_def)
  moreover have "core s = h\<lparr>content_length := 0, flag_trailing := True\<rparr>"
    by (simp add: s(4) q(3) core_flags)
  ultimately show ?thesis
    by (intro exI[of _ "(counted s)\<lparr>pstate := s_start_res\<rparr>"]) (simp add: body_parser_def)
qed

section \<open>Whole responses\<close>

lemma apply_header_simps [simp]:
  "status_code (apply_header h p) = status_code p" "http_major (apply_header h p) = http_major p"
  "http_minor (apply_header h p) = http_minor p" "flag_trailing (apply_header h p) = flag_trailing p"
  "flag_upgrade (apply_header h p) = flag_upgrade p" "flag_skipbody (apply_header h p) = flag_skipbody p"
  "p_upgrade (apply_header h p) = p_upgrade p"
  "flag_close (apply_header h p) = (flag_close p \<or> about_connection h \<and> says ''close'' h)"
  "flag_keep_alive (apply_header h p) = (flag_keep_alive p \<or> about_connection h \<and> \<not> says ''close'' h)"
  "flag_content_length (apply_header h p) = (flag_content_length p \<or> named ''content-length'' h)"
  "flag_chunked (apply_header h p) = (flag_chunked p \<or> named ''transfer-encoding'' h)"
  "flag_transfer_encoding (apply_header h p) = (flag_transfer_encoding p \<or> named ''transfer-encoding'' h)"
  "content_length (apply_header h p) = (if named ''content-length'' h then read_digits 10 (snd h) else content_length p)"
  by (auto simp: apply_header_def about_connection_def named_def)

lemma fold_apply_header:
  "status_code (fold apply_header hs p) = status_code p" "http_major (fold apply_header hs p) = http_major p"
  "http_minor (fold apply_header hs p) = http_minor p" "flag_trailing (fold apply_header hs p) = flag_trailing p"
  "flag_upgrade (fold apply_header hs p) = flag_upgrade p" "flag_skipbody (fold apply_header hs p) = flag_skipbody p"
  "p_upgrade (fold apply_header hs p) = p_upgrade p"
  "flag_close (fold apply_header hs p) = (flag_close p \<or> (\<exists>h \<in> set hs. about_connection h \<and> says ''close'' h))"
  "flag_keep_alive (fold apply_header hs p) = (flag_keep_alive p \<or> (\<exists>h \<in> set hs. about_connection h \<and> \<not> says ''close'' h))"
  "flag_content_length (fold apply_header hs p) = (flag_content_length p \<or> (\<exists>h \<in> set hs. named ''content-length'' h))"
  "flag_chunked (fold apply_header hs p) = (flag_chunked p \<or> (\<exists>h \<in> set hs. named ''transfer-encoding'' h))"
  "flag_transfer_encoding (fold apply_header hs p) = (flag_transfer_encoding p \<or> (\<exists>h \<in> set hs. named ''transfer-encoding'' h))"
  by (induction hs arbitrary: p; auto)+

lemma fold_apply_length:
  "\<forall>h \<in> set hs. named ''content-length'' h \<longrightarrow> snd h = show_nat k \<Longrightarrow>
   content_length (fold apply_header hs p) = (if \<exists>h \<in> set hs. named ''content-length'' h then k else content_length p)"
  by (induction hs arbitrary: p) (auto simp: read_show_nat)

lemma says_keep_alive:
  assumes "header_ok h" "about_connection h"
  shows "\<not> says ''close'' h \<longleftrightarrow> says ''keep-alive'' h"
  using assms by (auto simp: header_ok_def says_def)

text \<open>The parser when the headers are complete.\<close>

definition head_parser :: "response \<Rightarrow> http_parser" where
  "head_parser r = fold apply_header (r_headers r) (status_parser r)"

lemma head_parser_simps:
  assumes "response_ok r"
  shows "status_code (head_parser r) = r_status r" "http_major (head_parser r) = 1" "http_minor (head_parser r) = r_minor r"
    "flag_close (head_parser r) = connection_says ''close'' r" "flag_keep_alive (head_parser r) = connection_says ''keep-alive'' r"
    "flag_chunked (head_parser r) = chunked_response r" "flag_transfer_encoding (head_parser r) = chunked_response r"
    "flag_content_length (head_parser r) = has_length r" "\<not> p_upgrade (head_parser r)" "\<not> flag_trailing (head_parser r)"
    "\<not> flag_skipbody (head_parser r)" "\<not> flag_upgrade (head_parser r)"
    "\<not> chunked_response r \<Longrightarrow>
       content_length (head_parser r) = (if has_length r then length (concat (r_body r)) else ULLONG_MAX)"
  using assms says_keep_alive
  by (auto simp: head_parser_def fold_apply_header status_parser_def http_parser_init_def connection_says_def chunked_response_def
      has_length_def response_ok_def framed_def list_all_iff fold_apply_length)

lemma status_parser_pending: "pstate q = s_header_field_start \<Longrightarrow> core (pending q) = core q"
  by (simp add: pending_def)

lemma head_read:
  assumes "response_ok r"
  shows "\<exists>q. walks http_parser_init (status_line r @ concat (map header_line (r_headers r)) @ [CR]) q \<and>
    pstate q = s_headers_almost_done \<and> nread q < max_header_size \<and> core q = head_parser r"
proof -
  let ?p = "(status_parser r)\<lparr>pstate := s_header_field_start, nread := length (status_line r)\<rparr>"
  have len: "length (status_line r) + length (concat (map header_line (r_headers r))) + 2 \<le> max_header_size"
    using assms by (simp add: response_ok_def)
  have p: "walks http_parser_init (status_line r) ?p"
    using assms len by (intro walks_status_line) (simp_all add: response_ok_def)
  have core: "core (pending ?p) = status_parser r"
    by (simp add: pending_def) (simp add: core_def status_parser_def http_parser_init_def)
  have "lengths_ok False (r_headers r)"
  proof (cases "has_length r")
    case True
    then have "\<not> chunked_response r" using assms by (auto simp: response_ok_def framed_def)
    then show ?thesis
      using True assms by (auto simp: response_ok_def framed_def lengths_ok_def list_all_iff)
  next
    case False
    then show ?thesis by (auto simp: has_length_def lengths_ok_def list_all_iff filter_empty_conv[THEN iffD2])
  qed
  then obtain q where q: "walks ?p (concat (map header_line (r_headers r))) q" "at_line q"
      "nread q = length (status_line r) + length (concat (map header_line (r_headers r)))" "core (pending q) = head_parser r"
    using headers_read[of ?p "r_headers r"] assms len core
    by (auto simp: response_ok_def at_line_def head_parser_def status_parser_def http_parser_init_def)
  obtain s where "walks q [CR] s" "pstate s = s_headers_almost_done" "nread s = Suc (nread q)" "core s = core (pending q)"
    using blank_line_start[OF q(2)] q(3) len by auto
  then show ?thesis
    using walks_append[OF p walks_append[OF q(1)]] q(3,4) len by (intro exI[of _ s]) simp
qed

lemma keep_alive_core: "http_should_keep_alive q = http_should_keep_alive (core q)"
  by (simp add: http_should_keep_alive_def http_message_needs_eof_def core_def)

lemma keep_alive_head:
  assumes "response_ok r" "core q = h" "h = (head_parser r)\<lparr>content_length := n\<rparr> \<or>
      h = (head_parser r)\<lparr>content_length := n, flag_trailing := True\<rparr>"
    and "chunked_response r \<or> n \<noteq> ULLONG_MAX \<or> r_status r div 100 = 1 \<or> r_status r = 204 \<or> r_status r = 304"
  shows "status_code q = r_status r \<and> http_should_keep_alive q = stays_open r"
proof -
  note hp = head_parser_simps(1-7,11)[OF assms(1)]
  have fields: "status_code h = r_status r" "http_major h = 1" "http_minor h = r_minor r" "content_length h = n"
    "flag_close h = connection_says ''close'' r" "flag_keep_alive h = connection_says ''keep-alive'' r"
    "flag_chunked h = chunked_response r" "flag_transfer_encoding h = chunked_response r" "\<not> flag_skipbody h"
    using assms(3) by (elim disjE; simp add: hp)+
  have "\<not> http_message_needs_eof h"
    using assms(4) by (auto simp: http_message_needs_eof_def fields)
  then have "http_should_keep_alive h = stays_open r"
    by (simp add: http_should_keep_alive_def stays_open_def fields)
  moreover have "status_code q = status_code (core q)" by (simp add: core_def)
  ultimately show ?thesis
    unfolding keep_alive_core[of q] assms(2) by (simp add: fields)
qed

lemma response_finishes:
  assumes "response_ok r"
  shows "\<exists>q. finishes http_parser_init (response_text r) q \<and> status_code q = r_status r \<and> http_should_keep_alive q = stays_open r"
proof -
  let ?head = "status_line r @ concat (map header_line (r_headers r)) @ [CR]" and ?body = "concat (r_body r)"
  obtain p where p: "walks http_parser_init ?head p" "pstate p = s_headers_almost_done" "nread p < max_header_size"
      "core p = head_parser r"
    using head_read[OF assms] by blast
  note hp = head_parser_simps[OF assms, folded p(4), unfolded core_fields]
  have plain: "plain_head (core p)"
    using hp assms by (auto simp: plain_head_def core_fields response_ok_def framed_def)
  note ends = headers_end_body[OF plain p(2,3)]
  show ?thesis
  proof (cases "chunked_response r")
    case True
    have tx: "response_text r = ?head @ [LF] @ concat (map chunk_text (r_body r)) @ ''0'' @ CRLF @ CRLF"
      using True by (simp add: response_text_def CRLF_def)
    obtain q where q: "iteration LF [] p = Some (goes_on q)" "body_parser (head_parser r) s_chunk_size_start q"
      using ends(1) hp(6) True p(4) by auto
    have chunked: "flag_chunked (head_parser r)" "\<not> p_upgrade (head_parser r)"
      using head_parser_simps(6,9)[OF assms] True by simp_all
    have "list_all (\<lambda>b. b \<noteq> [] \<and> length b < 2 ^ 60) (r_body r)"
      using True assms by (simp add: response_ok_def framed_def)
    then obtain s n where s: "walks q (concat (map chunk_text (r_body r))) s"
        "body_parser ((head_parser r)\<lparr>content_length := n\<rparr>) s_chunk_size_start s"
      using walks_chunks[OF q(2) chunked(1)] by blast
    obtain t where t: "finishes s (''0'' @ CRLF @ CRLF) t"
        "body_parser ((head_parser r)\<lparr>content_length := n, content_length := 0, flag_trailing := True\<rparr>) s_start_res (t\<lparr>nread := 0\<rparr>)"
      using last_chunk[OF s(2)] chunked by auto
    have "walks p [LF] q" using q(1) by (simp add: walks_Cons)
    then have "finishes http_parser_init (response_text r) t"
      unfolding tx by (intro walks_finishes[OF p(1)] walks_finishes[OF \<open>walks p [LF] q\<close>] walks_finishes[OF s(1)] t(1))
    then show ?thesis
      using keep_alive_head[OF assms, of t "core t" 0] t(2) True by (intro exI[of _ t]) (simp add: body_parser_def)
  next
    case no_chunks: False
    have tx: "response_text r = (?head @ [LF]) @ ?body"
      using no_chunks by (simp add: response_text_def CRLF_def)
    show ?thesis
    proof (cases "?body = []")
      case True
      have len: "content_length p = 0 \<or> content_length p = ULLONG_MAX \<and>
          (r_status r div 100 = 1 \<or> r_status r = 204 \<or> r_status r = 304)"
        using hp(13) no_chunks True assms by (auto simp: response_ok_def framed_def)
      then obtain q where q: "iteration LF [] p = Some (Goes_on q 0 True)" "body_parser (head_parser r) s_start_res q"
        using ends(3) hp(1,6,7) no_chunks p(4) by auto
      have eq: "core q = (head_parser r)\<lparr>content_length := content_length (head_parser r)\<rparr>"
        using q(2) by (simp add: body_parser_def)
      have "content_length (head_parser r) = content_length p" using p(4) by (simp add: core_fields flip: p(4))
      then have "status_code q = r_status r \<and> http_should_keep_alive q = stays_open r"
        using len by (intro keep_alive_head[OF assms eq]) (auto simp: ULLONG_MAX_def)
      moreover have "response_text r = ?head @ [LF]" using tx True by simp
      ultimately show ?thesis using finishes_last[OF p(1) q(1)] by (intro exI[of _ q]) (simp only: simp_thms)
    next
      case False
      then have len: "has_length r" "content_length p = length ?body" "length ?body < 2 ^ 60"
        using hp(13) no_chunks assms by (auto simp: response_ok_def framed_def split: if_splits)
      have "\<exists>q. iteration LF [] p = Some (goes_on q) \<and> body_parser (head_parser r) s_body_identity q"
        using ends(2) hp(6,7) no_chunks p(4) len(2,3) False by (simp add: ULLONG_MAX_def)
      then obtain q where q: "iteration LF [] p = Some (goes_on q)" "body_parser (head_parser r) s_body_identity q"
        by blast
      have fields: "content_length q = length ?body" "\<not> p_upgrade q"
        using q(2) len(2) hp(9) core_fields(7,9)[of q] core_fields(7,9)[of p] p(4) by (simp_all add: body_parser_def)
      let ?t = "q\<lparr>content_length := 0, pstate := s_start_res\<rparr>"
      have "finishes q ?body ?t"
        using q(2) fields len(3) False by (intro identity_body) (simp_all add: body_parser_def ULLONG_MAX_def)
      moreover have "walks p [LF] q" using q(1) by (simp add: walks_Cons)
      ultimately have "finishes http_parser_init (response_text r) ?t"
        unfolding tx by (intro walks_finishes[OF walks_append[OF p(1)]])
      moreover have "core ?t = (head_parser r)\<lparr>content_length := 0\<rparr>"
        using q(2) by (simp add: body_parser_def core_flags)
      then have "status_code ?t = r_status r \<and> http_should_keep_alive ?t = stays_open r"
        by (rule keep_alive_head[OF assms _ disjI1[OF refl]]) (simp add: ULLONG_MAX_def)
      ultimately show ?thesis by (intro exI[of _ ?t]) (simp only: simp_thms)
    qed
  qed
qed

lemma walks_prefix: "walks p (a @ b) q \<Longrightarrow> \<exists>q0. walks p a q0"
  by (auto simp: walks_def feed_append split: Option.bind_splits)

lemma response_blocks:
  assumes "response_ok r" "concat bs = response_text r" "list_all block_ok bs"
  shows "\<exists>q. feed http_parser_init (concat bs) = Some (q, True) \<and> status_code q = r_status r \<and>
    http_should_keep_alive q = stays_open r \<and>
    (\<forall>k < length bs. \<exists>p. feed http_parser_init (concat (take k bs)) = Some (p, False))"
proof -
  obtain q q0 where q: "feed http_parser_init (response_text r) = Some (q, True)" "walks http_parser_init (butlast (response_text r)) q0"
      "status_code q = r_status r" "http_should_keep_alive q = stays_open r"
    using response_finishes[OF assms(1)] by (auto simp: finishes_def)
  have "\<exists>p. feed http_parser_init (concat (take k bs)) = Some (p, False)" if "k < length bs" for k
  proof -
    have "bs ! k \<noteq> []" using that assms(3) by (simp add: list_all_length block_ok_def)
    then have "concat (drop k bs) \<noteq> []" using that by (simp add: Cons_nth_drop_Suc[symmetric])
    moreover have "response_text r = concat (take k bs) @ concat (drop k bs)"
      using assms(2) by (metis append_take_drop_id concat_append)
    ultimately have "butlast (response_text r) = concat (take k bs) @ butlast (concat (drop k bs))"
      by (simp only: butlast_append if_False)
    then obtain p where "walks http_parser_init (concat (take k bs)) p" using q(2) walks_prefix by metis
    then show ?thesis by (auto simp: walks_def)
  qed
  then show ?thesis
    using assms(2) q by (intro exI[of _ q]) simp
qed

text \<open>C8. The parser understands the responses a server sends. For a response of HTTP/1.0 or 1.1 whose body is
  framed by its length, by chunks or by a status without a body, with any headers but Upgrade, in any
  mixture of upper and lower case (where Connection says close or keep-alive, Transfer-Encoding says
  chunked, and no name goes on after Transfer-Encoding), cut into any reads: the parser takes it to be
  complete with its last byte, not before, and reports its status, and that the connection stays open
  exactly when the server keeps it open.\<close>

theorem response_complete_at_last_byte:
  assumes "response_ok r" "concat bs = response_text r" "list_all block_ok bs"
  shows "\<exists>q. read_blocks http_parser_init bs = Some (q, True) \<and> status_code q = r_status r \<and>
    http_should_keep_alive q = stays_open r \<and>
    (\<forall>k < length bs. \<exists>p. read_blocks http_parser_init (take k bs) = Some (p, False))"
proof -
  have "read_blocks http_parser_init (take k bs) = feed http_parser_init (concat (take k bs))" for k
    using read_blocks_feed[OF init_ok] assms(3) by (metis append_take_drop_id list_all_append)
  then show ?thesis
    using response_blocks[OF assms] read_blocks_feed[OF init_ok assms(3)] by simp
qed

text \<open>Up to the empty line after the headers.\<close>

lemma identity_head:
  assumes "response_ok r" "\<not> chunked_response r" "concat (r_body r) \<noteq> []"
  shows "\<exists>q. walks http_parser_init (status_line r @ concat (map header_line (r_headers r)) @ CRLF) q \<and> pstate q = s_body_identity"
proof -
  let ?head = "status_line r @ concat (map header_line (r_headers r)) @ [CR]"
  obtain p where p: "walks http_parser_init ?head p" "pstate p = s_headers_almost_done" "nread p < max_header_size"
      "core p = head_parser r"
    using head_read[OF assms(1)] by blast
  note hp = head_parser_simps[OF assms(1), folded p(4), unfolded core_fields]
  have plain: "plain_head (core p)"
    using hp assms by (auto simp: plain_head_def core_fields response_ok_def framed_def)
  have "content_length p = length (concat (r_body r))" "length (concat (r_body r)) < 2 ^ 60"
    using hp(13) assms by (auto simp: response_ok_def framed_def split: if_splits)
  then have "\<exists>q. iteration LF [] p = Some (goes_on q) \<and> body_parser (core p) s_body_identity q"
    using headers_end_body(2)[OF plain p(2,3)] hp(6,7) assms(2,3) by (simp add: ULLONG_MAX_def)
  then obtain q where q: "iteration LF [] p = Some (goes_on q)" "body_parser (core p) s_body_identity q" by blast
  then have "walks p [LF] q" by (simp add: walks_Cons)
  then show ?thesis
    using walks_append[OF p(1)] q(2) by (auto simp: CRLF_def body_parser_def)
qed

text \<open>C39. A response that announces a body it does not have never ends. The program does not tell its parser
  that a response has no body, as it installs no callback for the end of the headers: after the headers of
  a response to a HEAD request, or with status 304, that carry a Content-Length, the parser waits for
  that many bytes, and when the server closes the connection instead it reports an error.\<close>

theorem announced_body_awaited:
  assumes "response_ok r" "\<not> chunked_response r" "concat (r_body r) \<noteq> []"
    and "concat bs @ concat (r_body r) = response_text r" "list_all block_ok bs"
  shows "\<exists>q. read_blocks http_parser_init bs = Some (q, False) \<and>
    http_parser_execute q [] = Some (q\<lparr>http_errno := HPE_INVALID_EOF_STATE\<rparr>, 1, False)"
proof -
  have "concat bs = status_line r @ concat (map header_line (r_headers r)) @ CRLF"
    using assms(2,4) by (simp add: response_text_def)
  then obtain q where q: "feed http_parser_init (concat bs) = Some (q, False)" "pstate q = s_body_identity"
    using identity_head[OF assms(1-3)] by (auto simp: walks_def)
  moreover have "http_errno q = 0" using feed_ok[OF init_ok(1,2) q(1)] by simp
  ultimately show ?thesis
    using read_blocks_feed[OF init_ok assms(5)] by (simp add: http_parser_execute_def)
qed

definition example_response :: response where
  "example_response =
     \<lparr>r_minor = 1, r_status = 404, r_reason = ''Not Found'',
      r_headers = [(''content-LENGTH'', ''2''), (''Connection'', ''Keep-Alive''), (''Server'', ''x'')], r_body = [''ok'']\<rparr>"

lemma example_response_ok: "response_ok example_response"
  by (simp add: example_response_def response_ok_def framed_def chunked_response_def has_length_def header_ok_def about_connection_def
      named_def says_def status_line_def header_line_def CRLF_def max_header_size_def TOKEN_def STRICT_TOKEN_def value_byte_def
      IS_HEADER_CHAR_def is_upper_def is_lower_def is_digit_def byte_of_def lower_char_def LOWER_def show_nat_def digits_of.simps
      digit_char_def char_of_eq_iff eq_commute[of "CHR ''2''" "char_of _"])

lemma example_response_length: "length (response_text example_response) = 82"
  by (simp add: response_text_def example_response_def status_line_def header_line_def CRLF_def chunked_response_def
      named_def TOKEN_def is_upper_def is_lower_def is_digit_def byte_of_def)

lemma example_response_open: "stays_open example_response"
  by (simp add: stays_open_def connection_says_def example_response_def says_def lower_char_def LOWER_def byte_of_def
      char_of_eq_iff)

theorem response_complete_at_last_byte_witness:
  "\<exists>q. read_blocks http_parser_init [take 30 (response_text example_response), drop 30 (response_text example_response)] =
      Some (q, True) \<and> status_code q = 404 \<and> http_should_keep_alive q"
proof -
  let ?bs = "[take 30 (response_text example_response), drop 30 (response_text example_response)]"
  have "list_all block_ok ?bs" using example_response_length by (auto simp: block_ok_def max_header_size_def)
  moreover have "r_status example_response = 404" by (simp add: example_response_def)
  ultimately show ?thesis
    using response_complete_at_last_byte[OF example_response_ok, of ?bs] example_response_open by auto
qed

theorem announced_body_awaited_witness:
  "\<exists>q. read_blocks http_parser_init [take 80 (response_text example_response)] = Some (q, False) \<and>
    http_parser_execute q [] = Some (q\<lparr>http_errno := HPE_INVALID_EOF_STATE\<rparr>, 1, False)"
proof (rule announced_body_awaited[OF example_response_ok])
  show "\<not> chunked_response example_response"
    by (simp add: chunked_response_def example_response_def named_def TOKEN_def is_upper_def is_lower_def is_digit_def byte_of_def)
  then show "concat [take 80 (response_text example_response)] @ concat (r_body example_response) = response_text example_response"
    by (simp add: response_text_def example_response_def status_line_def header_line_def CRLF_def)
  show "list_all block_ok [take 80 (response_text example_response)]"
    using example_response_length by (auto simp: block_ok_def max_header_size_def)
qed (simp add: example_response_def)

end
