(* ===== verification/Connection.thy ===== *)
theory Connection
  imports Socket Url OAuth Counters Http_Message Command_Queue
begin

text \<open>
  One connection of an I/O thread: class \<^verbatim>\<open>ConnectionState\<close>, whose operations are in
  \<^verbatim>\<open>apib/apib_iothread.cc\<close> (requests, results, think time) and \<^verbatim>\<open>apib/apib_io_basic.cc\<close> (the
  handlers the event loop calls). A handler runs to its end without interruption, so it is a
  function on a \<open>view\<close>: the connection, and what it shares with its thread. Everything the
  outside world answers comes from an \<open>environment\<close>, as a function of the number of calls made
  so far (\<open>tick\<close>); what is sent and which descriptors are closed is added to a trace.

  \<^const>\<open>None\<close> is a failed \<^verbatim>\<open>assert\<close> or a null pointer. Printing is left out.
\<close>

unbundle bit_operations_syntax

section \<open>State\<close>

datatype direction = EV_READ | EV_WRITE
datatype io_callback = writeReady_cb | readReady_cb | completeShutdown_cb

text \<open>A watcher of libev on a descriptor, and a one-shot timer.\<close>

record ev_io =
  io_active :: bool
  io_cb :: io_callback
  io_fd :: int
  io_events :: direction

record ev_timer =
  timer_active :: bool
  timer_after :: double

text \<open>An output string stream: the characters up to the highest one ever written, and the position
  of the next write. Seeking back does not shorten it.\<close>

record ostringstream =
  chars :: string
  put_pos :: nat

definition seek_start :: "ostringstream \<Rightarrow> ostringstream" where
  "seek_start o' = o'\<lparr>put_pos := 0\<rparr>"

definition put :: "ostringstream \<Rightarrow> string \<Rightarrow> ostringstream" where
  "put o' s =
     \<lparr>chars = take (put_pos o') (chars o') @ s @ drop (put_pos o' + length s) (chars o'),
      put_pos = put_pos o' + length s\<rparr>"

record ConnectionState =
  c_index :: int
  c_keepRunning :: bool
  c_socket :: "sock option"
  backwardsIo :: bool
  c_io :: ev_io
  thinkTimer :: ev_timer
  c_url :: next_url
  writeDirty :: bool
  writeBuf :: ostringstream
  fullWrite :: string
  fullWritePos :: nat
  readBuf :: string
  readBufPos :: nat
  c_parser :: http_parser
  readDone :: bool
  needsOpen :: bool
  c_startTime :: int

definition kReadBufSize :: nat where "kReadBufSize = 8192"
definition kConnectFailureDelay :: double where "kConnectFailureDelay = Fin (1 / 4)"

text \<open>\<open>block\<close> is the memory of the new read buffer.\<close>

definition ConnectionState_new :: "int \<Rightarrow> string \<Rightarrow> ConnectionState" where
  "ConnectionState_new index block =
     \<lparr>c_index = index, c_keepRunning = True, c_socket = None, backwardsIo = False,
      c_io = \<lparr>io_active = False, io_cb = writeReady_cb, io_fd = 0, io_events = EV_READ\<rparr>,
      thinkTimer = \<lparr>timer_active = False, timer_after = Fin 0\<rparr>, c_url = Null_url,
      writeDirty = True, writeBuf = \<lparr>chars = [], put_pos = 0\<rparr>, fullWrite = [], fullWritePos = 0,
      readBuf = block, readBufPos = 0, c_parser = http_parser_init, readDone = False,
      needsOpen = False, c_startTime = 0\<rparr>"

text \<open>The bits of \<open>headersSet\<close>.\<close>

definition kHostSet :: int where "kHostSet = 1"
definition kContentLengthSet :: int where "kContentLengthSet = 2"
definition kContentTypeSet :: int where "kContentTypeSet = 4"
definition kAuthorizationSet :: int where "kAuthorizationSet = 8"
definition kConnectionSet :: int where "kConnectionSet = 16"
definition kUserAgentSet :: int where "kUserAgentSet = 32"

text \<open>The configuration of a thread.\<close>

record IOConfig =
  t_index :: int
  numConnections :: int
  httpVerb :: string
  sslCipher :: string
  sendData :: string
  oauth :: "OAuthInfo option"
  headers :: "string list option"
  headersSet :: int
  thinkTime :: nat
  noKeepAlive :: bool
  verbose :: bool

text \<open>What the outside world answers to the call made at a tick; a transfer is given its size too.\<close>

record environment =
  urls :: Urls
  strings :: absl
  errors :: messages
  hmac_sha1 :: "string \<Rightarrow> string \<Rightarrow> string"
  on_time :: "nat \<Rightarrow> int"
  on_rand :: "nat \<Rightarrow> int"
  on_draw :: "nat \<Rightarrow> int \<Rightarrow> int \<Rightarrow> int"
  on_open :: "nat \<Rightarrow> connect_answers"
  on_write :: "nat \<Rightarrow> nat \<Rightarrow> io_answer"
  on_read :: "nat \<Rightarrow> nat \<Rightarrow> io_answer"
  on_shutdown :: "nat \<Rightarrow> io_answer"
  on_data :: "nat \<Rightarrow> nat \<Rightarrow> char"

datatype net_event = Opened int | Sent string | Closed int

record view =
  conn :: ConnectionState
  keepRunning :: int
  counters :: Counters
  tallies :: Tallies
  tick :: nat
  trace :: "net_event list"

definition on_conn :: "(ConnectionState \<Rightarrow> ConnectionState) \<Rightarrow> view \<Rightarrow> view" where
  "on_conn f w = w\<lparr>conn := f (conn w)\<rparr>"

definition next_tick :: "view \<Rightarrow> view" where
  "next_tick w = w\<lparr>tick := tick w + 1\<rparr>"

definition close_all :: "int list \<Rightarrow> view \<Rightarrow> view" where
  "close_all fds w = w\<lparr>trace := trace w @ map Closed fds\<rparr>"

text \<open>\<^verbatim>\<open>socket_.reset()\<close>\<close>

definition reset_socket :: "view \<Rightarrow> view" where
  "reset_socket w =
     on_conn (\<lambda>c. c\<lparr>c_socket := None\<rparr>)
       (close_all (case c_socket (conn w) of None \<Rightarrow> [] | Some k \<Rightarrow> destroy_sock k) w)"

definition stop_io :: "view \<Rightarrow> view" where
  "stop_io = on_conn (\<lambda>c. c\<lparr>c_io := (c_io c)\<lparr>io_active := False\<rparr>\<rparr>)"

text \<open>\<^verbatim>\<open>ev_io_init\<close> and \<^verbatim>\<open>ev_io_start\<close> on the socket's descriptor, with \<open>backwardsIo_\<close> set.\<close>

definition start_io :: "io_callback \<Rightarrow> direction \<Rightarrow> bool \<Rightarrow> view \<Rightarrow> view option" where
  "start_io cb dir backwards w = do {
     k \<leftarrow> c_socket (conn w);
     Some (on_conn (\<lambda>c. c\<lparr>c_io := \<lparr>io_active = True, io_cb = cb, io_fd = sock_fd k, io_events = dir\<rparr>,
       backwardsIo := backwards\<rparr>) w)
   }"

text \<open>Stop, change the direction, start again.\<close>

definition turn_io :: "direction \<Rightarrow> bool \<Rightarrow> view \<Rightarrow> view" where
  "turn_io dir backwards =
     on_conn (\<lambda>c. c\<lparr>c_io := (c_io c)\<lparr>io_active := True, io_events := dir\<rparr>, backwardsIo := backwards\<rparr>)"

definition record_error :: "view \<Rightarrow> view" where
  "record_error w = w\<lparr>tallies := RecordSocketError (tallies w)\<rparr>"

definition shouldKeepRunning :: "view \<Rightarrow> bool" where
  "shouldKeepRunning w \<longleftrightarrow> keepRunning w \<noteq> 0"

definition current_url :: "environment \<Rightarrow> view \<Rightarrow> URLInfo option" where
  "current_url E w =
     (case c_url (conn w) of Null_url \<Rightarrow> None | Url_at i \<Rightarrow> rd (all_urls (urls E)) (int i))"

section \<open>Sending a request\<close>

text \<open>The pieces \<open>writeRequest\<close> puts into the stream, in order. \<open>auth\<close> is the OAuth header.\<close>

definition request_pieces :: "IOConfig \<Rightarrow> URLInfo \<Rightarrow> string option \<Rightarrow> string list" where
  "request_pieces t u auth =
     [httpVerb t @ '' '' @ u_path u @ '' HTTP/1.1'' @ [CR, LF]] @
     (if headersSet t AND kUserAgentSet = 0 then [''User-Agent: apib'' @ [CR, LF]] else []) @
     (if headersSet t AND kHostSet = 0 then [''Host: '' @ u_hostHeader u @ [CR, LF]] else []) @
     (if sendData t \<noteq> [] then
        (if headersSet t AND kContentTypeSet = 0 then [''Content-Type: text/plain'' @ [CR, LF]] else []) @
        (if headersSet t AND kContentLengthSet = 0
         then [''Content-Length: '' @ show_nat (length (sendData t)) @ [CR, LF]] else [])
      else []) @
     (case auth of None \<Rightarrow> [] | Some h \<Rightarrow> [h @ [CR, LF]]) @
     (if noKeepAlive t \<and> headersSet t AND kConnectionSet = 0 then [''Connection: close'' @ [CR, LF]] else []) @
     (case headers t of None \<Rightarrow> [] | Some hs \<Rightarrow> map (\<lambda>h. h @ [CR, LF]) hs) @
     [[CR, LF]] @
     (if sendData t \<noteq> [] then [sendData t] else [])"

text \<open>The header is made with the time and two draws of the ticks that follow.\<close>

definition authorization :: "environment \<Rightarrow> IOConfig \<Rightarrow> URLInfo \<Rightarrow> view \<Rightarrow> (string option \<times> view) option" where
  "authorization E t u w =
     (case oauth t of
        None \<Rightarrow> Some (None, w)
      | Some oa \<Rightarrow> do {
          h \<leftarrow> oauth_MakeHeader (hmac_sha1 E) (strings E) (on_rand E (tick w + 1)) (on_rand E (tick w + 2))
                 (on_time E (tick w)) u [] (httpVerb t) None oa;
          Some (Some h, w\<lparr>tick := tick w + 3\<rparr>)
        })"

definition writeRequest :: "environment \<Rightarrow> IOConfig \<Rightarrow> view \<Rightarrow> view option" where
  "writeRequest E t w =
     (if \<not> writeDirty (conn w) \<and> oauth t = None
      then Some (on_conn (\<lambda>c. c\<lparr>fullWritePos := 0\<rparr>) w)
      else do {
        u \<leftarrow> current_url E w;
        (auth, w1) \<leftarrow> authorization E t u w;
        let buf = foldl put (seek_start (writeBuf (conn w1))) (request_pieces t u auth);
        Some (on_conn (\<lambda>c. c\<lparr>writeBuf := buf, fullWrite := chars buf, fullWritePos := 0,
          writeDirty := False\<rparr>) w1)
      })"

definition Connect :: "environment \<Rightarrow> IOConfig \<Rightarrow> view \<Rightarrow> (int \<times> view) option" where
  "Connect E t w = do {
     u \<leftarrow> current_url E w;
     addr \<leftarrow> address u (t_index t);
     if \<not> valid addr then Some (- 1, w)
     else do {
       let A = on_open E (tick w);
       (st, newSock, closed) \<leftarrow>
         (if u_isSsl u
          then map_option (\<lambda>(st, s, cl). (st, Tls s, cl)) (connectTLS (errors E) A addr new_TLSSocket)
          else map_option (\<lambda>(st, s, cl). (st, Plain s, cl)) (Socket_connect (errors E) A addr new_Socket));
       let w1 = close_all closed (next_tick w);
       if \<not> ok st then Some (- 1, close_all (destroy_sock newSock) w1)
       else
         let w2 = reset_socket w1 in
         Some (0, on_conn (\<lambda>c. c\<lparr>c_socket := Some newSock\<rparr>) (w2\<lparr>trace := trace w2 @ [Opened (sock_fd newSock)]\<rparr>))
     }
   }"

definition sendAfterDelay :: "double \<Rightarrow> view \<Rightarrow> view" where
  "sendAfterDelay seconds =
     on_conn (\<lambda>c. c\<lparr>thinkTimer := \<lparr>timer_active = True, timer_after = seconds\<rparr>\<rparr>)"

definition addThinkTime :: "IOConfig \<Rightarrow> view \<Rightarrow> view" where
  "addThinkTime t = sendAfterDelay (ddiv (d_of_int (int (thinkTime t))) (Fin 1000))"

definition SendWrite :: "view \<Rightarrow> view option" where
  "SendWrite = start_io writeReady_cb EV_WRITE False"

definition SendRead :: "view \<Rightarrow> view option" where
  "SendRead = start_io readReady_cb EV_READ False"

definition ConnectAndSend :: "environment \<Rightarrow> IOConfig \<Rightarrow> view \<Rightarrow> view option" where
  "ConnectAndSend E t w0 =
     (let w = next_tick (on_conn (\<lambda>c. c\<lparr>c_startTime := on_time E (tick w0)\<rparr>) w0) in
      if needsOpen (conn w) then do {
        (err, w1) \<leftarrow> Connect E t w;
        if err = 0 then
          Option.bind (writeRequest E t (w1\<lparr>tallies := RecordConnectionOpen (tallies w1)\<rparr>)) SendWrite
        else Some (sendAfterDelay kConnectFailureDelay (record_error w1))
      }
      else Option.bind (writeRequest E t w) SendWrite)"

text \<open>A one-shot timer has stopped when its callback runs.\<close>

definition thinkingDone :: "environment \<Rightarrow> IOConfig \<Rightarrow> view \<Rightarrow> view option" where
  "thinkingDone E t w =
     ConnectAndSend E t (on_conn (\<lambda>c. c\<lparr>thinkTimer := (thinkTimer c)\<lparr>timer_active := False\<rparr>\<rparr>) w)"

definition StartConnect :: "environment \<Rightarrow> IOConfig \<Rightarrow> view \<Rightarrow> view option" where
  "StartConnect E t w = do {
     u \<leftarrow> GetNext (on_draw E (tick w)) (urls E);
     ConnectAndSend E t (next_tick (on_conn (\<lambda>c. c\<lparr>c_url := u, needsOpen := True\<rparr>) w))
   }"

section \<open>Closing\<close>

definition CloseDone :: "environment \<Rightarrow> IOConfig \<Rightarrow> view \<Rightarrow> view option" where
  "CloseDone E t w =
     (if \<not> c_keepRunning (conn w) \<or> \<not> shouldKeepRunning w then Some w
      else if thinkTime t > 0 then Some (addThinkTime t w)
      else ConnectAndSend E t w)"

definition Close :: "environment \<Rightarrow> IOConfig \<Rightarrow> view \<Rightarrow> view option" where
  "Close E t w = do {
     k \<leftarrow> c_socket (conn w);
     let (cs, k', closed) = sock_close (errors E) (on_shutdown E (tick w)) k;
     let w1 = close_all closed (next_tick (on_conn (\<lambda>c. c\<lparr>c_socket := Some k'\<rparr>) w));
     case cs of
       Inl e \<Rightarrow> CloseDone E t (reset_socket (stop_io w1))
     | Inr IO_OK \<Rightarrow> CloseDone E t (reset_socket w1)
     | Inr FEOF \<Rightarrow> CloseDone E t (reset_socket w1)
     | Inr NEED_READ \<Rightarrow> start_io completeShutdown_cb EV_READ False w1
     | Inr NEED_WRITE \<Rightarrow> start_io completeShutdown_cb EV_WRITE True w1
   }"

definition completeShutdown :: "environment \<Rightarrow> IOConfig \<Rightarrow> view \<Rightarrow> view option" where
  "completeShutdown E t w = do {
     k \<leftarrow> c_socket (conn w);
     let (rs, readed) = sock_read (errors E) (on_read E (tick w) 0) k;
     let w1 = next_tick w;
     case rs of
       Inl e \<Rightarrow> CloseDone E t (reset_socket (stop_io w1))
     | Inr IO_OK \<Rightarrow> CloseDone E t (reset_socket (stop_io w1))
     | Inr FEOF \<Rightarrow> CloseDone E t (reset_socket (stop_io w1))
     | Inr NEED_READ \<Rightarrow> Some (if backwardsIo (conn w1) then turn_io EV_READ False w1 else w1)
     | Inr NEED_WRITE \<Rightarrow> Some (if \<not> backwardsIo (conn w1) then turn_io EV_WRITE True w1 else w1)
   }"

definition recycle :: "environment \<Rightarrow> IOConfig \<Rightarrow> bool \<Rightarrow> view \<Rightarrow> view option" where
  "recycle E t closeConn w =
     (if closeConn \<or> noKeepAlive t \<or> \<not> shouldKeepRunning w
      then Close E t (on_conn (\<lambda>c. c\<lparr>needsOpen := True\<rparr>) w)
      else
        let w1 = on_conn (\<lambda>c. c\<lparr>needsOpen := False\<rparr>) w in
        if thinkTime t > 0 then Some (addThinkTime t w1) else ConnectAndSend E t w1)"

section \<open>Results\<close>

definition WriteDone :: "environment \<Rightarrow> IOConfig \<Rightarrow> int \<Rightarrow> view \<Rightarrow> view option" where
  "WriteDone E t err w =
     (if err \<noteq> 0 then recycle E t True (record_error w)
      else SendRead (on_conn (\<lambda>c. c\<lparr>readDone := False, c_parser := http_parser_init\<rparr>) w))"

definition ReadDone :: "environment \<Rightarrow> IOConfig \<Rightarrow> int \<Rightarrow> view \<Rightarrow> view option" where
  "ReadDone E t err w =
     (if err \<noteq> 0 then recycle E t True (record_error w)
      else
        let w1 = next_tick (w\<lparr>counters :=
                   recordResult (int (status_code (c_parser (conn w)))) (on_time E (tick w) - c_startTime (conn w))
                     (counters w)\<rparr>)
        in if \<not> http_should_keep_alive (c_parser (conn w1)) then recycle E t True w1
           else do {
             oldUrl \<leftarrow> current_url E w1;
             u \<leftarrow> GetNext (on_draw E (tick w1)) (urls E);
             let w2 = next_tick (on_conn (\<lambda>c. c\<lparr>c_url := u\<rparr>) w1);
             newUrl \<leftarrow> current_url E w2;
             same \<leftarrow> IsSameServer oldUrl newUrl (t_index t);
             if \<not> same then recycle E t True (on_conn (\<lambda>c. c\<lparr>writeDirty := True\<rparr>) w2)
             else if c_url (conn w2) \<noteq> c_url (conn w1)
             then recycle E t False (on_conn (\<lambda>c. c\<lparr>writeDirty := True\<rparr>) w2)
             else recycle E t False w2
           })"

section \<open>The handlers of the event loop\<close>

definition singleWrite :: "environment \<Rightarrow> IOConfig \<Rightarrow> view \<Rightarrow> (int \<times> view) option" where
  "singleWrite E t w =
     (let len = length (fullWrite (conn w)) - fullWritePos (conn w) in
      if len = 0 then None
      else do {
        k \<leftarrow> c_socket (conn w);
        let (st, wrote) = sock_write (errors E) (on_write E (tick w) len) k;
        let w1 = next_tick w;
        case st of
          Inl e \<Rightarrow> map_option (Pair (- 1)) (WriteDone E t (- 1) (stop_io w1))
        | Inr IO_OK \<Rightarrow> do {
            n \<leftarrow> wrote;
            let w2 = on_conn (\<lambda>c. c\<lparr>fullWritePos := fullWritePos c + n\<rparr>)
                       (w1\<lparr>counters := recordWrite n (counters w1),
                           trace := trace w1 @ [Sent (take n (drop (fullWritePos (conn w)) (fullWrite (conn w))))]\<rparr>);
            if fullWritePos (conn w2) = length (fullWrite (conn w2))
            then map_option (Pair 0) (WriteDone E t 0 (stop_io w2))
            else Some (1, w2)
          }
        | Inr FEOF \<Rightarrow> Some (1, w1)
        | Inr NEED_WRITE \<Rightarrow> Some (0, if backwardsIo (conn w1) then turn_io EV_WRITE False w1 else w1)
        | Inr NEED_READ \<Rightarrow> Some (0, if \<not> backwardsIo (conn w1) then turn_io EV_READ True w1 else w1)
      })"

text \<open>\<open>received\<close> is what the network put into the buffer; \<open>singleRead\<close> then parses it.\<close>

definition received :: "environment \<Rightarrow> nat \<Rightarrow> nat \<Rightarrow> string" where
  "received E i n = map (on_data E i) [0..<n]"

definition parse_response :: "environment \<Rightarrow> IOConfig \<Rightarrow> nat \<Rightarrow> view \<Rightarrow> (int \<times> view) option" where
  "parse_response E t parsedLen w = do {
     (p, parsed, complete) \<leftarrow> http_parser_execute (c_parser (conn w)) (take parsedLen (readBuf (conn w)));
     let w1 = on_conn (\<lambda>c. c\<lparr>c_parser := p, readDone := complete \<or> readDone c\<rparr>) w;
     if http_errno p \<noteq> 0 then map_option (Pair (- 1)) (ReadDone E t (- 1) (stop_io w1))
     else
       let w2 = (if parsed < parsedLen
                 then on_conn (\<lambda>c. c\<lparr>readBuf := store_at (readBuf c) 0
                        (take (parsedLen - parsed) (drop parsed (readBuf c))),
                        readBufPos := parsedLen - parsed\<rparr>) w1
                 else on_conn (\<lambda>c. c\<lparr>readBufPos := 0\<rparr>) w1)
       in if readDone (conn w2) then map_option (Pair 0) (ReadDone E t 0 (stop_io w2)) else Some (1, w2)
   }"

definition singleRead :: "environment \<Rightarrow> IOConfig \<Rightarrow> view \<Rightarrow> (int \<times> view) option" where
  "singleRead E t w =
     (let len = kReadBufSize - readBufPos (conn w) in
      if len = 0 then None
      else do {
        k \<leftarrow> c_socket (conn w);
        let (st, readCount) = sock_read (errors E) (on_read E (tick w) len) k;
        let w1 = next_tick w;
        case st of
          Inl e \<Rightarrow> map_option (Pair (- 1)) (ReadDone E t (- 3) (stop_io w1))
        | Inr IO_OK \<Rightarrow> do {
            n \<leftarrow> readCount;
            let w2 = on_conn (\<lambda>c. c\<lparr>readBuf := store_at (readBuf c) (readBufPos c) (received E (tick w) n)\<rparr>)
                       (w1\<lparr>counters := recordRead n (counters w1)\<rparr>);
            parse_response E t (n + readBufPos (conn w2)) w2
          }
        | Inr FEOF \<Rightarrow> map_option (Pair 0) (ReadDone E t (if readDone (conn w1) then 0 else - 2) (stop_io w1))
        | Inr NEED_READ \<Rightarrow> Some (0, if backwardsIo (conn w1) then turn_io EV_READ False w1 else w1)
        | Inr NEED_WRITE \<Rightarrow> Some (0, if \<not> backwardsIo (conn w1) then turn_io EV_WRITE True w1 else w1)
      })"

text \<open>The loops of \<open>writeReady\<close> and \<open>readReady\<close>, with a bound on the number of rounds: they end, or
  they stop in undefined behaviour, or they are still running after that many rounds.\<close>

datatype 'a outcome = Done 'a | Stuck | Still_running 'a

fun repeat_while_positive :: "('a \<Rightarrow> (int \<times> 'a) option) \<Rightarrow> nat \<Rightarrow> 'a \<Rightarrow> 'a outcome" where
  "repeat_while_positive f 0 w = Still_running w"
| "repeat_while_positive f (Suc n) w =
     (case f w of
        None \<Rightarrow> Stuck
      | Some (again, w') \<Rightarrow> if again > 0 then repeat_while_positive f n w' else Done w')"

definition writeReady :: "environment \<Rightarrow> IOConfig \<Rightarrow> nat \<Rightarrow> view \<Rightarrow> view outcome" where
  "writeReady E t = repeat_while_positive (singleWrite E t)"

definition readReady :: "environment \<Rightarrow> IOConfig \<Rightarrow> nat \<Rightarrow> view \<Rightarrow> view outcome" where
  "readReady E t = repeat_while_positive (singleRead E t)"

text \<open>What the event loop runs for a connection: the callback of its watcher, or its timer.\<close>

datatype ev = Io_ready | Timer_expired

definition enabled :: "ev \<Rightarrow> ConnectionState \<Rightarrow> bool" where
  "enabled e c = (case e of Io_ready \<Rightarrow> io_active (c_io c) | Timer_expired \<Rightarrow> timer_active (thinkTimer c))"

definition outcome_of :: "'a option \<Rightarrow> 'a outcome" where
  "outcome_of x = (case x of None \<Rightarrow> Stuck | Some w \<Rightarrow> Done w)"

definition handle :: "environment \<Rightarrow> IOConfig \<Rightarrow> nat \<Rightarrow> ev \<Rightarrow> view \<Rightarrow> view outcome" where
  "handle E t fuel e w =
     (case e of
        Timer_expired \<Rightarrow> outcome_of (thinkingDone E t w)
      | Io_ready \<Rightarrow>
          (case io_cb (c_io (conn w)) of
             writeReady_cb \<Rightarrow> writeReady E t fuel w
           | readReady_cb \<Rightarrow> readReady E t fuel w
           | completeShutdown_cb \<Rightarrow> outcome_of (completeShutdown E t w)))"

end
