(* ===== verification/Connection_Safety.thy ===== *)
theory Connection_Safety
  imports Connection Http_Safety
begin

text \<open>
  The connections are never lost and never stop the program: between two events every
  connection waits for exactly one thing, its socket or its timer, unless it was told to end,
  and no handler fails an assertion or follows a null pointer.
\<close>

section \<open>Assumptions on the outside world\<close>

definition url_ok :: "URLInfo \<Rightarrow> bool" where
  "url_ok u \<longleftrightarrow> list_all addr_ok (u_addresses u) \<and> u_port u < 65536"

definition world_ok :: "environment \<Rightarrow> bool" where
  "world_ok E \<longleftrightarrow>
     (\<forall>i n k. 0 < n \<longrightarrow> sock_write_allowed n k (on_write E i n)) \<and>
     (\<forall>i n k. sock_read_allowed n k (on_read E i n)) \<and>
     (\<forall>i lo hi. lo \<le> hi \<longrightarrow> lo \<le> on_draw E i lo hi \<and> on_draw E i lo hi \<le> hi) \<and>
     all_urls (urls E) \<noteq> [] \<and> list_all url_ok (all_urls (urls E))"

text \<open>Every request can be signed, when requests are signed.\<close>

definition can_sign :: "environment \<Rightarrow> IOConfig \<Rightarrow> bool" where
  "can_sign E t \<longleftrightarrow> (\<forall>u w. u \<in> set (all_urls (urls E)) \<longrightarrow> authorization E t u w \<noteq> None)"

lemma can_sign_no_oauth: "oauth t = None \<Longrightarrow> can_sign E t"
  by (simp add: can_sign_def authorization_def)

lemma world_okD:
  assumes "world_ok E"
  shows "0 < n \<Longrightarrow> sock_write_allowed n k (on_write E i n)"
    and "sock_read_allowed n k (on_read E i n)"
    and "all_urls (urls E) \<noteq> []"
    and "u \<in> set (all_urls (urls E)) \<Longrightarrow> url_ok u"
    and "lo \<le> hi \<Longrightarrow> lo \<le> on_draw E i lo hi" and "lo \<le> hi \<Longrightarrow> on_draw E i lo hi \<le> hi"
  using assms by (simp_all add: world_ok_def list_all_iff)

section \<open>The invariant of a connection\<close>

definition base :: "environment \<Rightarrow> view \<Rightarrow> bool" where
  "base E w \<longleftrightarrow>
     length (readBuf (conn w)) = kReadBufSize \<and> readBufPos (conn w) < kReadBufSize \<and>
     current_url E w \<noteq> None \<and> (\<not> writeDirty (conn w) \<longrightarrow> fullWrite (conn w) \<noteq> []) \<and>
     counters_ok (counters w) \<and> parser_ok (c_parser (conn w))"

definition free :: "view \<Rightarrow> bool" where
  "free w \<longleftrightarrow> \<not> io_active (c_io (conn w)) \<and> \<not> timer_active (thinkTimer (conn w))"

text \<open>The direction a callback normally waits for.\<close>

definition home :: "io_callback \<Rightarrow> direction" where
  "home cb = (if cb = writeReady_cb then EV_WRITE else EV_READ)"

definition watching :: "view \<Rightarrow> bool" where
  "watching w \<longleftrightarrow>
     (let c = conn w; io = c_io c in
      io_active io \<and> \<not> timer_active (thinkTimer c) \<and>
      map_option sock_fd (c_socket c) = Some (io_fd io) \<and>
      (backwardsIo c \<longleftrightarrow> io_events io \<noteq> home (io_cb io)) \<and>
      (io_cb io = writeReady_cb \<longrightarrow> fullWritePos c < length (fullWrite c)) \<and>
      (io_cb io = completeShutdown_cb \<longrightarrow> needsOpen c))"

definition delayed :: "view \<Rightarrow> bool" where
  "delayed w \<longleftrightarrow>
     timer_active (thinkTimer (conn w)) \<and> \<not> io_active (c_io (conn w)) \<and>
     (needsOpen (conn w) \<or> c_socket (conn w) \<noteq> None)"

definition finished :: "view \<Rightarrow> bool" where
  "finished w \<longleftrightarrow>
     free w \<and> c_socket (conn w) = None \<and> (\<not> c_keepRunning (conn w) \<or> \<not> shouldKeepRunning w)"

definition parked :: "environment \<Rightarrow> view \<Rightarrow> bool" where
  "parked E w \<longleftrightarrow> base E w \<and> (watching w \<or> delayed w \<or> finished w)"

named_theorems view_simps

lemmas [view_simps] =
  on_conn_def next_tick_def close_all_def reset_socket_def stop_io_def turn_io_def record_error_def
  shouldKeepRunning_def

section \<open>Each operation\<close>

lemma current_url_simps [simp]:
  "current_url E (next_tick w) = current_url E w"
  "current_url E (close_all fds w) = current_url E w"
  "current_url E (reset_socket w) = current_url E w"
  "current_url E (stop_io w) = current_url E w"
  "current_url E (turn_io d b w) = current_url E w"
  "current_url E (record_error w) = current_url E w"
  by (simp_all add: current_url_def view_simps)

lemma current_url_mem: "current_url E w = Some u \<Longrightarrow> u \<in> set (all_urls (urls E))"
  by (auto simp: current_url_def rd_def in_bounds_def split: next_url.splits if_splits)

lemma put_chars [simp]: "put_pos o' \<le> length (chars o') \<Longrightarrow> put_pos (put o' s) \<le> length (chars (put o' s))"
  by (simp add: put_def)

lemma put_length: "length (chars o') \<le> length (chars (put o' s))"
  by (auto simp: put_def min_def)

lemma put_nonempty: "s \<noteq> [] \<Longrightarrow> chars (put o' s) \<noteq> []"
  by (simp add: put_def)

lemma puts_nonempty: "chars o' \<noteq> [] \<Longrightarrow> chars (foldl put o' ps) \<noteq> []"
proof (induction ps arbitrary: o')
  case (Cons p ps)
  have "chars (put o' p) \<noteq> []"
    using put_length [of o' p] Cons.prems by (cases "chars (put o' p)") simp_all
  then show ?case using Cons.IH by simp
qed simp

lemma request_pieces_first:
  obtains p ps where "request_pieces t u auth = p # ps" "p \<noteq> []"
proof (rule that)
  show "request_pieces t u auth = (httpVerb t @ '' '' @ u_path u @ '' HTTP/1.1'' @ [CR, LF]) # tl (request_pieces t u auth)"
    unfolding request_pieces_def append_Cons list.sel by (rule refl)
qed simp

lemma writeRequest_ok:
  assumes "base E w" and "can_sign E t"
  obtains w' where "writeRequest E t w = Some w'" "base E w'" "fullWrite (conn w') \<noteq> []"
    "fullWritePos (conn w') = 0" "c_socket (conn w') = c_socket (conn w)" "c_io (conn w') = c_io (conn w)"
    "thinkTimer (conn w') = thinkTimer (conn w)" "needsOpen (conn w') = needsOpen (conn w)"
    "c_keepRunning (conn w') = c_keepRunning (conn w)" "keepRunning w' = keepRunning w" "trace w' = trace w"
    "counters w' = counters w" "tallies w' = tallies w"
proof (cases "\<not> writeDirty (conn w) \<and> oauth t = None")
  case True
  then show ?thesis
    using assms(1)
    by (intro that [of "on_conn (\<lambda>c. c\<lparr>fullWritePos := 0\<rparr>) w"])
      (simp_all add: writeRequest_def view_simps base_def current_url_def)
next
  case False
  obtain u where u: "current_url E w = Some u" using assms(1) by (auto simp: base_def)
  obtain auth w1 where a: "authorization E t u w = Some (auth, w1)"
    using assms(2) current_url_mem [OF u] by (fastforce simp: can_sign_def)
  then have "\<exists>n. w1 = w\<lparr>tick := n\<rparr>"
    by (cases "oauth t") (auto simp: authorization_def split: Option.bind_splits intro: exI [of _ "tick w"])
  then obtain n where w1: "w1 = w\<lparr>tick := n\<rparr>" by blast
  define buf where "buf = foldl put (seek_start (writeBuf (conn w1))) (request_pieces t u auth)"
  have "chars buf \<noteq> []"
    unfolding buf_def by (rule request_pieces_first [of t u auth]) (simp add: puts_nonempty put_nonempty)
  moreover have "writeRequest E t w = Some (on_conn (\<lambda>c. c\<lparr>writeBuf := buf, fullWrite := chars buf,
      fullWritePos := 0, writeDirty := False\<rparr>) w1)"
    using False u a by (auto simp: writeRequest_def buf_def Let_def)
  ultimately show ?thesis
    using assms(1)
    by (intro that [of "on_conn (\<lambda>c. c\<lparr>writeBuf := buf, fullWrite := chars buf, fullWritePos := 0,
          writeDirty := False\<rparr>) w1"])
      (simp_all add: w1 view_simps base_def current_url_def)
qed

lemma address_ok:
  assumes "url_ok u"
  obtains a where "address u i = Some a" "valid a \<longrightarrow> addr_ok a"
proof (cases "u_addresses u = []")
  case True
  then show ?thesis by (intro that [of Address_none]) (simp_all add: address_def Addresses_get_def valid_def Address_none_def)
next
  case False
  have "address u i = Addresses_get (u_addresses u) (u_port u) (i mod 2 ^ 64)"
    using False by (simp add: address_def Addresses_get_def)
  also have "\<dots> = Some (stamp (u_port u) (u_addresses u ! (nat (i mod 2 ^ 64) mod length (u_addresses u))))"
    using assms False by (intro Addresses_get_ok) (simp_all add: url_ok_def)
  finally show ?thesis
    using assms False by (intro that) (auto simp: url_ok_def list_all_length intro: stamp_ok)
qed

lemma get_addr_ok: "addr_ok a \<Longrightarrow> get_addr a \<noteq> None"
  by (auto simp: addr_ok_def get_addr_def length_addr_def)

lemma Socket_connect_defined: "addr_ok a \<Longrightarrow> Socket_connect M A a s \<noteq> None"
  using get_addr_ok [of a]
  by (auto simp: Socket_connect_def connect_failed_def Let_def split: answer.splits option.splits)

lemma connectTLS_defined: "addr_ok a \<Longrightarrow> connectTLS M A a s \<noteq> None"
  using Socket_connect_defined [of a M A "plain s"] by (auto simp: connectTLS_def Let_def)

text \<open>\<open>Connect\<close> changes the socket, the trace and the clock only.\<close>

lemma Connect_ok:
  assumes "base E w" and "world_ok E"
  obtains err s n tr where
    "Connect E t w = Some (err, w\<lparr>conn := (conn w)\<lparr>c_socket := s\<rparr>, tick := n, trace := tr\<rparr>)"
    "err = 0 \<longrightarrow> s \<noteq> None" "err \<noteq> 0 \<longrightarrow> s = c_socket (conn w)"
proof -
  obtain u where u: "current_url E w = Some u" using assms(1) by (auto simp: base_def)
  then have "url_ok u" using world_okD(4) [OF assms(2)] current_url_mem by blast
  then obtain a where a: "address u (t_index t) = Some a" "valid a \<longrightarrow> addr_ok a" by (rule address_ok)
  show ?thesis
  proof (cases "valid a")
    case False
    then show ?thesis
      by (intro that [where err = "- 1" and s = "c_socket (conn w)" and n = "tick w" and tr = "trace w"]) (simp_all add: Connect_def u a)
  next
    case True
    let ?op = "if u_isSsl u
      then map_option (\<lambda>(st, s, cl). (st, Tls s, cl)) (connectTLS (errors E) (on_open E (tick w)) a new_TLSSocket)
      else map_option (\<lambda>(st, s, cl). (st, Plain s, cl)) (Socket_connect (errors E) (on_open E (tick w)) a new_Socket)"
    have "?op \<noteq> None"
      using True a(2) Socket_connect_defined [of a] connectTLS_defined [of a] by (simp del: not_None_eq)
    then obtain st k cl where op: "?op = Some (st, k, cl)" by auto
    show ?thesis
    proof (cases "ok st")
      case True': True
      show ?thesis
        by (rule that [where err = 0 and s = "Some k" and n = "tick w + 1" and tr = "trace w @ map Closed cl @ map Closed
          (case c_socket (conn w) of None \<Rightarrow> [] | Some x \<Rightarrow> destroy_sock x) @ [Opened (sock_fd k)]"]) (simp_all add: Connect_def u a True op True' view_simps)
    next
      case False
      show ?thesis
        by (rule that [where err = "- 1" and s = "c_socket (conn w)" and n = "tick w + 1" and
            tr = "trace w @ map Closed cl @ map Closed (destroy_sock k)"])
          (simp_all add: Connect_def u a True op False view_simps)
    qed
  qed
qed

text \<open>The frame lemmas of the invariant: what does not touch the fields of \<open>base\<close> keeps it.\<close>

lemma base_cong:
  assumes "base E w" and "readBuf (conn w') = readBuf (conn w)" and "readBufPos (conn w') = readBufPos (conn w)"
    and "c_url (conn w') = c_url (conn w)" and "writeDirty (conn w') = writeDirty (conn w)"
    and "fullWrite (conn w') = fullWrite (conn w)" and "c_parser (conn w') = c_parser (conn w)"
    and "counters_ok (counters w')"
  shows "base E w'"
  using assms by (simp add: base_def current_url_def)

lemma base_counters: "base E w \<Longrightarrow> counters_ok (counters w)"
  by (simp add: base_def)

lemma base_simps [simp]:
  "base E (next_tick w) = base E w" "base E (close_all fds w) = base E w" "base E (reset_socket w) = base E w"
  "base E (stop_io w) = base E w" "base E (turn_io d b w) = base E w" "base E (record_error w) = base E w"
  "base E (on_conn (\<lambda>c. c\<lparr>needsOpen := x\<rparr>) w) = base E w"
  "base E (on_conn (\<lambda>c. c\<lparr>c_socket := k\<rparr>) w) = base E w"
  "base E (w\<lparr>tallies := g\<rparr>) = base E w"
  "base E (on_conn (\<lambda>c. c\<lparr>c_startTime := n\<rparr>) w) = base E w"
  "base E (sendAfterDelay secs w) = base E w"
  by (auto simp: base_def current_url_def view_simps sendAfterDelay_def)

lemma start_io_parked:
  assumes "base E w" and "c_socket (conn w) \<noteq> None" and "\<not> timer_active (thinkTimer (conn w))"
    and "cb = writeReady_cb \<longrightarrow> fullWritePos (conn w) < length (fullWrite (conn w))"
    and "cb = completeShutdown_cb \<longrightarrow> needsOpen (conn w)" and "b \<longleftrightarrow> dir \<noteq> home cb"
  shows "\<exists>w'. start_io cb dir b w = Some w' \<and> parked E w' \<and> watching w'"
  using assms by (auto simp: start_io_def parked_def watching_def base_def current_url_def on_conn_def Let_def)

lemma sendAfterDelay_parked:
  assumes "base E w" and "\<not> io_active (c_io (conn w))" and "needsOpen (conn w) \<or> c_socket (conn w) \<noteq> None"
  shows "parked E (sendAfterDelay x w)"
  using assms by (simp add: parked_def delayed_def) (simp add: sendAfterDelay_def on_conn_def)

lemma send_request_parked:
  assumes "base E w" and "can_sign E t" and "c_socket (conn w) \<noteq> None" and "\<not> timer_active (thinkTimer (conn w))"
  shows "\<exists>w'. Option.bind (writeRequest E t w) SendWrite = Some w' \<and> parked E w'"
proof -
  obtain w1 where w1: "writeRequest E t w = Some w1" "base E w1" "fullWrite (conn w1) \<noteq> []"
    "fullWritePos (conn w1) = 0" "c_socket (conn w1) = c_socket (conn w)"
    "thinkTimer (conn w1) = thinkTimer (conn w)"
    by (rule writeRequest_ok [OF assms(1,2)])
  have "\<exists>w'. SendWrite w1 = Some w' \<and> parked E w' \<and> watching w'"
    unfolding SendWrite_def by (rule start_io_parked) (use w1 assms(3,4) in \<open>simp_all add: home_def\<close>)
  then show ?thesis using w1(1) by auto
qed

lemma ConnectAndSend_parked:
  assumes "base E w" and "free w" and "needsOpen (conn w) \<or> c_socket (conn w) \<noteq> None"
    and "world_ok E" and "can_sign E t"
  shows "\<exists>w'. ConnectAndSend E t w = Some w' \<and> parked E w'"
proof -
  define w0 where "w0 = next_tick (on_conn (\<lambda>c. c\<lparr>c_startTime := on_time E (tick w)\<rparr>) w)"
  have w0: "base E w0" "free w0" "needsOpen (conn w0) = needsOpen (conn w)" "c_socket (conn w0) = c_socket (conn w)"
    using assms(1,2) by (simp_all add: w0_def) (simp_all add: view_simps free_def)
  show ?thesis
  proof (cases "needsOpen (conn w)")
    case False
    then have "ConnectAndSend E t w = Option.bind (writeRequest E t w0) SendWrite"
      using w0(3) by (simp add: ConnectAndSend_def w0_def Let_def)
    moreover have "c_socket (conn w0) \<noteq> None" "\<not> timer_active (thinkTimer (conn w0))"
      using False assms(3) w0 by (simp_all add: free_def)
    ultimately show ?thesis using send_request_parked [OF w0(1) assms(5)] by simp
  next
    case True
    obtain err s n tr where c: "Connect E t w0 = Some (err, w0\<lparr>conn := (conn w0)\<lparr>c_socket := s\<rparr>, tick := n, trace := tr\<rparr>)"
      "err = 0 \<longrightarrow> s \<noteq> None" "err \<noteq> 0 \<longrightarrow> s = c_socket (conn w0)"
      by (rule Connect_ok [OF w0(1) assms(4), of t]) (rule that, assumption+)
    define w1 where "w1 = w0\<lparr>conn := (conn w0)\<lparr>c_socket := s\<rparr>, tick := n, trace := tr\<rparr>"
    have w1: "base E w1" "free w1" "needsOpen (conn w1)" "c_socket (conn w1) = s"
      using w0 True by (simp_all add: w1_def base_def free_def current_url_def)
    show ?thesis
    proof (cases "err = 0")
      case True': True
      have "ConnectAndSend E t w =
          Option.bind (writeRequest E t (w1\<lparr>tallies := RecordConnectionOpen (tallies w1)\<rparr>)) SendWrite"
        using True w0(3) c(1) True' by (simp add: ConnectAndSend_def w0_def w1_def Let_def)
      moreover have "\<exists>w'. Option.bind (writeRequest E t (w1\<lparr>tallies := RecordConnectionOpen (tallies w1)\<rparr>)) SendWrite
          = Some w' \<and> parked E w'"
        using w1 c(2) True' assms(5) by (intro send_request_parked) (simp_all add: free_def)
      ultimately show ?thesis by simp
    next
      case False
      have "ConnectAndSend E t w = Some (sendAfterDelay kConnectFailureDelay (record_error w1))"
        using True w0(3) c(1) False by (simp add: ConnectAndSend_def w0_def w1_def Let_def)
      moreover have "parked E (sendAfterDelay kConnectFailureDelay (record_error w1))"
        using w1 by (intro sendAfterDelay_parked) (simp_all add: free_def record_error_def)
      ultimately show ?thesis by simp
    qed
  qed
qed

lemma CloseDone_parked:
  assumes "base E w" and "free w" and "needsOpen (conn w)" and "c_socket (conn w) = None"
    and "world_ok E" and "can_sign E t"
  shows "\<exists>w'. CloseDone E t w = Some w' \<and> parked E w'"
proof -
  have "parked E w" if "\<not> c_keepRunning (conn w) \<or> \<not> shouldKeepRunning w"
    using that assms(1,2,4) by (simp add: parked_def finished_def)
  moreover have "parked E (addThinkTime t w)"
    unfolding addThinkTime_def using assms(1-3) by (intro sendAfterDelay_parked) (simp_all add: free_def)
  ultimately show ?thesis
    using ConnectAndSend_parked [OF assms(1,2) _ assms(5,6)] assms(3) by (auto simp: CloseDone_def)
qed

text \<open>After a close that is done, the socket is gone.\<close>

lemma reset_socket_simps [simp]:
  "conn (reset_socket w) = (conn w)\<lparr>c_socket := None\<rparr>" "free (reset_socket w) = free w"
  "keepRunning (reset_socket w) = keepRunning w"
  by (simp_all add: view_simps free_def)

lemma stop_io_simps [simp]:
  "conn (stop_io w) = (conn w)\<lparr>c_io := (c_io (conn w))\<lparr>io_active := False\<rparr>\<rparr>"
  "free (stop_io w) \<longleftrightarrow> \<not> timer_active (thinkTimer (conn w))"
  "tick (stop_io w) = tick w" "counters (stop_io w) = counters w" "keepRunning (stop_io w) = keepRunning w"
  by (simp_all add: view_simps free_def)

lemma next_tick_simps [simp]:
  "conn (next_tick w) = conn w" "free (next_tick w) = free w" "counters (next_tick w) = counters w"
  "keepRunning (next_tick w) = keepRunning w" "trace (next_tick w) = trace w"
  by (simp_all add: view_simps free_def)

lemma close_all_simps [simp]:
  "conn (close_all fds w) = conn w" "free (close_all fds w) = free w" "keepRunning (close_all fds w) = keepRunning w"
  by (simp_all add: view_simps free_def)

lemma record_error_simps [simp]:
  "conn (record_error w) = conn w" "free (record_error w) = free w" "counters (record_error w) = counters w"
  by (simp_all add: view_simps free_def)

lemma on_conn_simps [simp]: "conn (on_conn f w) = f (conn w)" "counters (on_conn f w) = counters w"
  by (simp_all add: on_conn_def)

lemma Close_parked:
  assumes "base E w" and "free w" and "needsOpen (conn w)" and "c_socket (conn w) \<noteq> None"
    and "world_ok E" and "can_sign E t"
  shows "\<exists>w'. Close E t w = Some w' \<and> parked E w'"
proof -
  obtain k where k: "c_socket (conn w) = Some k" using assms(4) by auto
  obtain cs k' closed where cl: "sock_close (errors E) (on_shutdown E (tick w)) k = (cs, k', closed)"
    by (cases "sock_close (errors E) (on_shutdown E (tick w)) k") auto
  define w1 where "w1 = close_all closed (next_tick (on_conn (\<lambda>c. c\<lparr>c_socket := Some k'\<rparr>) w))"
  have w1: "base E w1" "free w1" "needsOpen (conn w1)" "c_socket (conn w1) = Some k'"
    using assms(1-3) by (simp_all add: w1_def) (simp add: free_def)
  have fin: "\<exists>w'. CloseDone E t (reset_socket w1) = Some w' \<and> parked E w'"
    "\<exists>w'. CloseDone E t (reset_socket (stop_io w1)) = Some w' \<and> parked E w'"
    using w1 assms(5,6) by (auto intro!: CloseDone_parked simp: free_def)
  have wait: "\<exists>w'. start_io completeShutdown_cb dir b w1 = Some w' \<and> parked E w' \<and> watching w'"
    if "b \<longleftrightarrow> dir \<noteq> EV_READ" for b dir
    using w1 that by (intro start_io_parked) (simp_all add: free_def home_def)
  show ?thesis
  proof (cases cs)
    case (Inl e)
    then show ?thesis using fin(2) by (simp add: Close_def k cl w1_def)
  next
    case (Inr s)
    then show ?thesis
      using fin(1) wait [of False EV_READ] wait [of True EV_WRITE] by (cases s) (auto simp: Close_def k cl w1_def)
  qed
qed

lemma recycle_parked:
  assumes "base E w" and "free w" and "c_socket (conn w) \<noteq> None" and "world_ok E" and "can_sign E t"
  shows "\<exists>w'. recycle E t b w = Some w' \<and> parked E w'"
proof -
  have close: "\<exists>w'. Close E t (on_conn (\<lambda>c. c\<lparr>needsOpen := True\<rparr>) w) = Some w' \<and> parked E w'"
    using assms by (intro Close_parked) (simp_all add: free_def)
  let ?w = "on_conn (\<lambda>c. c\<lparr>needsOpen := False\<rparr>) w"
  have "parked E (addThinkTime t ?w)"
    unfolding addThinkTime_def using assms(1-3) by (intro sendAfterDelay_parked) (simp_all add: free_def)
  moreover have "\<exists>w'. ConnectAndSend E t ?w = Some w' \<and> parked E w'"
    using assms by (intro ConnectAndSend_parked) (simp_all add: free_def)
  ultimately show ?thesis using close by (auto simp: recycle_def Let_def)
qed

section \<open>Results\<close>

lemma GetNext_defined:
  assumes "world_ok E"
  shows "\<exists>i < length (all_urls (urls E)). GetNext (on_draw E n) (urls E) = Some (Url_at i)"
proof -
  let ?us = "all_urls (urls E)" and ?ix = "on_draw E n 0 (int (length (all_urls (urls E))) - 1)"
  have ne: "?us \<noteq> []" using assms by (rule world_okD)
  show ?thesis
  proof (cases "length ?us = 1")
    case True
    then show ?thesis using ne by (simp add: GetNext_def)
  next
    case False
    have "0 \<le> int (length ?us) - 1" using ne by (cases ?us) simp_all
    then have ix: "0 \<le> ?ix" "?ix \<le> int (length ?us) - 1" using world_okD(5,6) [OF assms] by blast+
    then have "nat ?ix < length ?us" "in_bounds ?us ?ix" unfolding in_bounds_def by linarith+
    then show ?thesis using False ne by (auto simp: GetNext_def)
  qed
qed

lemma eq_addr_defined: "valid a \<longrightarrow> addr_ok a \<Longrightarrow> valid b \<longrightarrow> addr_ok b \<Longrightarrow> eq_addr a b \<noteq> None"
  by (auto simp: valid_def addr_ok_def eq_addr_def length_addr_def)

lemma IsSameServer_defined:
  assumes "url_ok u" and "url_ok v"
  shows "IsSameServer u v i \<noteq> None"
proof -
  obtain a b where "address u i = Some a" "valid a \<longrightarrow> addr_ok a" "address v i = Some b" "valid b \<longrightarrow> addr_ok b"
    using address_ok [OF assms(1)] address_ok [OF assms(2)] by metis
  then show ?thesis using eq_addr_defined by (simp add: IsSameServer_def)
qed

lemma WriteDone_parked:
  assumes "base E w" and "free w" and "c_socket (conn w) \<noteq> None" and "world_ok E" and "can_sign E t"
  shows "\<exists>w'. WriteDone E t err w = Some w' \<and> parked E w'"
proof (cases "err = 0")
  case True
  have "\<exists>w'. SendRead (on_conn (\<lambda>c. c\<lparr>readDone := False, c_parser := http_parser_init\<rparr>) w) = Some w' \<and>
      parked E w' \<and> watching w'"
    unfolding SendRead_def using assms
    by (intro start_io_parked) (auto simp: free_def home_def base_def current_url_def)
  then show ?thesis using True by (auto simp: WriteDone_def)
next
  case False
  have "\<exists>w'. recycle E t True (record_error w) = Some w' \<and> parked E w'"
    using assms by (intro recycle_parked) simp_all
  then show ?thesis using False by (simp add: WriteDone_def)
qed

lemma ReadDone_parked:
  assumes "base E w" and "free w" and "c_socket (conn w) \<noteq> None" and "world_ok E" and "can_sign E t"
  shows "\<exists>w'. ReadDone E t err w = Some w' \<and> parked E w'"
proof (cases "err = 0")
  case False
  have "\<exists>w'. recycle E t True (record_error w) = Some w' \<and> parked E w'"
    using assms by (intro recycle_parked) simp_all
  then show ?thesis using False by (simp add: ReadDone_def)
next
  case True
  define w1 where "w1 = next_tick (w\<lparr>counters :=
      recordResult (int (status_code (c_parser (conn w)))) (on_time E (tick w) - c_startTime (conn w)) (counters w)\<rparr>)"
  have w1: "base E w1" "free w1" "c_socket (conn w1) \<noteq> None" "conn w1 = conn w"
    using assms by (simp_all add: w1_def) (simp_all add: base_def free_def current_url_def)
  have close: "\<exists>w'. recycle E t True w1 = Some w' \<and> parked E w'"
    using w1 assms(4,5) by (intro recycle_parked)
  obtain u where u: "current_url E w1 = Some u" using w1(1) by (auto simp: base_def)
  obtain i where i: "i < length (all_urls (urls E))" "GetNext (on_draw E (tick w1)) (urls E) = Some (Url_at i)"
    using GetNext_defined [OF assms(4)] by blast
  define w2 where "w2 = next_tick (on_conn (\<lambda>c. c\<lparr>c_url := Url_at i\<rparr>) w1)"
  let ?v = "all_urls (urls E) ! i"
  have v: "current_url E w2 = Some ?v"
    using i(1) by (simp add: w2_def) (simp add: current_url_def on_conn_def rd_def in_bounds_def)
  have w2: "base E w2" "free w2" "c_socket (conn w2) \<noteq> None" "base E (on_conn (\<lambda>c. c\<lparr>writeDirty := True\<rparr>) w2)"
    using w1 v by (simp_all add: w2_def) (simp_all add: base_def free_def current_url_def)
  have dirty: "\<exists>w'. recycle E t b (on_conn (\<lambda>c. c\<lparr>writeDirty := True\<rparr>) w2) = Some w' \<and> parked E w'" for b
    using w2 assms(4,5) by (intro recycle_parked) (simp_all add: free_def)
  have clean: "\<exists>w'. recycle E t b w2 = Some w' \<and> parked E w'" for b
    using w2 assms(4,5) by (intro recycle_parked)
  have "url_ok u" "url_ok ?v"
    using world_okD(4) [OF assms(4)] current_url_mem [OF u] i(1) by simp_all
  then obtain same where same: "IsSameServer u ?v (t_index t) = Some same"
    using IsSameServer_defined by blast
  show ?thesis
    using True close dirty clean
    by (simp add: ReadDone_def Let_def w1_def [symmetric] u i(2) w2_def [symmetric] v same del: current_url_simps)
qed

section \<open>The handlers\<close>

definition remaining :: "view \<Rightarrow> nat" where
  "remaining w = length (fullWrite (conn w)) - fullWritePos (conn w)"

lemma turn_io_watching:
  "watching w \<Longrightarrow> b \<longleftrightarrow> d \<noteq> home (io_cb (c_io (conn w))) \<Longrightarrow> watching (turn_io d b w)"
  by (auto simp: watching_def turn_io_def Let_def)

lemma watching_simps [simp]: "watching (next_tick w) = watching w"
  by (simp add: watching_def)

lemma direction_eq: "d \<noteq> EV_READ \<longleftrightarrow> d = EV_WRITE"
  by (cases d) simp_all

text \<open>The four ways a round of the write loop goes. \<open>wrote i w\<close> is the state after \<open>i\<close> bytes.\<close>

definition wrote :: "nat \<Rightarrow> view \<Rightarrow> view" where
  "wrote i w = on_conn (\<lambda>c. c\<lparr>fullWritePos := fullWritePos c + i\<rparr>)
     ((next_tick w)\<lparr>counters := recordWrite i (counters w),
        trace := trace w @ [Sent (take i (drop (fullWritePos (conn w)) (fullWrite (conn w))))]\<rparr>)"

lemma wrote_simps [simp]:
  "conn (wrote i w) = (conn w)\<lparr>fullWritePos := fullWritePos (conn w) + i\<rparr>" "tallies (wrote i w) = tallies w"
  "bytesWritten (counters (wrote i w)) = bytesWritten (counters w) + int i"
  by (simp_all add: wrote_def on_conn_def next_tick_def)

lemma singleWrite_cases:
  assumes "base E w" and "watching w" and "io_cb (c_io (conn w)) = writeReady_cb" and "world_ok E"
  obtains
    (more) i where "0 < i" "i < remaining w" "singleWrite E t w = Some (1, wrote i w)"
  | (complete) "singleWrite E t w = map_option (Pair 0) (WriteDone E t 0 (stop_io (wrote (remaining w) w)))"
  | (blocked) d b where "singleWrite E t w = Some (0, turn_io d b (next_tick w))" "b \<longleftrightarrow> d \<noteq> EV_WRITE"
  | (failed) "singleWrite E t w = map_option (Pair (- 1)) (WriteDone E t (- 1) (stop_io (next_tick w)))"
proof -
  obtain s where s: "c_socket (conn w) = Some s" using assms(2) by (auto simp: watching_def Let_def)
  have len: "0 < remaining w" using assms(2,3) by (simp add: remaining_def watching_def Let_def)
  have still: "turn_io (io_events (c_io (conn w))) (backwardsIo (conn w)) (next_tick w) = next_tick w"
    using assms(2) by (simp add: turn_io_def on_conn_def watching_def Let_def)
  have dir: "backwardsIo (conn w) \<longleftrightarrow> io_events (c_io (conn w)) \<noteq> EV_WRITE"
    using assms(2,3) by (simp add: watching_def home_def Let_def)
  have "sock_write_allowed (remaining w) s (on_write E (tick w) (remaining w))"
    using len by (rule world_okD(1) [OF assms(4)])
  then show ?thesis
  proof (cases rule: so.write_cases [where M = "errors E"])
    case (failed st n)
    then show ?thesis using len by (intro that(4)) (simp add: singleWrite_def s remaining_def Let_def)
  next
    case (blocked st n)
    from blocked(2) show ?thesis
    proof
      assume st: "st = NEED_READ"
      then have "singleWrite E t w = Some (0, if \<not> backwardsIo (conn w) then turn_io EV_READ True (next_tick w) else next_tick w)"
        using blocked(1) len by (simp add: singleWrite_def s remaining_def Let_def)
      then show ?thesis
        using that(3) [of EV_READ True] that(3) [of "io_events (c_io (conn w))" "backwardsIo (conn w)"] still dir
        by (auto split: if_splits)
    next
      assume st: "st = NEED_WRITE"
      then have "singleWrite E t w = Some (0, if backwardsIo (conn w) then turn_io EV_WRITE False (next_tick w) else next_tick w)"
        using blocked(1) len by (simp add: singleWrite_def s remaining_def Let_def)
      then show ?thesis
        using that(3) [of EV_WRITE False] that(3) [of "io_events (c_io (conn w))" "backwardsIo (conn w)"] still dir
        by (auto split: if_splits)
    qed
  next
    case (sent i)
    have eq: "singleWrite E t w =
        (if fullWritePos (conn w) + i = length (fullWrite (conn w))
         then map_option (Pair 0) (WriteDone E t 0 (stop_io (wrote i w))) else Some (1, wrote i w))"
      using sent(1) len by (simp add: singleWrite_def s remaining_def Let_def wrote_def)
    show ?thesis
    proof (cases "i = remaining w")
      case True
      then show ?thesis using eq len that(2) by (simp add: remaining_def)
    next
      case False
      then show ?thesis using eq sent(2,3) that(1) by (simp add: remaining_def)
    qed
  qed
qed

lemma base_wrote: "base E w \<Longrightarrow> base E (wrote i w)"
  using base_counters by (auto simp: wrote_def intro: base_cong)

text \<open>One round of the write loop: it goes on with less to send, or the connection is parked.\<close>

lemma singleWrite_round:
  assumes "base E w" and "watching w" and "io_cb (c_io (conn w)) = writeReady_cb"
    and "world_ok E" and "can_sign E t"
  shows "\<exists>k w'. singleWrite E t w = Some (k, w') \<and>
    (if k > 0 then base E w' \<and> watching w' \<and> io_cb (c_io (conn w')) = writeReady_cb \<and> remaining w' < remaining w
     else parked E w')"
proof -
  have sock: "c_socket (conn w) \<noteq> None" "\<not> timer_active (thinkTimer (conn w))"
    using assms(2) by (auto simp: watching_def Let_def)
  from assms(1-4) show ?thesis
  proof (cases rule: singleWrite_cases [where t = t])
    case (more i)
    have "watching (wrote i w)" "remaining (wrote i w) < remaining w"
      using assms(2,3) more(1,2) by (auto simp: watching_def Let_def remaining_def)
    with more(3) assms(3) base_wrote [OF assms(1)] show ?thesis by simp
  next
    case complete
    have "\<exists>w'. WriteDone E t 0 (stop_io (wrote (remaining w) w)) = Some w' \<and> parked E w'"
      using assms sock base_wrote [OF assms(1)] by (intro WriteDone_parked) (simp_all add: free_def)
    with complete show ?thesis by auto
  next
    case (blocked d b)
    have "parked E (turn_io d b (next_tick w))"
      using assms(1-3) blocked(2) by (auto simp: parked_def home_def intro!: turn_io_watching)
    with blocked(1) show ?thesis by auto
  next
    case failed
    have "\<exists>w'. WriteDone E t (- 1) (stop_io (next_tick w)) = Some w' \<and> parked E w'"
      using assms sock by (intro WriteDone_parked) (simp_all add: free_def)
    with failed show ?thesis by auto
  qed
qed

text \<open>The generic loop: a measure that falls bounds the number of rounds.\<close>

lemma repeat_while_positive_ends:
  assumes "\<And>w. I w \<Longrightarrow> \<exists>k w'. f w = Some (k, w') \<and> (if k > 0 then I w' \<and> m w' < (m w :: nat) else Q w')"
    and "I w" and "m w < n"
  shows "\<exists>w'. repeat_while_positive f n w = Done w' \<and> Q w'"
  using assms(2,3)
proof (induction n arbitrary: w)
  case (Suc n)
  obtain k w' where f: "f w = Some (k, w')" "if k > 0 then I w' \<and> m w' < m w else Q w'"
    using assms(1) [OF Suc.prems(1)] by blast
  then show ?case using Suc.IH [of w'] Suc.prems(2) by (cases "k > 0") auto
qed simp

lemma repeat_while_positive_invariant:
  assumes "\<And>w. I w \<Longrightarrow> \<exists>k w'. f w = Some (k, w') \<and> (if k > 0 then I w' else Q w')" and "I w"
  shows "(\<exists>w'. repeat_while_positive f n w = Done w' \<and> Q w') \<or> (\<exists>w'. repeat_while_positive f n w = Still_running w' \<and> I w')"
  using assms(2)
proof (induction n arbitrary: w)
  case (Suc n)
  obtain k w' where f: "f w = Some (k, w')" "if k > 0 then I w' else Q w'"
    using assms(1) [OF Suc.prems] by blast
  then show ?case using Suc.IH [of w'] by (cases "k > 0") auto
qed simp

lemma length_store_at_same: "i + length xs \<le> length block \<Longrightarrow> length (store_at block i xs) = length block"
  by (simp add: store_at_def)

lemma parse_response_round:
  assumes "base E w" and "watching w" and "io_cb (c_io (conn w)) = readReady_cb" and "n \<le> kReadBufSize"
    and "world_ok E" and "can_sign E t"
  shows "\<exists>k w'. parse_response E t n w = Some (k, w') \<and>
    (if k > 0 then base E w' \<and> watching w' \<and> io_cb (c_io (conn w')) = readReady_cb else parked E w')"
proof -
  obtain s where s: "c_socket (conn w) = Some s" using assms(2) by (auto simp: watching_def Let_def)
  have ok: "parser_ok (c_parser (conn w))" using assms(1) by (simp add: base_def)
  obtain p parsed complete where ex:
    "http_parser_execute (c_parser (conn w)) (take n (readBuf (conn w))) = Some (p, parsed, complete)" "parser_ok p"
    "http_errno p = 0 \<Longrightarrow> parsed \<le> length (take n (readBuf (conn w))) \<and>
       (take n (readBuf (conn w)) \<noteq> [] \<longrightarrow> 0 < parsed)"
    using http_parser_execute_ok[OF ok, of "take n (readBuf (conn w))"] by metis
  define w1 where "w1 = on_conn (\<lambda>c. c\<lparr>c_parser := p, readDone := complete \<or> readDone c\<rparr>) w"
  have w1: "base E w1" "c_socket (conn w1) = Some s" "\<not> timer_active (thinkTimer (conn w1))"
    using assms(1,2) s ex(2) by (simp_all add: w1_def base_def current_url_def watching_def Let_def)
  define w2 where "w2 = (if parsed < n
    then on_conn (\<lambda>c. c\<lparr>readBuf := store_at (readBuf c) 0 (take (n - parsed) (drop parsed (readBuf c))),
           readBufPos := n - parsed\<rparr>) w1
    else on_conn (\<lambda>c. c\<lparr>readBufPos := 0\<rparr>) w1)"
  have eq: "parse_response E t n w =
      (if http_errno p \<noteq> 0 then map_option (Pair (- 1)) (ReadDone E t (- 1) (stop_io w1))
       else if readDone (conn w2) then map_option (Pair 0) (ReadDone E t 0 (stop_io w2)) else Some (1, w2))"
    by (simp add: parse_response_def ex(1) Let_def w1_def w2_def)
  show ?thesis
  proof (cases "http_errno p = 0")
    case False
    have "\<exists>w'. ReadDone E t (- 1) (stop_io w1) = Some w' \<and> parked E w'"
      using w1 assms(5,6) by (intro ReadDone_parked) simp_all
    then show ?thesis using eq False by auto
  next
    case True
    have len: "length (readBuf (conn w)) = kReadBufSize" using assms(1) by (simp add: base_def)
    have "parsed \<le> n \<and> (0 < n \<longrightarrow> 0 < parsed)"
      using ex(3) [OF True] assms(4) len by (auto simp: kReadBufSize_def)
    then have w2: "base E w2" "c_socket (conn w2) = Some s" "\<not> timer_active (thinkTimer (conn w2))"
      using w1 assms(4) len
      by (auto simp: w2_def w1_def base_def current_url_def length_store_at_same kReadBufSize_def)
    have watch: "watching w2" "io_cb (c_io (conn w2)) = readReady_cb"
      using assms(2,3) by (auto simp: w2_def w1_def watching_def Let_def)
    have "\<exists>w'. ReadDone E t 0 (stop_io w2) = Some w' \<and> parked E w'"
      using w2 assms(5,6) by (intro ReadDone_parked) simp_all
    then show ?thesis using eq True w2(1) watch by (cases "readDone (conn w2)") auto
  qed
qed

lemma singleRead_round:
  assumes "base E w" and "watching w" and "io_cb (c_io (conn w)) = readReady_cb"
    and "world_ok E" and "can_sign E t"
  shows "\<exists>k w'. singleRead E t w = Some (k, w') \<and>
    (if k > 0 then base E w' \<and> watching w' \<and> io_cb (c_io (conn w')) = readReady_cb else parked E w')"
proof -
  obtain s where s: "c_socket (conn w) = Some s" using assms(2) by (auto simp: watching_def Let_def)
  define len where "len = kReadBufSize - readBufPos (conn w)"
  have len: "0 < len" "length (readBuf (conn w)) = kReadBufSize" using assms(1) by (simp_all add: len_def base_def)
  have fin: "\<exists>w'. ReadDone E t err (stop_io (next_tick w)) = Some w' \<and> parked E w'" for err
    using assms s by (intro ReadDone_parked) (simp_all add: free_def watching_def Let_def)
  have stay: "parked E (next_tick w)" "parked E (turn_io EV_READ False (next_tick w))"
    "parked E (turn_io EV_WRITE True (next_tick w))"
    using assms(1-3) by (auto simp: parked_def home_def intro!: turn_io_watching)
  have "sock_read_allowed len s (on_read E (tick w) len)" by (rule world_okD(2) [OF assms(4)])
  then show ?thesis
  proof (cases rule: so.read_cases [where M = "errors E"])
    case (failed st n)
    obtain w' where "ReadDone E t (- 3) (stop_io (next_tick w)) = Some w'" "parked E w'"
      using fin by blast
    then show ?thesis using failed(1) len by (simp add: singleRead_def s len_def Let_def)
  next
    case (blocked st n)
    obtain w' where w': "ReadDone E t (if readDone (conn w) then 0 else - 2) (stop_io (next_tick w)) = Some w'" "parked E w'"
      using fin by blast
    from blocked(2) consider "st = NEED_READ" | "st = NEED_WRITE" | "st = FEOF" by blast
    then show ?thesis
      by cases (use blocked(1) len stay w' in \<open>auto simp: singleRead_def s len_def Let_def\<close>)
  next
    case (got i)
    define w2 where "w2 = on_conn (\<lambda>c. c\<lparr>readBuf := store_at (readBuf c) (readBufPos c) (received E (tick w) i)\<rparr>)
      ((next_tick w)\<lparr>counters := recordRead i (counters (next_tick w))\<rparr>)"
    have eq: "singleRead E t w = parse_response E t (i + readBufPos (conn w2)) w2"
      using got(1) len by (simp add: singleRead_def s len_def Let_def w2_def)
    have "base E w2"
      using assms(1) len got(2)
      by (simp add: w2_def) (auto simp: base_def current_url_def on_conn_def received_def len_def length_store_at_same)
    moreover have "watching w2" "io_cb (c_io (conn w2)) = readReady_cb"
      using assms(2,3) by (auto simp: w2_def watching_def Let_def)
    moreover have "i + readBufPos (conn w2) \<le> kReadBufSize"
      using got(2) len(1) by (simp add: w2_def len_def)
    ultimately show ?thesis unfolding eq by (rule parse_response_round [OF _ _ _ _ assms(4,5)])
  qed
qed

lemma completeShutdown_parked:
  assumes "base E w" and "watching w" and "io_cb (c_io (conn w)) = completeShutdown_cb"
    and "world_ok E" and "can_sign E t"
  shows "\<exists>w'. completeShutdown E t w = Some w' \<and> parked E w'"
proof -
  obtain s where s: "c_socket (conn w) = Some s" using assms(2) by (auto simp: watching_def Let_def)
  have fin: "\<exists>w'. CloseDone E t (reset_socket (stop_io (next_tick w))) = Some w' \<and> parked E w'"
    using assms by (intro CloseDone_parked) (simp_all add: free_def watching_def Let_def)
  have stay: "parked E (next_tick w)" "parked E (turn_io EV_READ False (next_tick w))"
    "parked E (turn_io EV_WRITE True (next_tick w))"
    using assms(1-3) by (auto simp: parked_def home_def intro!: turn_io_watching)
  obtain st n where r: "sock_read (errors E) (on_read E (tick w) 0) s = (st, n)" by fastforce
  show ?thesis
  proof (cases st)
    case (Inl e)
    then show ?thesis using fin by (simp add: completeShutdown_def s r)
  next
    case (Inr x)
    then show ?thesis using fin stay by (cases x) (simp_all add: completeShutdown_def s r Let_def)
  qed
qed

section \<open>Every event\<close>

lemma delayed_not_watching: "delayed w \<Longrightarrow> \<not> watching w" "finished w \<Longrightarrow> \<not> watching w"
  by (simp_all add: delayed_def finished_def watching_def free_def Let_def)

lemma parked_enabled:
  assumes "parked E w" and "enabled e (conn w)"
  shows "base E w" and "e = Io_ready \<Longrightarrow> watching w" and "e = Timer_expired \<Longrightarrow> delayed w"
  using assms by (auto simp: parked_def enabled_def watching_def delayed_def finished_def free_def Let_def)

lemma thinkingDone_parked:
  assumes "base E w" and "delayed w" and "world_ok E" and "can_sign E t"
  shows "\<exists>w'. thinkingDone E t w = Some w' \<and> parked E w'"
  unfolding thinkingDone_def using assms
  by (intro ConnectAndSend_parked) (auto simp: free_def delayed_def base_def current_url_def)

lemma handle_event:
  assumes "parked E w" and "enabled e (conn w)" and "world_ok E" and "can_sign E t"
  shows "(\<exists>w'. handle E t n e w = Done w' \<and> parked E w') \<or>
    (\<exists>w'. handle E t n e w = Still_running w' \<and> parked E w' \<and> enabled e (conn w'))"
proof (cases e)
  case Timer_expired
  obtain w' where "thinkingDone E t w = Some w'" "parked E w'"
    using thinkingDone_parked [OF _ _ assms(3,4)] parked_enabled [OF assms(1,2)] Timer_expired by blast
  then show ?thesis using Timer_expired by (simp add: handle_def outcome_of_def)
next
  case Io_ready
  have w: "base E w" "watching w" using parked_enabled [OF assms(1,2)] Io_ready by simp_all
  have on: "parked E v \<and> enabled Io_ready (conn v)" if "base E v \<and> watching v \<and> b" for v b
    using that by (simp add: parked_def enabled_def watching_def Let_def)
  show ?thesis
  proof (cases "io_cb (c_io (conn w))")
    case writeReady_cb
    have "(\<exists>w'. repeat_while_positive (singleWrite E t) n w = Done w' \<and> parked E w') \<or>
      (\<exists>w'. repeat_while_positive (singleWrite E t) n w = Still_running w' \<and>
        (base E w' \<and> watching w' \<and> io_cb (c_io (conn w')) = writeReady_cb))"
      by (rule repeat_while_positive_invariant
            [where I = "\<lambda>v. base E v \<and> watching v \<and> io_cb (c_io (conn v)) = writeReady_cb"])
        (use singleWrite_round assms(3,4) w writeReady_cb in \<open>fastforce split: if_splits\<close>)+
    then show ?thesis using Io_ready writeReady_cb on by (auto simp: handle_def writeReady_def)
  next
    case readReady_cb
    have "(\<exists>w'. repeat_while_positive (singleRead E t) n w = Done w' \<and> parked E w') \<or>
      (\<exists>w'. repeat_while_positive (singleRead E t) n w = Still_running w' \<and>
        (base E w' \<and> watching w' \<and> io_cb (c_io (conn w')) = readReady_cb))"
      by (rule repeat_while_positive_invariant
            [where I = "\<lambda>v. base E v \<and> watching v \<and> io_cb (c_io (conn v)) = readReady_cb"])
        (use singleRead_round assms(3,4) w readReady_cb in \<open>fastforce split: if_splits\<close>)+
    then show ?thesis using Io_ready readReady_cb on by (auto simp: handle_def readReady_def)
  next
    case completeShutdown_cb
    obtain w' where "completeShutdown E t w = Some w'" "parked E w'"
      using completeShutdown_parked [OF w completeShutdown_cb assms(3,4)] by blast
    then show ?thesis using Io_ready completeShutdown_cb by (simp add: handle_def outcome_of_def)
  qed
qed

lemma writeReady_ends:
  assumes "parked E w" and "enabled Io_ready (conn w)" and "io_cb (c_io (conn w)) = writeReady_cb"
    and "world_ok E" and "can_sign E t" and "remaining w < n"
  shows "\<exists>w'. writeReady E t n w = Done w' \<and> parked E w'"
  unfolding writeReady_def
proof (rule repeat_while_positive_ends
    [where I = "\<lambda>v. base E v \<and> watching v \<and> io_cb (c_io (conn v)) = writeReady_cb" and m = remaining])
  show "\<exists>k w'. singleWrite E t v = Some (k, w') \<and>
      (if k > 0 then (base E w' \<and> watching w' \<and> io_cb (c_io (conn w')) = writeReady_cb) \<and> remaining w' < remaining v
       else parked E w')"
    if "base E v \<and> watching v \<and> io_cb (c_io (conn v)) = writeReady_cb" for v
    using singleWrite_round [OF _ _ _ assms(4,5), of v] that by (simp only: conj_assoc)
  show "base E w \<and> watching w \<and> io_cb (c_io (conn w)) = writeReady_cb"
    using parked_enabled [OF assms(1,2)] assms(3) by simp
qed (rule assms(6))

end
