(* ===== verification/Frames.thy ===== *)
theory Frames
  imports Connection_Safety
begin

text \<open>
  What an operation of a connection can do to the state it shares, stated once for all relations
  between the state before and after. A relation that holds for the primitive effects of the
  operations, and is reflexive and transitive, holds for every operation and event handler; the
  relations of the other theories are interpretations.
\<close>

section \<open>Operations that send nothing\<close>

text \<open>Opening a connection is one effect: the new socket and its tally.\<close>

definition opened :: "int \<Rightarrow> view \<Rightarrow> view" where
  "opened n w = w\<lparr>trace := trace w @ [Opened n], tallies := RecordConnectionOpen (tallies w)\<rparr>"

locale sending_frame =
  fixes R :: "view \<Rightarrow> view \<Rightarrow> bool"
  assumes refl [simp]: "R w w"
    and trans: "R u v \<Longrightarrow> R v w \<Longrightarrow> R u w"
    and conn_effect: "(\<And>c. c_keepRunning (f c) = c_keepRunning c) \<Longrightarrow> R w (on_conn f w)"
    and tick_effect: "R w (w\<lparr>tick := n\<rparr>)"
    and close_effect: "R w (close_all fds w)"
    and error_effect: "R w (record_error w)"
    and open_effect: "R w (opened m w)"
begin

lemma on_connI [intro!]: "(\<And>c. c_keepRunning (f c) = c_keepRunning c) \<Longrightarrow> R w v \<Longrightarrow> R w (on_conn f v)"
  by (rule trans [OF _ conn_effect])

lemma effectsI [intro!]:
  assumes "R w v"
  shows "R w (next_tick v)" "R w (v\<lparr>tick := n\<rparr>)" "R w (close_all fds v)" "R w (record_error v)" "R w (opened m v)"
    "R w (reset_socket v)" "R w (stop_io v)" "R w (turn_io d b v)" "R w (sendAfterDelay x v)" "R w (addThinkTime t v)"
  using trans [OF assms tick_effect, of n] trans [OF assms tick_effect, of "tick v + 1"] trans [OF assms close_effect]
    trans [OF assms error_effect] trans [OF assms open_effect] assms
  by (auto simp: next_tick_def reset_socket_def stop_io_def turn_io_def sendAfterDelay_def addThinkTime_def)

lemma start_io: "start_io cb d b v = Some v' \<Longrightarrow> R w v \<Longrightarrow> R w v'"
  by (auto simp: start_io_def split: Option.bind_splits)

lemma writeRequest: "Connection.writeRequest E t v = Some v' \<Longrightarrow> R w v \<Longrightarrow> R w v'"
  by (auto simp: writeRequest_def authorization_def Let_def split: Option.bind_splits option.splits if_splits)

text \<open>A successful connect has opened a socket that is still to be tallied.\<close>

lemma opened_socket:
  "on_conn f (v\<lparr>trace := trace v @ [Opened n]\<rparr>)\<lparr>tallies := RecordConnectionOpen (tallies v)\<rparr> = on_conn f (opened n v)"
  by (simp add: on_conn_def opened_def)

lemma Connect:
  assumes "Connection.Connect E t v = Some (err, v')" "R w v"
  shows "if err = 0 then R w (v'\<lparr>tallies := RecordConnectionOpen (tallies v')\<rparr>) else R w v'"
proof -
  have t: "tallies (on_conn f (u\<lparr>trace := tr\<rparr>)) = tallies u" for f u tr
    by (simp add: on_conn_def)
  show ?thesis
    using assms by (auto simp: Connect_def Let_def t opened_socket split: Option.bind_splits if_splits)
qed

lemma send_request: "Option.bind (Connection.writeRequest E t v) SendWrite = Some v' \<Longrightarrow> R w v \<Longrightarrow> R w v'"
  by (auto simp: SendWrite_def split: Option.bind_splits elim!: start_io writeRequest)

lemma ConnectAndSend:
  assumes "Connection.ConnectAndSend E t v = Some v'" "R w v"
  shows "R w v'"
proof -
  define v0 where "v0 = next_tick (on_conn (\<lambda>c. c\<lparr>c_startTime := on_time E (tick v)\<rparr>) v)"
  have v0: "R w v0" using assms(2) by (auto simp: v0_def)
  show ?thesis
  proof (cases "needsOpen (conn v0)")
    case False
    then show ?thesis
      using assms(1) send_request [OF _ v0] by (simp add: ConnectAndSend_def v0_def [symmetric] Let_def)
  next
    case True
    then obtain err w1 where c: "Connection.Connect E t v0 = Some (err, w1)"
      using assms(1) by (auto simp: ConnectAndSend_def v0_def [symmetric] Let_def split: Option.bind_splits)
    then show ?thesis
      using assms(1) True Connect [OF c v0]
      by (auto simp: ConnectAndSend_def v0_def [symmetric] Let_def split: if_splits intro: send_request)
  qed
qed

lemma CloseDone: "Connection.CloseDone E t v = Some v' \<Longrightarrow> R w v \<Longrightarrow> R w v'"
  by (auto simp: CloseDone_def elim!: ConnectAndSend split: if_splits)

lemma Close: "Connection.Close E t v = Some v' \<Longrightarrow> R w v \<Longrightarrow> R w v'"
  by (auto simp: Close_def Let_def elim!: CloseDone start_io
      split: Option.bind_splits prod.splits sum.splits IOStatus.splits)

lemma recycle: "Connection.recycle E t b v = Some v' \<Longrightarrow> R w v \<Longrightarrow> R w v'"
  by (auto simp: recycle_def Let_def elim!: Close ConnectAndSend split: if_splits)

lemma WriteDone: "Connection.WriteDone E t err v = Some v' \<Longrightarrow> R w v \<Longrightarrow> R w v'"
  by (auto simp: WriteDone_def SendRead_def elim!: recycle start_io split: if_splits)

lemma completeShutdown: "Connection.completeShutdown E t v = Some v' \<Longrightarrow> R w v \<Longrightarrow> R w v'"
  by (auto simp: completeShutdown_def Let_def elim!: CloseDone
      split: Option.bind_splits prod.splits sum.splits IOStatus.splits if_splits)

lemma thinkingDone: "Connection.thinkingDone E t v = Some v' \<Longrightarrow> R w v \<Longrightarrow> R w v'"
  by (auto simp: thinkingDone_def elim!: ConnectAndSend)

lemma StartConnect: "Connection.StartConnect E t v = Some v' \<Longrightarrow> R w v \<Longrightarrow> R w v'"
  by (auto simp: StartConnect_def elim!: ConnectAndSend split: Option.bind_splits)

end

section \<open>All operations\<close>

text \<open>A write is one effect too: its bytes and their number.\<close>

definition sent_bytes :: "string \<Rightarrow> view \<Rightarrow> view" where
  "sent_bytes s w = w\<lparr>counters := recordWrite (length s) (counters w), trace := trace w @ [Sent s]\<rparr>"

locale handler_frame = sending_frame +
  assumes result_effect: "R w (w\<lparr>counters := recordResult st lat (counters w)\<rparr>)"
    and read_effect: "R w (w\<lparr>counters := recordRead n (counters w)\<rparr>)"
    and write_effect: "R w (sent_bytes s w)"
begin

lemma countsI [intro!]:
  assumes "R w v" "k = counters v"
  shows "R w (v\<lparr>counters := recordResult st lat k\<rparr>)" "R w (v\<lparr>counters := recordRead n k\<rparr>)"
  using assms trans [OF assms(1) result_effect] trans [OF assms(1) read_effect] by simp_all

lemma sentI:
  assumes "R w v" "k = counters v" "tr = trace v" "length s = n"
  shows "R w (v\<lparr>counters := recordWrite n k, trace := tr @ [Sent s]\<rparr>)"
  using trans [OF assms(1) write_effect, of s] assms by (simp add: sent_bytes_def)

lemma ReadDone: "Connection.ReadDone E t err v = Some v' \<Longrightarrow> R w v \<Longrightarrow> R w v'"
  by (auto simp: ReadDone_def Let_def elim!: recycle split: Option.bind_splits if_splits)

lemma parse_response: "Connection.parse_response E t n v = Some (k, v') \<Longrightarrow> R w v \<Longrightarrow> R w v'"
  by (auto simp: parse_response_def Let_def elim!: ReadDone split: Option.bind_splits prod.splits if_splits)

lemma singleRead: "Connection.singleRead E t v = Some (k, v') \<Longrightarrow> R w v \<Longrightarrow> R w v'"
  by (auto simp: singleRead_def Let_def next_tick_def [symmetric] elim!: ReadDone parse_response
      split: Option.bind_splits prod.splits sum.splits IOStatus.splits if_splits)

lemma singleWrite:
  assumes "Connection.singleWrite E t v = Some (k, v')" "world_ok E" "R w v"
  shows "R w v'"
proof -
  let ?rest = "drop (fullWritePos (conn v)) (fullWrite (conn v))"
  have len: "length (take n ?rest) = n" if "sock_write M (on_write E i (length ?rest)) s = (Inr IO_OK, Some n)" "?rest \<noteq> []"
    for M i n s
  proof -
    have "sock_write_allowed (length ?rest) s (on_write E i (length ?rest))"
      using assms(2) that(2) unfolding world_ok_def by blast
    with that(1) show ?thesis using so.write_ok by fastforce
  qed
  have w: "R w (next_tick v\<lparr>counters := recordWrite n (counters v), trace := trace v @ [Sent (take n ?rest)]\<rparr>)"
    if "length (take n ?rest) = n" for n
    by (rule sentI [OF _ _ _ that]) (use assms(3) in auto)
  have w': "R w (next_tick v\<lparr>counters := recordWrite n (counters v), trace := trace v @ [Sent ?rest]\<rparr>)"
    if "fullWritePos (conn v) + n = length (fullWrite (conn v))" for n
    by (rule sentI) (use assms(3) that in auto)
  show ?thesis
    using assms(1,3) len w w'
    by (auto simp: singleWrite_def Let_def elim!: WriteDone
        split: Option.bind_splits prod.splits sum.splits IOStatus.splits if_splits)
qed

lemma repeat_while_positive:
  assumes "\<And>v k v'. f v = Some (k, v') \<Longrightarrow> R w v \<Longrightarrow> R w v'"
  shows "Connection.repeat_while_positive f n v = Done v' \<Longrightarrow> R w v \<Longrightarrow> R w v'"
proof (induction n arbitrary: v)
  case (Suc n)
  then obtain k u where u: "f v = Some (k, u)" "if k > 0 then Connection.repeat_while_positive f n u = Done v' else u = v'"
    by (auto split: option.splits if_splits)
  then show ?case using Suc.IH [of u] assms [OF u(1) Suc.prems(2)] by (auto split: if_splits)
qed simp

lemma handle:
  assumes "Connection.handle E t n e v = Done v'" "world_ok E"
  shows "R v v'"
  using assms(1) completeShutdown [of E t v v' v] thinkingDone [of E t v v' v]
    repeat_while_positive [of "Connection.singleWrite E t" v n v v']
    repeat_while_positive [of "Connection.singleRead E t" v n v v'] singleWrite [OF _ assms(2)] singleRead
  by (auto simp: handle_def outcome_of_def writeReady_def readReady_def
      split: ev.splits io_callback.splits option.splits)

end

end
