(* ===== verification/Requests.thy ===== *)
theory Requests
  imports Frames
begin

text \<open>
  What a connection does for a request: the text it sends, its delivery through partial writes,
  what ends a response, and what ends the connection.
\<close>

section \<open>The text of a request\<close>

definition request_text :: "IOConfig \<Rightarrow> URLInfo \<Rightarrow> string option \<Rightarrow> string" where
  "request_text t u auth = concat (request_pieces t u auth)"

lemma puts_chars:
  "put_pos o' \<le> length (chars o') \<Longrightarrow>
   chars (foldl put o' ps) =
     take (put_pos o') (chars o') @ concat ps @ drop (put_pos o' + length (concat ps)) (chars o')"
proof (induction ps arbitrary: o')
  case (Cons p ps)
  let ?o = "put o' p"
  have "chars (foldl put o' (p # ps)) =
      take (put_pos ?o) (chars ?o) @ concat ps @ drop (put_pos ?o + length (concat ps)) (chars ?o)"
    using Cons by simp
  moreover have "take (put_pos ?o) (chars ?o) = take (put_pos o') (chars o') @ p"
    using Cons.prems by (simp add: put_def)
  moreover have "drop (put_pos ?o + length (concat ps)) (chars ?o) =
      drop (put_pos o' + length (concat (p # ps))) (chars o')"
    using Cons.prems by (simp add: put_def) (simp add: add.commute add.left_commute)
  ultimately show ?case by simp
qed simp

section \<open>What leaves the traffic alone\<close>

definition sent :: "net_event list \<Rightarrow> string" where
  "sent tr = concat (map (\<lambda>e. case e of Sent s \<Rightarrow> s | _ \<Rightarrow> []) tr)"

lemma sent_simps [simp]:
  "sent [] = []" "sent (tr @ tr') = sent tr @ sent tr'" "sent (map Closed fds) = []" "sent [Opened n] = []"
  "sent [Sent s] = s"
  by (induction fds) (simp_all add: sent_def)

definition quiet :: "view \<Rightarrow> view \<Rightarrow> bool" where
  "quiet w w' \<longleftrightarrow> sent (trace w') = sent (trace w) \<and> bytesWritten (counters w') = bytesWritten (counters w)"

lemma quiet_refl [simp]: "quiet w w"
  by (simp add: quiet_def)

lemma quiet_trans: "quiet u v \<Longrightarrow> quiet v w \<Longrightarrow> quiet u w"
  by (simp add: quiet_def)

lemma quiet_simps [simp]:
  "quiet w (on_conn f v) = quiet w v" "quiet w (next_tick v) = quiet w v" "quiet w (close_all fds v) = quiet w v"
  "quiet w (reset_socket v) = quiet w v" "quiet w (stop_io v) = quiet w v" "quiet w (turn_io d b v) = quiet w v"
  "quiet w (record_error v) = quiet w v" "quiet w (sendAfterDelay x v) = quiet w v"
  "quiet w (v\<lparr>tallies := g\<rparr>) = quiet w v" "quiet w (v\<lparr>tick := n\<rparr>) = quiet w v"
  "quiet (on_conn f w) v = quiet w v" "quiet (next_tick w) v = quiet w v" "quiet (close_all fds w) v = quiet w v"
  "quiet (reset_socket w) v = quiet w v" "quiet (stop_io w) v = quiet w v" "quiet (record_error w) v = quiet w v"
  "quiet (w\<lparr>tallies := g\<rparr>) v = quiet w v"
  by (simp_all add: quiet_def view_simps sendAfterDelay_def)

text \<open>Opening, closing, waiting and recycling a connection send nothing.\<close>

interpretation qf: sending_frame quiet
  by unfold_locales (auto simp: quiet_def view_simps opened_def)

section \<open>Delivery of a request\<close>

lemma wrote_sent [simp]:
  "sent (trace (wrote i w)) = sent (trace w) @ take i (drop (fullWritePos (conn w)) (fullWrite (conn w)))"
  by (simp add: wrote_def on_conn_def next_tick_def)

text \<open>\<open>delivering w m v\<close>: from \<open>w\<close>, exactly the next \<open>m\<close> bytes of the request have been sent, in \<open>v\<close>.\<close>

definition delivering :: "view \<Rightarrow> nat \<Rightarrow> view \<Rightarrow> bool" where
  "delivering w m v \<longleftrightarrow>
     m \<le> remaining w \<and>
     sent (trace v) = sent (trace w) @ take m (drop (fullWritePos (conn w)) (fullWrite (conn w))) \<and>
     bytesWritten (counters v) = bytesWritten (counters w) + int m"

definition still_writing :: "view \<Rightarrow> nat \<Rightarrow> view \<Rightarrow> bool" where
  "still_writing w m v \<longleftrightarrow>
     watching v \<and> io_cb (c_io (conn v)) = writeReady_cb \<and> fullWrite (conn v) = fullWrite (conn w) \<and>
     fullWritePos (conn v) = fullWritePos (conn w) + m \<and> tallies v = tallies w \<and> m < remaining w"

definition reading_response :: "view \<Rightarrow> bool" where
  "reading_response v \<longleftrightarrow>
     watching v \<and> io_cb (c_io (conn v)) = readReady_cb \<and> c_parser (conn v) = http_parser_init \<and> \<not> readDone (conn v)"

definition given_up :: "environment \<Rightarrow> IOConfig \<Rightarrow> view \<Rightarrow> view \<Rightarrow> bool" where
  "given_up E t w v \<longleftrightarrow> (\<exists>u. tallies u = RecordSocketError (tallies w) \<and> recycle E t True u = Some v)"

definition delivery :: "environment \<Rightarrow> IOConfig \<Rightarrow> view \<Rightarrow> nat \<Rightarrow> view \<Rightarrow> bool" where
  "delivery E t w m v \<longleftrightarrow>
     delivering w m v \<and>
     (m = remaining w \<and> reading_response v \<and> tallies v = tallies w \<or> still_writing w m v \<or>
      m < remaining w \<and> given_up E t w v)"

lemma quiet_delivering: "delivering w m v \<Longrightarrow> quiet v v' \<Longrightarrow> delivering w m v'"
  by (simp add: delivering_def quiet_def)

lemma delivering_wrote:
  assumes "delivering w m v" and "fullWrite (conn v) = fullWrite (conn w)"
    and "fullWritePos (conn v) = fullWritePos (conn w) + m" and "i \<le> remaining w - m"
  shows "delivering w (m + i) (wrote i v)"
proof -
  let ?p = "fullWritePos (conn w)" and ?f = "fullWrite (conn w)"
  have "take (m + i) (drop ?p ?f) = take m (drop ?p ?f) @ take i (drop (?p + m) ?f)"
    by (metis add.commute drop_drop take_add)
  moreover have "m + i \<le> remaining w" using assms(1,4) by (auto simp: delivering_def)
  ultimately show ?thesis using assms(1-3) by (simp add: delivering_def)
qed

lemma WriteDone_reading:
  assumes "c_socket (conn v) \<noteq> None" and "free v"
  shows "\<exists>v'. WriteDone E t 0 v = Some v' \<and> reading_response v' \<and> quiet v v' \<and> tallies v' = tallies v"
proof -
  obtain k where k: "c_socket (conn v) = Some k" using assms(1) by auto
  let ?v = "on_conn (\<lambda>c. c\<lparr>readDone := False, c_parser := http_parser_init,
    c_io := \<lparr>io_active = True, io_cb = readReady_cb, io_fd = sock_fd k, io_events = EV_READ\<rparr>, backwardsIo := False\<rparr>) v"
  have "WriteDone E t 0 v = Some ?v"
    using k by (simp add: WriteDone_def SendRead_def start_io_def on_conn_def)
  moreover have "reading_response ?v" "tallies ?v = tallies v"
    using k assms(2) by (simp_all add: reading_response_def watching_def home_def free_def Let_def) (simp add: on_conn_def)
  ultimately show ?thesis by auto
qed

text \<open>The last two of the four ways to go on, from a connection that has sent \<open>m\<close> bytes.\<close>

lemma completed_delivery:
  assumes "still_writing w m v" and "delivering w m v"
  shows "\<exists>v'. WriteDone E t 0 (stop_io (wrote (remaining v) v)) = Some v' \<and> delivery E t w (remaining w) v'"
proof -
  have v: "watching v" "fullWrite (conn v) = fullWrite (conn w)" "fullWritePos (conn v) = fullWritePos (conn w) + m"
    "tallies v = tallies w" "m < remaining w"
    using assms(1) by (simp_all add: still_writing_def)
  have rem: "remaining v = remaining w - m" using v(2,3) by (simp add: remaining_def)
  let ?u = "stop_io (wrote (remaining v) v)"
  have "free ?u" "c_socket (conn ?u) \<noteq> None" using v(1) by (auto simp: free_def watching_def Let_def)
  then obtain v' where v': "WriteDone E t 0 ?u = Some v'" "reading_response v'" "quiet ?u v'" "tallies v' = tallies ?u"
    using WriteDone_reading by blast
  have "delivering w (m + remaining v) (wrote (remaining v) v)"
    using delivering_wrote [OF assms(2) v(2,3)] rem by simp
  then have "delivering w (remaining w) v'"
    using quiet_delivering v'(3) rem v(5) by (metis add_diff_inverse_nat less_imp_not_less quiet_simps(15))
  then have "delivery E t w (remaining w) v'"
    using v'(2,4) v(4) by (simp add: delivery_def stop_io_def on_conn_def)
  with v'(1) show ?thesis by blast
qed

lemma failed_delivery:
  assumes "base E v" and "still_writing w m v" and "delivering w m v" and "world_ok E" and "can_sign E t"
  shows "\<exists>v'. WriteDone E t (- 1) (stop_io (next_tick v)) = Some v' \<and> delivery E t w m v'"
proof -
  have v: "watching v" "tallies v = tallies w" "m < remaining w" using assms(2) by (simp_all add: still_writing_def)
  let ?u = "record_error (stop_io (next_tick v))"
  have "\<exists>v'. recycle E t True ?u = Some v' \<and> parked E v'"
    using assms(1,4,5) v(1) by (intro recycle_parked) (auto simp: free_def watching_def Let_def)
  then obtain v' where v': "recycle E t True ?u = Some v'" by blast
  have "delivering w m v'" using quiet_delivering [OF assms(3)] qf.recycle [OF v' qf.refl] by simp
  moreover have "given_up E t w v'"
    unfolding given_up_def using v' v(2) by (intro exI [of _ ?u]) (simp add: view_simps)
  ultimately have "delivery E t w m v'" using v(3) by (simp add: delivery_def)
  with v' show ?thesis by (simp add: WriteDone_def)
qed

lemma singleWrite_delivery:
  assumes "base E v" and "still_writing w m v" and "delivering w m v" and "world_ok E" and "can_sign E t"
  shows "\<exists>k v'. singleWrite E t v = Some (k, v') \<and>
    (if k > 0 then (\<exists>m'. base E v' \<and> still_writing w m' v' \<and> delivering w m' v') \<and> remaining v' < remaining v
     else \<exists>m'. delivery E t w m' v')"
proof -
  have v: "watching v" "io_cb (c_io (conn v)) = writeReady_cb" "fullWrite (conn v) = fullWrite (conn w)"
    "fullWritePos (conn v) = fullWritePos (conn w) + m" "tallies v = tallies w" "m < remaining w"
    using assms(2) by (simp_all add: still_writing_def)
  have rem: "remaining v = remaining w - m" using v(3,4) by (simp add: remaining_def)
  from assms(1) v(1,2) assms(4) show ?thesis
  proof (cases rule: singleWrite_cases [where t = t])
    case (more i)
    have "base E (wrote i v)" using assms(1) by (rule base_wrote)
    moreover have "still_writing w (m + i) (wrote i v)"
      using v more(2) rem by (auto simp: still_writing_def watching_def remaining_def Let_def)
    moreover have "delivering w (m + i) (wrote i v)"
      using delivering_wrote [OF assms(3) v(3,4)] more(2) rem by simp
    moreover have "remaining (wrote i v) < remaining v"
      using more(1,2) by (simp add: remaining_def)
    ultimately show ?thesis using more(3) by auto
  next
    case complete
    with completed_delivery [OF assms(2,3)] show ?thesis by force
  next
    case (blocked d b)
    let ?v = "turn_io d b (next_tick v)"
    have "still_writing w m ?v"
      using v blocked(2) by (auto simp: still_writing_def home_def turn_io_watching) (auto simp: turn_io_def on_conn_def next_tick_def)
    moreover have "delivering w m ?v" using quiet_delivering [OF assms(3), of ?v] by simp
    ultimately have "delivery E t w m ?v" by (simp add: delivery_def)
    then show ?thesis using blocked(1) by auto
  next
    case failed
    with failed_delivery [OF assms] show ?thesis by force
  qed
qed

lemma writeReady_delivery:
  assumes "base E w" and "watching w" and "io_cb (c_io (conn w)) = writeReady_cb"
    and "world_ok E" and "can_sign E t" and "remaining w < n"
  shows "\<exists>v. writeReady E t n w = Done v \<and> (\<exists>m. delivery E t w m v)"
  unfolding writeReady_def
proof (rule repeat_while_positive_ends
    [where I = "\<lambda>v. \<exists>m. base E v \<and> still_writing w m v \<and> delivering w m v" and m = remaining])
  show "\<exists>k v'. singleWrite E t v = Some (k, v') \<and>
      (if k > 0 then (\<exists>m. base E v' \<and> still_writing w m v' \<and> delivering w m v') \<and> remaining v' < remaining v
       else \<exists>m. delivery E t w m v')"
    if "\<exists>m. base E v \<and> still_writing w m v \<and> delivering w m v" for v
    using singleWrite_delivery [OF _ _ _ assms(4,5), of v w] that by blast
  show "\<exists>m. base E w \<and> still_writing w m w \<and> delivering w m w"
    using assms(1-3)
    by (intro exI [of _ 0]) (auto simp: still_writing_def delivering_def watching_def remaining_def Let_def)
qed (rule assms(6))

section \<open>Ends of connections\<close>

text \<open>One round of the read loop on a plain socket whose peer has closed, when nothing of the
  response has arrived.\<close>

definition idle_response :: "view \<Rightarrow> bool" where
  "idle_response w \<longleftrightarrow>
     (\<exists>s. c_socket (conn w) = Some (Plain s)) \<and> c_parser (conn w) = http_parser_init \<and>
     readBufPos (conn w) = 0 \<and> \<not> readDone (conn w) \<and> length (readBuf (conn w)) = kReadBufSize"

lemma singleRead_closed_peer:
  assumes "idle_response w" and "\<And>i n. on_sys (on_read E i n) = Returned 0"
  shows "\<exists>w'. singleRead E t w = Some (1, w') \<and> idle_response w' \<and> tallies w' = tallies w \<and>
    counters w' = counters w \<and> trace w' = trace w"
proof -
  obtain s where s: "c_socket (conn w) = Some (Plain s)" using assms(1) by (auto simp: idle_response_def)
  have r: "sock_read (errors E) (on_read E i n) (Plain s) = (Inr IO_OK, Some 0)" for i n
    using assms(2) by (simp add: sock_read_def Socket_read_def)
  show ?thesis
    using assms(1)
    by (auto simp: singleRead_def s r idle_response_def Let_def parse_response_def received_def kReadBufSize_def
        store_at_def recordRead_def view_simps) (simp add: http_parser_init_def)
qed

lemma unreachable_send:
  assumes "base E w" and "free w" and "needsOpen (conn w)" and "world_ok E"
    and "\<And>i. \<exists>e. on_socket (on_open E i) = Failed e"
  shows "\<exists>w'. ConnectAndSend E t w = Some w' \<and> base E w' \<and> delayed w' \<and> needsOpen (conn w') \<and>
    keepRunning w' = keepRunning w \<and> tallies w' = RecordSocketError (tallies w) \<and>
    timer_after (thinkTimer (conn w')) = kConnectFailureDelay"
proof -
  define w0 where "w0 = next_tick (on_conn (\<lambda>c. c\<lparr>c_startTime := on_time E (tick w)\<rparr>) w)"
  have w0: "base E w0" "needsOpen (conn w0)" using assms(1,3) by (simp_all add: w0_def)
  obtain err s n tr where c: "Connect E t w0 = Some (err, w0\<lparr>conn := (conn w0)\<lparr>c_socket := s\<rparr>, tick := n, trace := tr\<rparr>)"
    "err = 0 \<longrightarrow> s \<noteq> None" "err \<noteq> 0 \<longrightarrow> s = c_socket (conn w0)"
    by (rule Connect_ok [OF w0(1) assms(4), of t]) (rule that, assumption+)
  have sc: "\<not> ok st" if "Socket_connect M (on_open E i) a k = Some (st, s', cl)" for M i a k st s' cl
    using that assms(5) [of i] by (auto simp: Socket_connect_def Let_def)
  have tc: "\<not> ok st" if "connectTLS M (on_open E i) a k = Some (st, s', cl)" for M i a k st s' cl
    using that by (auto simp: connectTLS_def Let_def dest: sc split: Option.bind_splits if_splits)
  have "err \<noteq> 0"
    using c(1) by (auto simp: Connect_def Let_def dest: sc tc split: Option.bind_splits if_splits)
  then have "ConnectAndSend E t w =
      Some (sendAfterDelay kConnectFailureDelay (record_error (w0\<lparr>conn := (conn w0)\<lparr>c_socket := s\<rparr>, tick := n, trace := tr\<rparr>)))"
    using w0(2) c(1) by (simp add: ConnectAndSend_def w0_def [symmetric] Let_def)
  then show ?thesis
    using assms(1-3)
    by (simp add: delayed_def sendAfterDelay_def record_error_def w0_def on_conn_def next_tick_def base_def
        current_url_def free_def)
qed

section \<open>The end of a read loop\<close>

definition no_more_data :: "environment \<Rightarrow> nat \<Rightarrow> bool" where
  "no_more_data E i \<longleftrightarrow> (\<forall>len s. fst (sock_read (errors E) (on_read E i len) s) \<noteq> Inr IO_OK)"

definition reading :: "environment \<Rightarrow> view \<Rightarrow> bool" where
  "reading E w \<longleftrightarrow> base E w \<and> watching w \<and> io_cb (c_io (conn w)) = readReady_cb"

text \<open>A round that asks for another one has read something, in one tick.\<close>

lemma parse_response_again: "parse_response E t n w = Some (k, w') \<Longrightarrow> 0 < k \<Longrightarrow> tick w' = tick w"
  by (auto simp: parse_response_def Let_def on_conn_def split: Option.bind_splits prod.splits if_splits)

lemma singleRead_again:
  assumes "singleRead E t w = Some (k, w')" and "0 < k"
  shows "tick w' = Suc (tick w) \<and> \<not> no_more_data E (tick w)"
  using assms
  by (auto simp: singleRead_def Let_def no_more_data_def on_conn_def next_tick_def dest!: parse_response_again
      split: Option.bind_splits prod.splits sum.splits IOStatus.splits if_splits) (metis fst_conv)+

section \<open>Examples\<close>

definition io_ok :: "nat \<Rightarrow> io_answer" where
  "io_ok k = \<lparr>on_sys = Returned (int k), on_ssl = \<lparr>ssl_result = int k, ssl_error = 0, sent_shutdown = False\<rparr>,
     on_ssl_read = \<lparr>ssl_result = 0, ssl_error = 6, sent_shutdown = True\<rparr>, on_close = None\<rparr>"

definition example_env :: environment where
  "example_env =
     \<lparr>urls = \<lparr>all_urls = [example_url 80, (example_url 80)\<lparr>u_path := ''/long''\<rparr>], initialized = True\<rparr>,
      strings = absl_reference, errors = \<lparr>sys_message = show_int, tls_message = show_int\<rparr>,
      hmac_sha1 = (\<lambda>k b. b),
      on_time = int, on_rand = int, on_draw = (\<lambda>i lo hi. lo), on_open = (\<lambda>i. refused\<lparr>on_connect := None\<rparr>),
      on_write = (\<lambda>i n. io_ok (min n 20)), on_read = (\<lambda>i n. io_ok (min n 5)), on_shutdown = (\<lambda>i. io_ok 0),
      on_data = (\<lambda>i j. CHR ''x'')\<rparr>"

definition example_config :: IOConfig where
  "example_config =
     \<lparr>t_index = 0, numConnections = 1, httpVerb = ''GET'', sslCipher = [], sendData = [], oauth = None,
      headers = None, headersSet = 0, thinkTime = 0, noKeepAlive = False, verbose = False\<rparr>"

definition example_conn :: ConnectionState where
  "example_conn =
     (ConnectionState_new 0 (replicate kReadBufSize NUL))\<lparr>c_socket := Some (Plain \<lparr>fd = 7\<rparr>), c_url := Url_at 0,
      c_io := \<lparr>io_active = True, io_cb = writeReady_cb, io_fd = 7, io_events = EV_WRITE\<rparr>, writeDirty := False,
      fullWrite := ''GET / HTTP/1.1'' @ [CR, LF, CR, LF]\<rparr>"

definition example_view :: view where
  "example_view =
     \<lparr>conn = example_conn, keepRunning = 1, counters = new_Counters,
      tallies = \<lparr>reporting = True, socketErrors = 0, connectionsOpened = 0\<rparr>, tick = 0, trace = []\<rparr>"

lemma io_ok_allowed:
  "0 < k \<Longrightarrow> k \<le> n \<Longrightarrow> sock_write_allowed n s (io_ok k)" "k \<le> n \<Longrightarrow> sock_read_allowed n s (io_ok k)"
  by (cases s; simp add: io_ok_def sock_write_allowed_def sock_read_allowed_def sys_write_allowed_def
      sys_read_allowed_def ssl_allowed_def)+

lemma example_env_ok: "world_ok example_env"
  by (simp add: world_ok_def example_env_def io_ok_allowed url_ok_def example_url_def addr_ok_def)

lemma example_view_parked:
  "base example_env example_view" "watching example_view" "enabled Io_ready (conn example_view)"
  "io_cb (c_io (conn example_view)) = writeReady_cb" "parked example_env example_view"
  by (simp_all add: parked_def base_def watching_def enabled_def example_view_def example_conn_def
      ConnectionState_new_def current_url_def example_env_def rd_def in_bounds_def home_def sock_fd_def kReadBufSize_def)

lemma example_can_sign: "can_sign example_env example_config"
  by (rule can_sign_no_oauth) (simp add: example_config_def)

section \<open>The properties\<close>



text \<open>C7. A request is delivered whole, in order and once, however the socket cuts the writes: when the
  socket becomes writable, the handler ends within one round per byte left, exactly the next
  \<open>m\<close> bytes of the request have gone out and are counted, and then either the whole rest was sent
  and the connection reads the response with a fresh parser, or it waits to send from exactly
  that position, or a socket error was recorded and the connection given up before the end.\<close>

theorem request_delivered:
  assumes "parked E w" and "enabled Io_ready (conn w)" and "io_cb (c_io (conn w)) = writeReady_cb"
    and "world_ok E" and "can_sign E t" and "length (fullWrite (conn w)) - fullWritePos (conn w) < n"
  shows "\<exists>v m. writeReady E t n w = Done v \<and>
    sent (trace v) = sent (trace w) @ take m (drop (fullWritePos (conn w)) (fullWrite (conn w))) \<and>
    bytesWritten (counters v) = bytesWritten (counters w) + int m \<and>
    (m = remaining w \<and> reading_response v \<and> tallies v = tallies w \<or> still_writing w m v \<or>
     m < remaining w \<and> given_up E t w v)"
proof -
  have w: "base E w" "watching w" using parked_enabled [OF assms(1,2)] by simp_all
  obtain v m where "writeReady E t n w = Done v" "delivery E t w m v"
    using writeReady_delivery [OF w assms(3-5)] assms(6) unfolding remaining_def by blast
  then show ?thesis unfolding delivery_def delivering_def by blast
qed

lemma request_delivered_witness:
  "\<exists>v m. writeReady example_env example_config 19 example_view = Done v \<and>
    sent (trace v) = sent (trace example_view) @
      take m (drop (fullWritePos (conn example_view)) (fullWrite (conn example_view))) \<and>
    bytesWritten (counters v) = bytesWritten (counters example_view) + int m \<and>
    (m = remaining example_view \<and> reading_response v \<and> tallies v = tallies example_view \<or>
     still_writing example_view m v \<or> m < remaining example_view \<and> given_up example_env example_config example_view v)"
  by (rule request_delivered [OF example_view_parked(5,3,4) example_env_ok example_can_sign])
    (simp add: example_view_def example_conn_def ConnectionState_new_def)

text \<open>C25. What a request is: the bytes to send are the request text (request line, the headers that were
  not overridden, the user's headers, an empty line, the body) followed by whatever part of an
  earlier, longer request is still in the stream, because seeking to the start does not shorten
  it. The connection sends exactly the request text if and only if no earlier request was longer.\<close>

theorem request_bytes:
  assumes "writeRequest E t w = Some w'" and "writeDirty (conn w) \<or> oauth t \<noteq> None"
  shows "\<exists>u auth w1. current_url E w = Some u \<and> authorization E t u w = Some (auth, w1) \<and>
    fullWritePos (conn w') = 0 \<and>
    fullWrite (conn w') =
      request_text t u auth @ drop (length (request_text t u auth)) (chars (writeBuf (conn w))) \<and>
    (fullWrite (conn w') = request_text t u auth \<longleftrightarrow>
     length (chars (writeBuf (conn w))) \<le> length (request_text t u auth))"
proof -
  obtain u auth w1 where u: "current_url E w = Some u" "authorization E t u w = Some (auth, w1)"
    "w' = on_conn (\<lambda>c. c\<lparr>writeBuf := foldl put (seek_start (writeBuf (conn w1))) (request_pieces t u auth),
      fullWrite := chars (foldl put (seek_start (writeBuf (conn w1))) (request_pieces t u auth)),
      fullWritePos := 0, writeDirty := False\<rparr>) w1"
    using assms by (auto simp: writeRequest_def Let_def split: Option.bind_splits if_splits)
  have "conn w1 = conn w"
    using u(2) by (auto simp: authorization_def split: option.splits Option.bind_splits)
  then have "fullWrite (conn w') =
      request_text t u auth @ drop (length (request_text t u auth)) (chars (writeBuf (conn w)))"
    using u(3) puts_chars [of "seek_start (writeBuf (conn w))" "request_pieces t u auth"]
    by (simp add: seek_start_def request_text_def)
  then show ?thesis using u by auto
qed

definition example_reuse :: view where
  "example_reuse = on_conn (\<lambda>c. c\<lparr>writeDirty := True, writeBuf := \<lparr>chars = replicate 100 (CHR ''x''), put_pos = 100\<rparr>\<rparr>)
     example_view"

lemma request_bytes_witness:
  "\<exists>u auth w1. current_url example_env example_reuse = Some u \<and>
    authorization example_env example_config u example_reuse = Some (auth, w1) \<and>
    fullWritePos (conn (the (writeRequest example_env example_config example_reuse))) = 0 \<and>
    fullWrite (conn (the (writeRequest example_env example_config example_reuse))) =
      request_text example_config u auth @
      drop (length (request_text example_config u auth)) (chars (writeBuf (conn example_reuse))) \<and>
    (fullWrite (conn (the (writeRequest example_env example_config example_reuse))) = request_text example_config u auth \<longleftrightarrow>
     length (chars (writeBuf (conn example_reuse))) \<le> length (request_text example_config u auth))"
proof (rule request_bytes)
  have "base example_env example_reuse"
    using example_view_parked(1) by (simp add: example_reuse_def base_def current_url_def)
  then obtain w' where "writeRequest example_env example_config example_reuse = Some w'"
    by (rule writeRequest_ok [OF _ example_can_sign])
  then show "writeRequest example_env example_config example_reuse =
      Some (the (writeRequest example_env example_config example_reuse))" by simp
qed (simp add: example_reuse_def)

text \<open>C38. A server that closes an idle plain connection stops its thread: when the peer closes before
  any byte of the response, \<open>Socket::read\<close> reports 0 bytes as \<open>OK\<close>, the parser accepts the empty
  input without an error, and the read loop never returns. It counts no error and no result, and
  its thread handles no other event.\<close>

theorem closed_peer_spins:
  assumes "reading_response w" and "c_socket (conn w) = Some (Plain s)" and "readBufPos (conn w) = 0"
    and "length (readBuf (conn w)) = kReadBufSize" and "\<And>i k. on_sys (on_read E i k) = Returned 0"
  shows "\<exists>w'. readReady E t n w = Still_running w' \<and> tallies w' = tallies w \<and> counters w' = counters w"
proof -
  have "\<exists>w'. readReady E t n v = Still_running w' \<and> tallies w' = tallies v \<and> counters w' = counters v"
    if "idle_response v" for v
    using that
  proof (induction n arbitrary: v)
    case (Suc n)
    obtain v' where v': "singleRead E t v = Some (1, v')" "idle_response v'" "tallies v' = tallies v" "counters v' = counters v"
      using singleRead_closed_peer [OF Suc.prems assms(5)] by blast
    then show ?case using Suc.IH [of v'] by (simp add: readReady_def)
  qed (simp add: readReady_def)
  moreover have "idle_response w"
    using assms by (simp add: idle_response_def reading_response_def)
  ultimately show ?thesis by blast
qed

definition example_closed :: view where
  "example_closed = on_conn (\<lambda>c. c\<lparr>c_io := \<lparr>io_active = True, io_cb = readReady_cb, io_fd = 7, io_events = EV_READ\<rparr>\<rparr>)
     example_view"

lemma closed_peer_spins_witness:
  "\<exists>w'. readReady (example_env\<lparr>on_read := \<lambda>i k. io_ok 0\<rparr>) example_config 1000 example_closed = Still_running w' \<and>
    tallies w' = tallies example_closed \<and> counters w' = counters example_closed"
  by (rule closed_peer_spins [of _ "\<lparr>fd = 7\<rparr>"])
    (simp_all add: reading_response_def watching_def example_closed_def example_view_def example_conn_def
      ConnectionState_new_def home_def sock_fd_def io_ok_def on_conn_def)

text \<open>C9. Reading a response ends once the network has nothing more to give. When the socket becomes
  readable and the reads deliver data at most \<open>k\<close> times before one would block, fails or reports
  the end of a TLS stream, the read handler ends within \<open>k + 1\<close> rounds, whatever the data are and
  however the parser takes them, and leaves the connection parked.\<close>

theorem response_read_ends:
  assumes "parked E w" and "enabled Io_ready (conn w)" and "io_cb (c_io (conn w)) = readReady_cb"
    and "world_ok E" and "can_sign E t" and "no_more_data E (tick w + k)" and "k < n"
  shows "\<exists>v. readReady E t n w = Done v \<and> parked E v"
  unfolding readReady_def
proof (rule repeat_while_positive_ends [where I = "\<lambda>v. reading E v \<and> tick v \<le> tick w + k" and m = "\<lambda>v. tick w + k - tick v"])
  fix v assume v: "reading E v \<and> tick v \<le> tick w + k"
  then obtain j v' where j: "singleRead E t v = Some (j, v')" "if j > 0 then reading E v' else parked E v'"
    using singleRead_round [of E v t] assms(4,5) unfolding reading_def by blast
  have "tick v' = Suc (tick v) \<and> tick v \<noteq> tick w + k" if "j > 0"
    using singleRead_again [OF j(1) that] assms(6) by metis
  with j v show "\<exists>j v'. singleRead E t v = Some (j, v') \<and>
      (if j > 0 then (reading E v' \<and> tick v' \<le> tick w + k) \<and> tick w + k - tick v' < tick w + k - tick v
       else parked E v')"
    by (intro exI [of _ j] exI [of _ v']) auto
next
  show "reading E w \<and> tick w \<le> tick w + k"
    using parked_enabled [OF assms(1,2)] assms(3) by (simp add: reading_def)
qed (use assms(7) in simp)

text \<open>Three reads deliver, and then the socket would block.\<close>

definition example_blocking :: environment where
  "example_blocking = example_env\<lparr>on_read := \<lambda>i k. if i < 3 then io_ok (min k 5)
     else (io_ok 0)\<lparr>on_sys := Failed EAGAIN, on_ssl := \<lparr>ssl_result = - 1, ssl_error = SSL_ERROR_WANT_READ, sent_shutdown = False\<rparr>\<rparr>\<rparr>"

lemma response_read_ends_witness:
  "\<exists>v. readReady example_blocking example_config 4 example_closed = Done v \<and> parked example_blocking v"
proof (rule response_read_ends)
  show "parked example_blocking example_closed" "enabled Io_ready (conn example_closed)"
    "io_cb (c_io (conn example_closed)) = readReady_cb"
    by (simp_all add: parked_def base_def watching_def enabled_def example_closed_def example_view_def example_conn_def on_conn_def
        ConnectionState_new_def current_url_def example_blocking_def example_env_def rd_def in_bounds_def home_def sock_fd_def kReadBufSize_def)
  show "world_ok example_blocking"
    using example_env_ok io_ok_allowed by (auto simp: world_ok_def example_blocking_def sock_read_allowed_def
        sys_read_allowed_def ssl_allowed_def io_ok_def split: sock.splits)
  show "can_sign example_blocking example_config"
    by (rule can_sign_no_oauth) (simp add: example_config_def)
  show "no_more_data example_blocking (tick example_closed + 3)"
    by (auto simp: no_more_data_def example_blocking_def transfer_defs EAGAIN_def SSL_ERROR_WANT_READ_def
        split: sock.splits)
qed simp

text \<open>An unreachable server is retried for ever, even in the mode for a single request: a connection
  that has to be opened and whose every attempt fails is waiting for its quarter-second timer
  again after any number of expirations, with one more socket error each time, although the
  thread was told not to keep running.\<close>

theorem unreachable_server_retried:
  assumes "base E w" and "delayed w" and "needsOpen (conn w)" and "world_ok E"
    and "\<And>i. \<exists>e. on_socket (on_open E i) = Failed e" and "keepRunning w = 0" and "reporting (tallies w)"
  shows "\<exists>w'. ((\<lambda>x. Option.bind x (thinkingDone E t)) ^^ n) (Some w) = Some w' \<and> delayed w' \<and> keepRunning w' = 0 \<and>
    socketErrors (tallies w') = socketErrors (tallies w) + int n"
proof -
  have "\<exists>w'. ((\<lambda>x. Option.bind x (thinkingDone E t)) ^^ n) (Some w) = Some w' \<and> base E w' \<and> delayed w' \<and>
      needsOpen (conn w') \<and> keepRunning w' = 0 \<and> reporting (tallies w') \<and>
      socketErrors (tallies w') = socketErrors (tallies w) + int n"
  proof (induction n)
    case 0
    then show ?case using assms by simp
  next
    case (Suc n)
    then obtain v where v: "((\<lambda>x. Option.bind x (thinkingDone E t)) ^^ n) (Some w) = Some v" "base E v" "delayed v"
      "needsOpen (conn v)" "keepRunning v = 0" "reporting (tallies v)"
      "socketErrors (tallies v) = socketErrors (tallies w) + int n" by blast
    let ?v = "on_conn (\<lambda>c. c\<lparr>thinkTimer := (thinkTimer c)\<lparr>timer_active := False\<rparr>\<rparr>) v"
    have "base E ?v" "free ?v" "needsOpen (conn ?v)"
      using v by (simp_all add: free_def delayed_def) (simp add: base_def current_url_def)
    then obtain v' where "thinkingDone E t v = Some v'" "base E v'" "delayed v'" "needsOpen (conn v')"
      "keepRunning v' = keepRunning v" "tallies v' = RecordSocketError (tallies v)"
      using unreachable_send [OF _ _ _ assms(4,5), of ?v t] unfolding thinkingDone_def
      by (auto simp: on_conn_def)
    then show ?case using v by (simp add: RecordSocketError_def)
  qed
  then show ?thesis by blast
qed

definition example_unreachable :: environment where
  "example_unreachable = example_env\<lparr>on_open := \<lambda>i. refused\<lparr>on_socket := Failed 24\<rparr>\<rparr>"

definition example_delayed :: view where
  "example_delayed = (on_conn (\<lambda>c. (ConnectionState_new 0 (replicate kReadBufSize NUL))\<lparr>c_url := Url_at 0,
     thinkTimer := \<lparr>timer_active = True, timer_after = kConnectFailureDelay\<rparr>, needsOpen := True\<rparr>) example_view)
     \<lparr>keepRunning := 0\<rparr>"

lemma unreachable_server_retried_witness:
  "\<exists>w'. ((\<lambda>x. Option.bind x (thinkingDone example_unreachable example_config)) ^^ 1000) (Some example_delayed) = Some w' \<and>
    delayed w' \<and> keepRunning w' = 0 \<and> socketErrors (tallies w') = socketErrors (tallies example_delayed) + int 1000"
proof (rule unreachable_server_retried)
  show "world_ok example_unreachable"
    using example_env_ok by (simp add: world_ok_def example_unreachable_def)
qed (simp_all add: example_unreachable_def example_env_def example_delayed_def example_view_def delayed_def base_def
      current_url_def rd_def in_bounds_def on_conn_def ConnectionState_new_def kReadBufSize_def)

text \<open>A server that keeps the connection gets the next request on it, when there is one URL.\<close>

lemma ReadDone_reuse:
  assumes "base E w" and "free w" and "c_socket (conn w) \<noteq> None" and "world_ok E" and "can_sign E t"
    and "length (all_urls (urls E)) = 1" and "c_url (conn w) = Url_at 0" and "http_should_keep_alive (c_parser (conn w))"
    and "\<not> noKeepAlive t" and "thinkTime t = 0" and "shouldKeepRunning w"
  shows "\<exists>v. ReadDone E t 0 w = Some v \<and> watching v \<and> io_cb (c_io (conn v)) = writeReady_cb \<and>
    c_socket (conn v) = c_socket (conn w) \<and> c_keepRunning (conn v) = c_keepRunning (conn w) \<and> trace v = trace w"
proof -
  define w1 where "w1 = next_tick (w\<lparr>counters :=
      recordResult (int (status_code (c_parser (conn w)))) (on_time E (tick w) - c_startTime (conn w)) (counters w)\<rparr>)"
  obtain u where u: "current_url E w = Some u" using assms(1) by (auto simp: base_def)
  have w1: "current_url E w1 = Some u" "conn w1 = conn w" "base E w1" "free w1" "keepRunning w1 = keepRunning w" "trace w1 = trace w"
    using u assms(1,2) by (simp_all add: w1_def) (simp_all add: current_url_def base_def free_def)
  have nxt: "GetNext (on_draw E (tick w1)) (urls E) = Some (Url_at 0)"
    using assms(6) by (cases "all_urls (urls E)") (simp_all add: GetNext_def)
  define w2 where "w2 = next_tick (on_conn (\<lambda>c. c\<lparr>c_url := Url_at 0\<rparr>) w1)"
  have "conn w1 = (conn w1)\<lparr>c_url := Url_at 0\<rparr>" using w1(2) assms(7) by simp
  then have w2: "conn w2 = conn w1" "base E w2" "free w2" "current_url E w2 = Some u" "keepRunning w2 = keepRunning w" "trace w2 = trace w"
    using w1 by (simp_all add: w2_def on_conn_def) (simp_all add: base_def free_def current_url_def)
  have "url_ok u" using world_okD(4) [OF assms(4)] current_url_mem [OF u] by simp
  then obtain same where "IsSameServer u u (t_index t) = Some same" using IsSameServer_defined by blast
  then have same: "IsSameServer u u (t_index t) = Some True"
    by (auto simp: IsSameServer_def eq_addr_def split: Option.bind_splits if_splits)
  define w3 where "w3 = next_tick (on_conn (\<lambda>c. c\<lparr>needsOpen := False, c_startTime := on_time E (tick w2)\<rparr>) w2)"
  have w3: "base E w3" "c_socket (conn w3) = c_socket (conn w)" "\<not> timer_active (thinkTimer (conn w3))"
    "c_keepRunning (conn w3) = c_keepRunning (conn w)" "trace w3 = trace w"
    using w2 w1(2) assms(2) by (simp_all add: w3_def free_def) (simp_all add: base_def current_url_def on_conn_def)
  have run: "ReadDone E t 0 w = Option.bind (writeRequest E t w3) SendWrite"
    using assms(8-11) w1 w2 nxt same
    by (simp add: ReadDone_def Let_def w1_def [symmetric] w2_def [symmetric] recycle_def shouldKeepRunning_def
        ConnectAndSend_def del: current_url_simps) (simp add: w3_def on_conn_def next_tick_def)
  obtain w4 where w4: "writeRequest E t w3 = Some w4" "fullWrite (conn w4) \<noteq> []" "fullWritePos (conn w4) = 0"
    "c_socket (conn w4) = c_socket (conn w3)" "thinkTimer (conn w4) = thinkTimer (conn w3)"
    "c_keepRunning (conn w4) = c_keepRunning (conn w3)" "trace w4 = trace w3"
    by (rule writeRequest_ok [OF w3(1) assms(5)])
  obtain k where k: "c_socket (conn w4) = Some k" using assms(3) w4(4) w3(2) by auto
  then have kw: "c_socket (conn w) = Some k" using w4(4) w3(2) by simp
  let ?v = "on_conn (\<lambda>c. c\<lparr>c_io := \<lparr>io_active = True, io_cb = writeReady_cb, io_fd = sock_fd k, io_events = EV_WRITE\<rparr>,
    backwardsIo := False\<rparr>) w4"
  have "ReadDone E t 0 w = Some ?v"
    using run w4(1) k by (simp add: SendWrite_def start_io_def on_conn_def)
  moreover have "watching ?v" "io_cb (c_io (conn ?v)) = writeReady_cb" "c_socket (conn ?v) = c_socket (conn w)"
    "c_keepRunning (conn ?v) = c_keepRunning (conn w)" "trace ?v = trace w"
    using w4(2,3,5,6,7) k kw w3(3-5) by (simp_all add: watching_def home_def Let_def) (simp add: on_conn_def)
  ultimately show ?thesis by blast
qed

text \<open>Reducing the number of connections does not end a connection that is kept alive: after a
  response, \<open>recycle\<close> asks only whether the thread is to keep running, so a connection that was
  told to stop sends its next request on the same socket and is told apart by nothing.\<close>

theorem stop_request_ignored:
  assumes "base E w" and "free w" and "c_socket (conn w) \<noteq> None" and "world_ok E" and "can_sign E t"
    and "length (all_urls (urls E)) = 1" and "c_url (conn w) = Url_at 0" and "http_should_keep_alive (c_parser (conn w))"
    and "\<not> noKeepAlive t" and "thinkTime t = 0" and "shouldKeepRunning w" and "\<not> c_keepRunning (conn w)"
  shows "\<exists>w'. ReadDone E t 0 w = Some w' \<and> watching w' \<and> io_cb (c_io (conn w')) = writeReady_cb \<and>
    c_socket (conn w') = c_socket (conn w) \<and> \<not> c_keepRunning (conn w')"
  using ReadDone_reuse [OF assms(1-11)] assms(12) by auto

definition example_stopped :: view where
  "example_stopped = on_conn (\<lambda>c. c\<lparr>c_io := (c_io c)\<lparr>io_active := False\<rparr>, c_keepRunning := False,
     c_parser := http_parser_init\<lparr>http_major := 1, http_minor := 1, status_code := 200, pstate := s_start_res\<rparr>\<rparr>)
     example_view"

lemma stop_request_ignored_witness:
  "\<exists>w'. ReadDone (example_env\<lparr>urls := \<lparr>all_urls = [example_url 80], initialized = True\<rparr>\<rparr>) example_config 0
      example_stopped = Some w' \<and>
    watching w' \<and> io_cb (c_io (conn w')) = writeReady_cb \<and>
    c_socket (conn w') = c_socket (conn example_stopped) \<and> \<not> c_keepRunning (conn w')"
proof (rule stop_request_ignored)
  show "world_ok (example_env\<lparr>urls := \<lparr>all_urls = [example_url 80], initialized = True\<rparr>\<rparr>)"
    using example_env_ok by (simp add: world_ok_def url_ok_def example_url_def addr_ok_def)
  show "can_sign (example_env\<lparr>urls := \<lparr>all_urls = [example_url 80], initialized = True\<rparr>\<rparr>) example_config"
    by (rule can_sign_no_oauth) (simp add: example_config_def)
qed (simp_all add: example_stopped_def example_view_def example_conn_def ConnectionState_new_def base_def free_def
      current_url_def rd_def in_bounds_def on_conn_def http_should_keep_alive_def http_message_needs_eof_def
      http_parser_init_def ULLONG_MAX_def example_config_def shouldKeepRunning_def kReadBufSize_def parser_ok_def state_ok_def)

end
