(* ===== verification/Responses.thy ===== *)
theory Responses
  imports Requests Http_Response
begin

text \<open>
  A connection reads a response: the read handler, the parser and the counters together. Whatever
  blocks the network delivers a response in, it becomes exactly one result.
\<close>

section \<open>What reading leaves alone\<close>

definition same_counts :: "view \<Rightarrow> view \<Rightarrow> bool" where
  "same_counts w v \<longleftrightarrow> counters v = counters w"

definition trace_grows :: "view \<Rightarrow> view \<Rightarrow> bool" where
  "trace_grows w v \<longleftrightarrow> prefix (trace w) (trace v)"

interpretation counting: sending_frame same_counts
  by unfold_locales (simp_all add: same_counts_def view_simps opened_def)

interpretation tracing: sending_frame trace_grows
  by unfold_locales (auto simp: trace_grows_def view_simps opened_def prefix_def)

section \<open>A block of a response\<close>

text \<open>The network delivers the blocks one after the other, each to one read of a whole buffer.\<close>

definition network_delivers :: "environment \<Rightarrow> nat \<Rightarrow> sock \<Rightarrow> string list \<Rightarrow> bool" where
  "network_delivers E i s bs \<longleftrightarrow>
     (\<forall>k < length bs. sock_read (errors E) (on_read E (i + k) kReadBufSize) s = (Inr IO_OK, Some (length (bs ! k))) \<and>
       received E (i + k) (length (bs ! k)) = bs ! k)"

definition read_ok :: "string \<Rightarrow> bool" where
  "read_ok b \<longleftrightarrow> b \<noteq> [] \<and> length b \<le> kReadBufSize"

lemma read_ok_block: "read_ok b \<Longrightarrow> block_ok b"
  by (simp add: read_ok_def block_ok_def kReadBufSize_def max_header_size_def)

lemma network_delivers_Cons:
  assumes "network_delivers E i s (b # bs)"
  shows "sock_read (errors E) (on_read E i kReadBufSize) s = (Inr IO_OK, Some (length b))" "received E i (length b) = b"
    "network_delivers E (Suc i) s bs"
  using assms unfolding network_delivers_def by (auto dest: spec[of _ 0] spec[of _ "Suc _"])

text \<open>The connection after a block.\<close>

definition took :: "string \<Rightarrow> http_parser \<Rightarrow> bool \<Rightarrow> view \<Rightarrow> view" where
  "took b q m w =
     on_conn (\<lambda>c. c\<lparr>readBuf := store_at (readBuf c) 0 b, c_parser := q, readDone := m, readBufPos := 0\<rparr>)
       ((next_tick w)\<lparr>counters := recordRead (length b) (counters w)\<rparr>)"

lemma took_simps [simp]:
  "conn (took b q m w) = (conn w)\<lparr>readBuf := store_at (readBuf (conn w)) 0 b, c_parser := q, readDone := m, readBufPos := 0\<rparr>"
  "tick (took b q m w) = Suc (tick w)" "counters (took b q m w) = recordRead (length b) (counters w)"
  "trace (took b q m w) = trace w" "keepRunning (took b q m w) = keepRunning w" "tallies (took b q m w) = tallies w"
  by (simp_all add: took_def on_conn_def next_tick_def)

lemma parse_response_block:
  assumes "http_parser_execute (c_parser (conn w)) b = Some (q, length b, m)" "http_errno q = 0" "\<not> readDone (conn w)"
    and "take (length b) (readBuf (conn w)) = b"
  shows "parse_response E t (length b) w =
    (let u = on_conn (\<lambda>c. c\<lparr>c_parser := q, readDone := m, readBufPos := 0\<rparr>) w
     in if m then map_option (Pair 0) (ReadDone E t 0 (stop_io u)) else Some (1, u))"
  using assms by (simp add: parse_response_def on_conn_def Let_def)

lemma singleRead_block:
  assumes "c_socket (conn w) = Some s" "readBufPos (conn w) = 0" "length (readBuf (conn w)) = kReadBufSize" "\<not> readDone (conn w)"
    and "sock_read (errors E) (on_read E (tick w) kReadBufSize) s = (Inr IO_OK, Some (length b))"
    and "received E (tick w) (length b) = b" "length b \<le> kReadBufSize"
    and "http_parser_execute (c_parser (conn w)) b = Some (q, length b, m)" "http_errno q = 0"
  shows "singleRead E t w =
    (if m then map_option (Pair 0) (ReadDone E t 0 (stop_io (took b q m w))) else Some (1, took b q m w))"
proof -
  let ?v = "on_conn (\<lambda>c. c\<lparr>readBuf := store_at (readBuf c) 0 b\<rparr>) ((next_tick w)\<lparr>counters := recordRead (length b) (counters w)\<rparr>)"
  have size: "kReadBufSize \<noteq> 0" by (simp add: kReadBufSize_def)
  have "singleRead E t w = parse_response E t (length b) ?v"
    using assms(1,2,5,6) size by (simp add: singleRead_def on_conn_def next_tick_def Let_def)
  moreover have "take (length b) (readBuf (conn ?v)) = b"
    using assms(3,7) by (simp add: store_at_def on_conn_def next_tick_def)
  then have "parse_response E t (length b) ?v =
    (let u = on_conn (\<lambda>c. c\<lparr>c_parser := q, readDone := m, readBufPos := 0\<rparr>) ?v
     in if m then map_option (Pair 0) (ReadDone E t 0 (stop_io u)) else Some (1, u))"
    using assms(4,8,9) by (intro parse_response_block) (simp_all add: on_conn_def next_tick_def)
  moreover have "on_conn (\<lambda>c. c\<lparr>c_parser := q, readDone := m, readBufPos := 0\<rparr>) ?v = took b q m w"
    by (simp add: took_def on_conn_def)
  ultimately show ?thesis by (simp only: Let_def)
qed

section \<open>A whole response\<close>

text \<open>When the last block has been read, the result is recorded.\<close>

definition read_through :: "environment \<Rightarrow> IOConfig \<Rightarrow> string list \<Rightarrow> http_parser \<Rightarrow> view \<Rightarrow> view \<Rightarrow> view \<Rightarrow> bool" where
  "read_through E t bs q w u v \<longleftrightarrow>
     ReadDone E t 0 (stop_io u) = Some v \<and> c_parser (conn u) = q \<and> counters u = fold recordRead (map length bs) (counters w) \<and>
     trace u = trace w \<and> tick u = tick w + length bs \<and> c_startTime (conn u) = c_startTime (conn w) \<and>
     c_socket (conn u) = c_socket (conn w) \<and> keepRunning u = keepRunning w \<and> c_url (conn u) = c_url (conn w) \<and> base E u \<and>
     \<not> timer_active (thinkTimer (conn u))"

lemma readReady_blocks:
  assumes "base E w" "watching w" "io_cb (c_io (conn w)) = readReady_cb" "world_ok E" "can_sign E t"
    and "c_socket (conn w) = Some s" "readBufPos (conn w) = 0" "\<not> readDone (conn w)"
    and "network_delivers E (tick w) s bs" "list_all read_ok bs" "length bs \<le> n"
    and "http_errno (c_parser (conn w)) = 0" "state_ok (c_parser (conn w))" "upgrade_ok (c_parser (conn w))"
    and "feed (c_parser (conn w)) (concat bs) = Some (q, True)"
    and "\<forall>k < length bs. \<exists>p. feed (c_parser (conn w)) (concat (take k bs)) = Some (p, False)"
  shows "\<exists>u v. readReady E t n w = Done v \<and> parked E v \<and> read_through E t bs q w u v"
  using assms
proof (induction bs arbitrary: w n)
  case (Cons b bs)
  let ?p = "c_parser (conn w)"
  obtain n' where n: "n = Suc n'" using Cons.prems(11) by (cases n) auto
  note blk = network_delivers_Cons[OF Cons.prems(9)]
  have b: "block_ok b" "length b \<le> kReadBufSize" using Cons.prems(10) read_ok_block by (auto simp: read_ok_def)
  obtain q1 m where q1: "feed ?p b = Some (q1, m)"
    using Cons.prems(15) by (auto simp: feed_append split: Option.bind_splits)
  have ex: "http_parser_execute ?p b = Some (q1, length b, m)" "http_errno q1 = 0"
    using execute_feed[OF Cons.prems(12-14) b(1)] q1 by simp_all
  have q1_ok: "state_ok q1" "upgrade_ok q1"
    using feed_ok[OF Cons.prems(12,13) q1] feed_upgrade[OF Cons.prems(14,13,12) q1] by simp_all
  have len: "length (readBuf (conn w)) = kReadBufSize" using Cons.prems(1) by (simp add: base_def)
  have step: "singleRead E t w =
      (if m then map_option (Pair 0) (ReadDone E t 0 (stop_io (took b q1 m w))) else Some (1, took b q1 m w))"
    using singleRead_block[OF Cons.prems(6,7) len Cons.prems(8) blk(1,2) b(2) ex] .
  obtain k w' where round: "singleRead E t w = Some (k, w')"
      "if k > 0 then base E w' \<and> watching w' \<and> io_cb (c_io (conn w')) = readReady_cb else parked E w'"
    using singleRead_round[OF Cons.prems(1-5)] by blast
  show ?case
  proof (cases bs)
    case Nil
    then have q: "q1 = q" "m = True" using Cons.prems(15) q1 by simp_all
    have w': "ReadDone E t 0 (stop_io (took b q1 m w)) = Some w'" "k = 0"
      using step round(1) q by (cases "ReadDone E t 0 (stop_io (took b q True w))"; simp)+
    have "base E (took b q1 m w)"
      using Cons.prems(1) len b(2) q1_ok
      by (simp add: base_def current_url_def parser_ok_def length_store_at_same)
    then have "read_through E t (b # bs) q w (took b q1 m w) w'"
      using Nil q w' Cons.prems(2) by (simp add: read_through_def watching_def Let_def)
    moreover have "readReady E t n w = Done w'"
      using n round(1) w'(2) by (simp add: readReady_def)
    ultimately show ?thesis using round(2) w'(2) by auto
  next
    case (Cons c cs)
    obtain p where "feed ?p (concat (take 1 (b # bs))) = Some (p, False)"
      using Cons.prems(16) Cons by (metis length_Cons one_less_numeral_iff Suc_less_eq zero_less_Suc One_nat_def)
    then have m: "m = False" using q1 by simp
    let ?w = "took b q1 m w"
    have w': "w' = ?w" "k = 1" using step round(1) m by simp_all
    have rest: "feed q1 (concat bs) = Some (q, True)"
      using Cons.prems(15) q1 m by (auto simp: feed_append split: Option.bind_splits)
    have pre: "\<exists>p. feed q1 (concat (take k bs)) = Some (p, False)" if "k < length bs" for k
    proof -
      have "\<exists>p. feed ?p (concat (take (Suc k) (b # bs))) = Some (p, False)" using Cons.prems(16) that by (metis Suc_less_eq length_Cons)
      then show ?thesis using q1 m by (auto simp: feed_append split: Option.bind_splits)
    qed
    have "\<exists>u v. readReady E t n' ?w = Done v \<and> parked E v \<and> read_through E t bs q ?w u v"
      using round(2) w' Cons.prems blk(3) n q1_ok ex(2) rest pre m by (intro Cons.IH) auto
    then show ?thesis
      using n round(1) w' Cons.prems(6) by (auto simp: readReady_def read_through_def)
  qed
qed simp

section \<open>The result\<close>

lemma ReadDone_counts:
  assumes "ReadDone E t 0 u = Some v"
  shows "counters v = recordResult (int (status_code (c_parser (conn u)))) (on_time E (tick u) - c_startTime (conn u)) (counters u)"
proof -
  define w1 where "w1 = next_tick (u\<lparr>counters :=
      recordResult (int (status_code (c_parser (conn u)))) (on_time E (tick u) - c_startTime (conn u)) (counters u)\<rparr>)"
  have "same_counts w1 v"
    using assms
    by (auto simp: ReadDone_def w1_def[symmetric] Let_def elim!: counting.recycle split: Option.bind_splits if_splits)
  then show ?thesis by (simp add: same_counts_def w1_def next_tick_def)
qed

lemma ReadDone_closes:
  assumes "ReadDone E t 0 u = Some v" "\<not> http_should_keep_alive (c_parser (conn u))" "c_socket (conn u) = Some (Plain s)"
  shows "prefix (trace u @ [Closed (fd s)]) (trace v)"
proof -
  define w1 where "w1 = on_conn (\<lambda>c. c\<lparr>needsOpen := True\<rparr>) (next_tick (u\<lparr>counters :=
      recordResult (int (status_code (c_parser (conn u)))) (on_time E (tick u) - c_startTime (conn u)) (counters u)\<rparr>))"
  have w1: "c_socket (conn w1) = Some (Plain s)" "trace w1 = trace u"
    using assms(3) by (simp_all add: w1_def on_conn_def next_tick_def)
  let ?w2 = "close_all [fd s] (next_tick (on_conn (\<lambda>c. c\<lparr>c_socket := Some (Plain (s\<lparr>fd := 0\<rparr>))\<rparr>) w1))"
  have "Close E t w1 = Some v"
    using assms(1,2) by (simp add: ReadDone_def recycle_def w1_def next_tick_def Let_def)
  then have "CloseDone E t (reset_socket (stop_io ?w2)) = Some v \<or> CloseDone E t (reset_socket ?w2) = Some v"
    using w1(1) by (auto simp: Close_def sock_close_def Socket_close_def split: option.splits)
  moreover have "trace_grows ?w2 (reset_socket (stop_io ?w2))" "trace_grows ?w2 (reset_socket ?w2)"
    by (intro tracing.effectsI tracing.refl)+
  ultimately have "trace_grows ?w2 v" using tracing.CloseDone by blast
  moreover have "trace ?w2 = trace u @ [Closed (fd s)]" using w1(2) by (simp add: close_all_def on_conn_def next_tick_def)
  ultimately show ?thesis by (simp add: trace_grows_def)
qed


text \<open>A network that delivers a response in two blocks.\<close>

definition example_blocks :: "string list" where
  "example_blocks = [take 30 (response_text example_response), drop 30 (response_text example_response)]"

definition example_net :: environment where
  "example_net = example_env\<lparr>urls := \<lparr>all_urls = [example_url 80], initialized = True\<rparr>,
     on_read := \<lambda>i n. io_ok (min n (length (example_blocks ! (i mod 2)))), on_data := \<lambda>i j. example_blocks ! (i mod 2) ! j\<rparr>"

lemma example_blocks_ok: "list_all read_ok example_blocks"
proof -
  have "30 < length (response_text example_response)" "length (response_text example_response) \<le> 200"
    using example_response_length by simp_all
  then show ?thesis by (auto simp: example_blocks_def read_ok_def kReadBufSize_def)
qed

lemma example_net_delivers: "network_delivers example_net 0 (Plain k) example_blocks"
  unfolding network_delivers_def
proof (intro allI impI conjI)
  fix j assume j: "j < length example_blocks"
  then have small: "length (example_blocks ! j) \<le> kReadBufSize" "j mod 2 = j"
    using example_blocks_ok by (auto simp: list_all_length read_ok_def) (simp add: example_blocks_def)
  then show "sock_read (errors example_net) (on_read example_net (0 + j) kReadBufSize) (Plain k) =
      (Inr IO_OK, Some (length (example_blocks ! j)))"
    by (simp add: example_net_def sock_read_def Socket_read_def io_ok_def)
  show "received example_net (0 + j) (length (example_blocks ! j)) = example_blocks ! j"
    using small(2) by (simp add: received_def example_net_def map_nth)
qed

lemma example_net_ok: "world_ok example_net"
  using example_env_ok by (simp add: world_ok_def example_net_def io_ok_allowed url_ok_def example_url_def addr_ok_def)


end
