(* ===== verification/IOThread.thy ===== *)
theory IOThread
  imports Requests
begin

text \<open>
  An I/O thread: class \<^verbatim>\<open>IOThread\<close> of \<^verbatim>\<open>apib/apib_iothread.{h,cc}\<close>. Its event loop runs the
  handlers of its connections and of the commands the main thread sends. Everything it owns is
  a record; connections are never freed while it runs, so an object is its position in the list
  of all connections created, and \<^verbatim>\<open>connections_\<close> is a list of positions.
\<close>

unbundle bit_operations_syntax

section \<open>State\<close>

text \<open>
  \<open>refs\<close> is the part of libev's count of active watchers that is not a connection's watcher or
  timer. The event loop runs until the count is zero or it is broken. \<open>async_pending\<close>: a wakeup
  was sent. \<open>shutdownTimer\<close> is the time of the timer, if it is active.
\<close>

record Thread =
  config :: IOConfig
  conns :: "ConnectionState list"
  connections :: "nat list"
  commands :: CommandQueue
  th_keepRunning :: int
  th_counters :: Counters
  th_tallies :: Tallies
  th_tick :: nat
  th_trace :: "net_event list"
  refs :: int
  async_pending :: bool
  shutdownTimer :: "int option"
  broken :: bool

definition view_of :: "Thread \<Rightarrow> nat \<Rightarrow> view" where
  "view_of T i =
     \<lparr>conn = conns T ! i, keepRunning = th_keepRunning T, counters = th_counters T, tallies = th_tallies T,
      tick = th_tick T, trace = th_trace T\<rparr>"

definition put_view :: "Thread \<Rightarrow> nat \<Rightarrow> view \<Rightarrow> Thread" where
  "put_view T i w =
     T\<lparr>conns := (conns T)[i := conn w], th_keepRunning := keepRunning w, th_counters := counters w,
       th_tallies := tallies w, th_tick := tick w, th_trace := trace w\<rparr>"

section \<open>Connections\<close>

text \<open>A new connection, whose buffer is whatever its memory held, joins the thread and starts.\<close>

definition start_connection :: "environment \<Rightarrow> Thread \<Rightarrow> Thread option" where
  "start_connection E T = do {
     let id = length (conns T);
     let c = ConnectionState_new (int (length (connections T))) (received E (th_tick T) kReadBufSize);
     let T1 = T\<lparr>conns := conns T @ [c], connections := connections T @ [id]\<rparr>;
     w \<leftarrow> StartConnect E (config T) (view_of T1 id);
     Some (put_view T1 id w)
   }"

fun start_connections :: "environment \<Rightarrow> nat \<Rightarrow> Thread \<Rightarrow> Thread option" where
  "start_connections E 0 T = Some T"
| "start_connections E (Suc n) T = Option.bind (start_connection E T) (start_connections E n)"

definition stopRunning :: "ConnectionState \<Rightarrow> ConnectionState" where
  "stopRunning c = c\<lparr>c_keepRunning := False\<rparr>"

definition stop_last :: "Thread \<Rightarrow> Thread" where
  "stop_last T =
     (let id = last (connections T)
      in T\<lparr>conns := (conns T)[id := stopRunning (conns T ! id)], connections := butlast (connections T)\<rparr>)"

text \<open>The argument is converted to \<^verbatim>\<open>size_t\<close> at the call.\<close>

definition setNumConnections :: "environment \<Rightarrow> nat \<Rightarrow> Thread \<Rightarrow> Thread option" where
  "setNumConnections E newVal T =
     (if newVal > length (connections T) then start_connections E (newVal - length (connections T)) T
      else Some ((stop_last ^^ (length (connections T) - newVal)) T))"

section \<open>Commands\<close>

definition execute_command :: "environment \<Rightarrow> Command \<Rightarrow> Thread \<Rightarrow> Thread option" where
  "execute_command E c T =
     (case cmd c of
        STOP \<Rightarrow>
          Some (T\<lparr>th_keepRunning := 0,
                  refs := refs T - 1 + (if shutdownTimer T = None then 1 else 0) - 1,
                  shutdownTimer := Some (stopTimeoutSecs c)\<rparr>)
      | SET_CONNECTIONS \<Rightarrow> setNumConnections E (nat (newNumConnections c mod 2 ^ 64)) T)"

text \<open>The loop over the queue, which is passed along; it ends because every round pops a command.\<close>

function process_queue :: "environment \<Rightarrow> CommandQueue \<Rightarrow> Thread \<Rightarrow> Thread option" where
  "process_queue E q T =
     (case Pop q of
        None \<Rightarrow> Some T
      | Some (c, q') \<Rightarrow>
          (case execute_command E c T of None \<Rightarrow> None | Some T' \<Rightarrow> process_queue E q' T'))"
  by pat_completeness auto

termination
  by (relation "measure (\<lambda>(E, q, T). length q)") (auto dest: cq.pop_Some)

declare process_queue.simps [simp del]

lemma process_queue_simps [simp]:
  "process_queue E [] T = Some T"
  "process_queue E (c # q) T = Option.bind (execute_command E c T) (process_queue E q)"
  by (subst process_queue.simps; simp add: Pop_def Option.bind_def split: option.split)+

definition processCommands :: "environment \<Rightarrow> Thread \<Rightarrow> Thread option" where
  "processCommands E T =
     process_queue E (commands T) (T\<lparr>commands := empty_queue, async_pending := False\<rparr>)"

definition hardShutdown :: "Thread \<Rightarrow> Thread" where
  "hardShutdown T = T\<lparr>shutdownTimer := None, refs := refs T - 1, broken := True\<rparr>"

text \<open>What other threads call: they add a command and wake up the loop.\<close>

definition RequestStop :: "int \<Rightarrow> Thread \<Rightarrow> Thread" where
  "RequestStop timeoutSecs T =
     T\<lparr>commands := Add (commands T) \<lparr>cmd = STOP, newNumConnections = 0, stopTimeoutSecs = timeoutSecs\<rparr>,
       async_pending := True\<rparr>"

definition SetNumConnections :: "int \<Rightarrow> Thread \<Rightarrow> Thread" where
  "SetNumConnections n T =
     T\<lparr>commands := Add (commands T) \<lparr>cmd = SET_CONNECTIONS, newNumConnections = n, stopTimeoutSecs = 0\<rparr>,
       async_pending := True\<rparr>"

section \<open>The life of a thread\<close>

definition EVFLAG_AUTO :: int where "EVFLAG_AUTO = 0"
definition EVBACKEND_SELECT :: int where "EVBACKEND_SELECT = 1"
definition EVBACKEND_POLL :: int where "EVBACKEND_POLL = 2"
definition EVBACKEND_EPOLL :: int where "EVBACKEND_EPOLL = 4"
definition EVBACKEND_KQUEUE :: int where "EVBACKEND_KQUEUE = 8"
definition EVBACKEND_DEVPOLL :: int where "EVBACKEND_DEVPOLL = 16"
definition EVBACKEND_PORT :: int where "EVBACKEND_PORT = 32"
definition EVBACKEND_LINUXAIO :: int where "EVBACKEND_LINUXAIO = 64"
definition kMaxSelectFds :: int where "kMaxSelectFds = 100"

definition loop_flags :: "int \<Rightarrow> int \<Rightarrow> int" where
  "loop_flags n recommended =
     (if n < kMaxSelectFds \<and> recommended AND EVBACKEND_SELECT \<noteq> 0
      then EVFLAG_AUTO OR EVBACKEND_SELECT else EVFLAG_AUTO)"

definition GetEvBackends :: "absl \<Rightarrow> int \<Rightarrow> string" where
  "GetEvBackends A b =
     StrJoin A
       ((if b AND EVBACKEND_SELECT \<noteq> 0 then [''select''] else []) @
        (if b AND EVBACKEND_POLL \<noteq> 0 then [''poll''] else []) @
        (if b AND EVBACKEND_EPOLL \<noteq> 0 then [''epoll''] else []) @
        (if b AND EVBACKEND_LINUXAIO \<noteq> 0 then [''linux AIO''] else []) @
        (if b AND EVBACKEND_KQUEUE \<noteq> 0 then [''kqueue''] else []) @
        (if b AND EVBACKEND_DEVPOLL \<noteq> 0 then [''/dev/poll''] else []) @
        (if b AND EVBACKEND_PORT \<noteq> 0 then [''Solaris event port''] else [])) '', ''"

text \<open>A new thread object, configured by its owner; \<open>running\<close> is \<^verbatim>\<open>keepRunning\<close> as the owner set it.\<close>

definition IOThread_new :: "IOConfig \<Rightarrow> int \<Rightarrow> Tallies \<Rightarrow> Thread" where
  "IOThread_new t running g =
     \<lparr>config = t, conns = [], connections = [], commands = empty_queue, th_keepRunning = running,
      th_counters = new_Counters, th_tallies = g, th_tick = 0, th_trace = [], refs = 0, async_pending = False,
      shutdownTimer = None, broken = False\<rparr>"

definition Start :: "Thread \<Rightarrow> Thread" where
  "Start T = T\<lparr>th_keepRunning := (if th_keepRunning T < 0 then 0 else 1)\<rparr>"

text \<open>\<open>threadLoopBody\<close> up to \<^verbatim>\<open>ev_run\<close>. The watcher for wakeups counts, and is taken off the count.\<close>

definition threadLoopBody :: "environment \<Rightarrow> Thread \<Rightarrow> Thread option" where
  "threadLoopBody E T = do {
     let T1 = T\<lparr>refs := refs T + 1 - 1\<rparr>;
     T2 \<leftarrow> start_connections E (nat (numConnections (config T1))) T1;
     Some (if th_keepRunning T2 \<noteq> 0 then T2\<lparr>refs := refs T2 + 1\<rparr> else T2)
   }"

definition active_watchers :: "ConnectionState list \<Rightarrow> int" where
  "active_watchers cs =
     int (length (filter (\<lambda>c. io_active (c_io c)) cs) + length (filter (\<lambda>c. timer_active (thinkTimer c)) cs))"

definition activecnt :: "Thread \<Rightarrow> int" where
  "activecnt T = refs T + active_watchers (conns T)"

definition loop_runs :: "Thread \<Rightarrow> bool" where
  "loop_runs T \<longleftrightarrow> \<not> broken T \<and> activecnt T > 0"

text \<open>
  The steps of a running thread: an event of a connection whose handler returns, the wakeup, the
  shutdown timer; and the requests of the main thread: a stop (once) and a change of the number of
  connections. In between, the main thread exchanges the thread's counters, and other threads
  change the process-wide tallies.
\<close>

inductive thread_step :: "environment \<Rightarrow> Thread \<Rightarrow> Thread \<Rightarrow> bool" for E where
  event: "loop_runs T \<Longrightarrow> i < length (conns T) \<Longrightarrow> enabled e (conns T ! i) \<Longrightarrow>
    handle E (config T) n e (view_of T i) = Done w \<Longrightarrow> thread_step E T (put_view T i w)"
| wakeup: "loop_runs T \<Longrightarrow> async_pending T \<Longrightarrow> processCommands E T = Some T' \<Longrightarrow> thread_step E T T'"
| timeout: "loop_runs T \<Longrightarrow> shutdownTimer T \<noteq> None \<Longrightarrow> thread_step E T (hardShutdown T)"
| stop: "th_keepRunning T \<noteq> 0 \<Longrightarrow> STOP \<notin> cmd ` set (commands T) \<Longrightarrow> thread_step E T (RequestStop secs T)"
| resize: "thread_step E T (SetNumConnections n T)"

inductive thread_reachable :: "environment \<Rightarrow> IOConfig \<Rightarrow> Thread \<Rightarrow> bool" for E t where
  started: "threadLoopBody E (Start (IOThread_new t running g)) = Some T \<Longrightarrow> thread_reachable E t T"
| step: "thread_reachable E t T \<Longrightarrow> thread_step E T T' \<Longrightarrow> thread_reachable E t T'"
| exchange: "thread_reachable E t T \<Longrightarrow>
    thread_reachable E t (T\<lparr>th_counters := snd (exchangeCounters (th_counters T))\<rparr>)"
| others: "thread_reachable E t T \<Longrightarrow> thread_reachable E t (T\<lparr>th_tallies := g\<rparr>)"

text \<open>\<open>Join\<close> waits for the thread, whose function returns when \<^verbatim>\<open>ev_run\<close> does: \<^const>\<open>None\<close> is still waiting.
  \<open>Stop\<close> is a relation: the thread goes on in steps of its own until \<open>Join\<close> returns.\<close>

definition Join :: "Thread \<Rightarrow> Thread option" where
  "Join T = (if loop_runs T then None else Some T)"

definition Stop :: "environment \<Rightarrow> Thread \<Rightarrow> Thread \<Rightarrow> bool" where
  "Stop E T T' \<longleftrightarrow> (\<exists>U. (thread_step E)\<^sup>*\<^sup>* (RequestStop 1 T) U \<and> Join U = Some T')"

inductive_cases thread_stepE: "thread_step E T T'"

section \<open>What a handler leaves alone\<close>

text \<open>No handler of a connection changes whether the thread or the connection is to keep running.\<close>

definition steady :: "view \<Rightarrow> view \<Rightarrow> bool" where
  "steady w w' \<longleftrightarrow> keepRunning w' = keepRunning w \<and> c_keepRunning (conn w') = c_keepRunning (conn w)"

lemma steady_refl [simp]: "steady w w"
  by (simp add: steady_def)

lemma steady_trans: "steady u v \<Longrightarrow> steady v w \<Longrightarrow> steady u w"
  by (simp add: steady_def)

lemma steady_simps [simp]:
  "steady w (next_tick v) = steady w v" "steady w (close_all fds v) = steady w v"
  "steady w (reset_socket v) = steady w v" "steady w (stop_io v) = steady w v" "steady w (turn_io d b v) = steady w v"
  "steady w (record_error v) = steady w v" "steady w (sendAfterDelay x v) = steady w v"
  "steady w (v\<lparr>tallies := g\<rparr>) = steady w v" "steady w (v\<lparr>tick := n\<rparr>) = steady w v"
  "steady w (v\<lparr>counters := k\<rparr>) = steady w v" "steady w (v\<lparr>trace := tr\<rparr>) = steady w v"
  "steady (next_tick w) v = steady w v" "steady (close_all fds w) v = steady w v"
  "steady (reset_socket w) v = steady w v" "steady (stop_io w) v = steady w v" "steady (turn_io d b w) v = steady w v"
  "steady (record_error w) v = steady w v" "steady (w\<lparr>tallies := g\<rparr>) v = steady w v"
  "steady (w\<lparr>counters := k\<rparr>) v = steady w v" "steady (w\<lparr>trace := tr\<rparr>) v = steady w v"
  by (simp_all add: steady_def view_simps sendAfterDelay_def)

lemma steady_on_conn [simp]:
  "(\<And>c. c_keepRunning (f c) = c_keepRunning c) \<Longrightarrow> steady w (on_conn f v) = steady w v"
  "(\<And>c. c_keepRunning (f c) = c_keepRunning c) \<Longrightarrow> steady (on_conn f w) v = steady w v"
  by (simp_all add: steady_def on_conn_def)

interpretation sf: handler_frame steady
  by unfold_locales (auto simp: steady_def view_simps opened_def sent_bytes_def)

section \<open>The invariant of a thread\<close>

lemma parked_cong:
  assumes "parked E w" and "conn w' = conn w" and "counters_ok (counters w')"
    and "keepRunning w' = 0 \<or> keepRunning w' = keepRunning w"
  shows "parked E w'"
proof -
  have "base E w'" using assms by (simp add: parked_def base_def current_url_def)
  moreover have "watching w' = watching w" "delayed w' = delayed w" "finished w \<Longrightarrow> finished w'"
    using assms(2,4) by (auto simp: watching_def delayed_def finished_def free_def shouldKeepRunning_def Let_def)
  ultimately show ?thesis using assms(1) by (auto simp: parked_def)
qed

lemma StartConnect_parked:
  assumes "conn w = ConnectionState_new i block" and "length block = kReadBufSize" and "counters_ok (counters w)"
    and "world_ok E" and "can_sign E t"
  shows "\<exists>w'. StartConnect E t w = Some w' \<and> parked E w'"
proof -
  obtain j where j: "j < length (all_urls (urls E))" "GetNext (on_draw E (tick w)) (urls E) = Some (Url_at j)"
    using GetNext_defined [OF assms(4)] by blast
  let ?w = "next_tick (on_conn (\<lambda>c. c\<lparr>c_url := Url_at j, needsOpen := True\<rparr>) w)"
  have "base E ?w" "free ?w" "needsOpen (conn ?w)"
    using assms(1-3) j(1)
    by (simp_all add: base_def free_def ConnectionState_new_def kReadBufSize_def)
      (simp add: current_url_def on_conn_def rd_def in_bounds_def)
  then have "\<exists>w'. ConnectAndSend E t ?w = Some w' \<and> parked E w'"
    by (intro ConnectAndSend_parked) (simp_all add: assms(4,5))
  then show ?thesis using j(2) by (simp add: StartConnect_def)
qed

definition stops :: "CommandQueue \<Rightarrow> nat" where
  "stops q = length (filter (\<lambda>c. cmd c = STOP) q)"

definition thread_ok :: "environment \<Rightarrow> Thread \<Rightarrow> bool" where
  "thread_ok E T \<longleftrightarrow>
     (\<forall>i < length (conns T). parked E (view_of T i)) \<and> counters_ok (th_counters T) \<and>
     (\<forall>i \<in> set (connections T). i < length (conns T)) \<and> can_sign E (config T)"

text \<open>The count of the loop, and the commands still to come.\<close>

definition refs_ok :: "Thread \<Rightarrow> bool" where
  "refs_ok T \<longleftrightarrow>
     (th_keepRunning T = 0 \<or> th_keepRunning T = 1) \<and> (\<not> broken T \<longrightarrow> refs T = th_keepRunning T) \<and>
     (th_keepRunning T = 1 \<longrightarrow> shutdownTimer T = None)"

lemma thread_okD:
  assumes "thread_ok E T"
  shows "i < length (conns T) \<Longrightarrow> parked E (view_of T i)" and "counters_ok (th_counters T)"
    and "i \<in> set (connections T) \<Longrightarrow> i < length (conns T)" and "can_sign E (config T)"
  using assms by (simp_all add: thread_ok_def)

lemma view_of_put:
  "i < length (conns T) \<Longrightarrow> view_of (put_view T i w) i = w"
  "conn (view_of (put_view T i w) j) = (if i = j \<and> i < length (conns T) then conn w else conns T ! j)"
  by (simp add: view_of_def put_view_def)
    (cases "i < length (conns T)"; simp add: view_of_def put_view_def nth_list_update list_update_beyond)

lemma view_of_simps [simp]:
  "conn (view_of T i) = conns T ! i" "keepRunning (view_of T i) = th_keepRunning T"
  "counters (view_of T i) = th_counters T"
  by (simp_all add: view_of_def)

lemma put_view_simps [simp]:
  "length (conns (put_view T i w)) = length (conns T)" "connections (put_view T i w) = connections T"
  "config (put_view T i w) = config T" "th_counters (put_view T i w) = counters w"
  "th_keepRunning (put_view T i w) = keepRunning w" "commands (put_view T i w) = commands T"
  "refs (put_view T i w) = refs T" "broken (put_view T i w) = broken T"
  "shutdownTimer (put_view T i w) = shutdownTimer T" "async_pending (put_view T i w) = async_pending T"
  by (simp_all add: put_view_def)

text \<open>A connection that is parked again keeps the thread in order.\<close>

lemma put_view_ok:
  assumes "\<And>j. j < length (conns T) \<Longrightarrow> j \<noteq> i \<Longrightarrow> parked E (view_of T j)" and "i < length (conns T)"
    and "\<And>j. j \<in> set (connections T) \<Longrightarrow> j < length (conns T)" and "can_sign E (config T)"
    and "parked E w" and "keepRunning w = th_keepRunning T"
  shows "thread_ok E (put_view T i w)"
proof -
  have ok: "counters_ok (counters w)" using assms(5) by (simp add: parked_def base_def)
  have "parked E (view_of (put_view T i w) j)" if j: "j < length (conns T)" for j
  proof (cases "j = i")
    case True
    then show ?thesis using assms(2,5) view_of_put(1) by simp
  next
    case False
    show ?thesis
      by (rule parked_cong [OF assms(1) [OF j False]])
        (use False ok assms(6) in \<open>simp_all add: view_of_put put_view_def\<close>)
  qed
  then show ?thesis using ok assms(3,4) by (simp add: thread_ok_def)
qed

lemma start_connection_ok:
  assumes "thread_ok E T" and "world_ok E"
  obtains T' where "start_connection E T = Some T'" "thread_ok E T'"
    "length (connections T') = Suc (length (connections T))" "th_keepRunning T' = th_keepRunning T" "refs T' = refs T"
    "broken T' = broken T" "shutdownTimer T' = shutdownTimer T" "commands T' = commands T" "config T' = config T"
    "async_pending T' = async_pending T"
    "\<exists>c. conns T' = conns T @ [c]" "connections T' = connections T @ [length (conns T)]"
proof -
  let ?id = "length (conns T)"
  define T1 where "T1 = T\<lparr>conns := conns T @ [ConnectionState_new (int (length (connections T)))
    (received E (th_tick T) kReadBufSize)], connections := connections T @ [?id]\<rparr>"
  have "\<exists>w. StartConnect E (config T) (view_of T1 ?id) = Some w \<and> parked E w"
    using thread_okD [OF assms(1)] assms(2)
    by (intro StartConnect_parked [where block = "received E (th_tick T) kReadBufSize"])
      (simp_all add: T1_def received_def)
  then obtain w where w: "StartConnect E (config T) (view_of T1 ?id) = Some w" "parked E w" by blast
  have kr: "keepRunning w = th_keepRunning T" using sf.StartConnect [OF w(1) sf.refl] by (simp add: steady_def T1_def)
  then have "thread_ok E (put_view T1 ?id w)"
    using thread_okD [OF assms(1)] w(2) kr
    by (intro put_view_ok)
      (auto simp: T1_def less_Suc_eq nth_append intro: parked_cong [OF thread_okD(1) [OF assms(1)]])
  moreover have "start_connection E T = Some (put_view T1 ?id w)"
    using w(1) by (simp add: start_connection_def T1_def Let_def)
  moreover have "\<exists>c. conns (put_view T1 ?id w) = conns T @ [c]"
    by (simp add: T1_def put_view_def)
  ultimately show ?thesis by (intro that [of "put_view T1 ?id w"]) (simp_all add: T1_def kr)
qed

lemma start_connections_ok:
  assumes "thread_ok E T" and "world_ok E"
  shows "\<exists>T'. start_connections E n T = Some T' \<and> thread_ok E T' \<and>
    length (connections T') = length (connections T) + n \<and> th_keepRunning T' = th_keepRunning T \<and> refs T' = refs T \<and>
    broken T' = broken T \<and> shutdownTimer T' = shutdownTimer T \<and> commands T' = commands T \<and> config T' = config T \<and>
    async_pending T' = async_pending T"
  using assms(1)
proof (induction n arbitrary: T)
  case (Suc n)
  obtain T1 where T1: "start_connection E T = Some T1" "thread_ok E T1"
    "length (connections T1) = Suc (length (connections T))" "th_keepRunning T1 = th_keepRunning T" "refs T1 = refs T"
    "broken T1 = broken T" "shutdownTimer T1 = shutdownTimer T" "commands T1 = commands T" "config T1 = config T"
    "async_pending T1 = async_pending T"
    by (rule start_connection_ok [OF Suc.prems assms(2)])
  then show ?case using Suc.IH [OF T1(2)] by simp
qed simp

lemma stop_last_ok:
  assumes "thread_ok E T" and "connections T \<noteq> []"
  shows "thread_ok E (stop_last T)"
proof -
  let ?id = "last (connections T)"
  let ?c = "stopRunning (conns T ! ?id)"
  have id: "?id < length (conns T)" using thread_okD(3) [OF assms(1)] assms(2) by simp
  have "parked E (view_of (stop_last T) i)" if i: "i < length (conns T)" for i
  proof (cases "i = ?id")
    case True
    have "parked E ((view_of T i)\<lparr>conn := ?c\<rparr>)"
      using thread_okD(1) [OF assms(1) i] True
      by (auto simp: parked_def base_def current_url_def watching_def delayed_def finished_def free_def
          stopRunning_def Let_def)
    then show ?thesis
      by (rule parked_cong)
        (use True id thread_okD(2) [OF assms(1)] in \<open>simp_all add: stop_last_def view_of_def Let_def\<close>)
  next
    case False
    show ?thesis
      by (rule parked_cong [OF thread_okD(1) [OF assms(1) i]])
        (use False thread_okD(2) [OF assms(1)] in \<open>simp_all add: stop_last_def view_of_def Let_def\<close>)
  qed
  then show ?thesis
    using thread_okD [OF assms(1)] by (auto simp: thread_ok_def stop_last_def Let_def dest: in_set_butlastD)
qed

lemma stop_last_fields [simp]:
  "length (connections (stop_last T)) = length (connections T) - 1" "th_keepRunning (stop_last T) = th_keepRunning T"
  "refs (stop_last T) = refs T" "broken (stop_last T) = broken T" "shutdownTimer (stop_last T) = shutdownTimer T"
  "commands (stop_last T) = commands T" "config (stop_last T) = config T" "async_pending (stop_last T) = async_pending T"
  by (simp_all add: stop_last_def Let_def)

lemma stop_some_ok:
  assumes "thread_ok E T" and "n \<le> length (connections T)"
  shows "thread_ok E ((stop_last ^^ n) T) \<and> length (connections ((stop_last ^^ n) T)) = length (connections T) - n \<and>
    th_keepRunning ((stop_last ^^ n) T) = th_keepRunning T \<and> refs ((stop_last ^^ n) T) = refs T \<and>
    broken ((stop_last ^^ n) T) = broken T \<and> shutdownTimer ((stop_last ^^ n) T) = shutdownTimer T \<and>
    commands ((stop_last ^^ n) T) = commands T \<and> config ((stop_last ^^ n) T) = config T \<and>
    async_pending ((stop_last ^^ n) T) = async_pending T"
  using assms(2)
proof (induction n)
  case (Suc n)
  then have "connections ((stop_last ^^ n) T) \<noteq> []" by (cases "connections ((stop_last ^^ n) T)") auto
  then show ?case using Suc stop_last_ok by simp
qed (simp add: assms(1))

lemma setNumConnections_ok:
  assumes "thread_ok E T" and "world_ok E"
  shows "\<exists>T'. setNumConnections E n T = Some T' \<and> thread_ok E T' \<and> length (connections T') = n \<and>
    th_keepRunning T' = th_keepRunning T \<and> refs T' = refs T \<and> broken T' = broken T \<and>
    shutdownTimer T' = shutdownTimer T \<and> commands T' = commands T \<and> config T' = config T \<and>
    async_pending T' = async_pending T"
  using start_connections_ok [OF assms, of "n - length (connections T)"]
    stop_some_ok [OF assms(1), of "length (connections T) - n"]
  by (cases "n > length (connections T)") (auto simp: setNumConnections_def)

text \<open>What a thread must have for its commands: at most one stop, and none once it stops.\<close>

definition commands_ok :: "CommandQueue \<Rightarrow> Thread \<Rightarrow> bool" where
  "commands_ok q T \<longleftrightarrow> stops q \<le> nat (th_keepRunning T)"

lemma execute_command_ok:
  assumes "thread_ok E T" and "refs_ok T" and "commands_ok (c # q) T" and "world_ok E"
  shows "\<exists>T'. execute_command E c T = Some T' \<and> thread_ok E T' \<and> refs_ok T' \<and> commands_ok q T' \<and>
    commands T' = commands T \<and> config T' = config T \<and> broken T' = broken T \<and>
    (th_keepRunning T' = 0 \<longleftrightarrow> th_keepRunning T = 0 \<or> cmd c = STOP) \<and>
    (cmd c = SET_CONNECTIONS \<longrightarrow> length (connections T') = nat (newNumConnections c mod 2 ^ 64))"
proof (cases "cmd c")
  case STOP
  have run: "th_keepRunning T = 1" "stops q = 0"
    using assms(2,3) STOP by (auto simp: commands_ok_def stops_def refs_ok_def)
  let ?T = "T\<lparr>th_keepRunning := 0, refs := refs T - 1 + (if shutdownTimer T = None then 1 else 0) - 1,
    shutdownTimer := Some (stopTimeoutSecs c)\<rparr>"
  have "parked E (view_of ?T i)" if "i < length (conns T)" for i
    by (rule parked_cong [OF thread_okD(1) [OF assms(1) that]])
      (use thread_okD(2) [OF assms(1)] in \<open>simp_all add: view_of_def\<close>)
  then have "thread_ok E ?T" using assms(1) by (simp add: thread_ok_def)
  moreover have "refs_ok ?T" "commands_ok q ?T"
    using assms(2) run by (simp_all add: refs_ok_def commands_ok_def)
  moreover have "execute_command E c T = Some ?T" using STOP by (simp add: execute_command_def)
  ultimately show ?thesis using STOP by fastforce
next
  case SET_CONNECTIONS
  have "\<exists>T'. execute_command E c T = Some T' \<and> thread_ok E T' \<and> length (connections T') = nat (newNumConnections c mod 2 ^ 64) \<and>
    th_keepRunning T' = th_keepRunning T \<and> refs T' = refs T \<and> broken T' = broken T \<and>
    shutdownTimer T' = shutdownTimer T \<and> commands T' = commands T \<and> config T' = config T \<and>
    async_pending T' = async_pending T"
    using setNumConnections_ok [OF assms(1,4)] SET_CONNECTIONS by (simp add: execute_command_def)
  moreover have "stops (c # q) = stops q" using SET_CONNECTIONS by (simp add: stops_def)
  ultimately show ?thesis
    using assms(2,3) SET_CONNECTIONS by (auto simp: refs_ok_def commands_ok_def)
qed

lemma process_queue_ok:
  assumes "thread_ok E T" and "refs_ok T" and "commands_ok q T" and "world_ok E"
  shows "\<exists>T'. process_queue E q T = Some T' \<and> thread_ok E T' \<and> refs_ok T' \<and> commands_ok [] T' \<and>
    commands T' = commands T \<and> config T' = config T \<and> broken T' = broken T"
  using assms(1-3)
proof (induction q arbitrary: T)
  case Nil
  then show ?case by (simp add: commands_ok_def stops_def)
next
  case (Cons c q)
  obtain T1 where T1: "execute_command E c T = Some T1" "thread_ok E T1" "refs_ok T1" "commands_ok q T1"
    "commands T1 = commands T" "config T1 = config T" "broken T1 = broken T"
    using execute_command_ok [OF Cons.prems assms(4)] by blast
  then show ?case using Cons.IH [OF T1(2-4)] by simp
qed

definition thread_inv :: "environment \<Rightarrow> IOConfig \<Rightarrow> Thread \<Rightarrow> bool" where
  "thread_inv E t T \<longleftrightarrow> thread_ok E T \<and> refs_ok T \<and> commands_ok (commands T) T \<and> config T = t"

lemma thread_ok_cong:
  assumes "thread_ok E T" and "conns T' = conns T" and "connections T' = connections T" and "config T' = config T"
    and "counters_ok (th_counters T')" and "th_keepRunning T' = th_keepRunning T"
  shows "thread_ok E T'"
proof -
  have "parked E (view_of T' i)" if "i < length (conns T)" for i
    by (rule parked_cong [OF thread_okD(1) [OF assms(1) that]]) (simp_all add: assms)
  then show ?thesis using assms by (simp add: thread_ok_def)
qed

lemma thread_ok_same:
  assumes "thread_ok E T" and "conns T' = conns T" and "connections T' = connections T" and "config T' = config T"
    and "th_counters T' = th_counters T" and "th_keepRunning T' = th_keepRunning T"
  shows "thread_ok E T'"
  using thread_ok_cong [OF assms(1-4) _ assms(6)] thread_okD(2) [OF assms(1)] assms(5) by simp

lemma processCommands_inv:
  assumes "thread_inv E t T" and "world_ok E"
  shows "\<exists>T'. processCommands E T = Some T' \<and> thread_inv E t T'"
proof -
  let ?T = "T\<lparr>commands := empty_queue, async_pending := False\<rparr>"
  have "thread_ok E ?T"
    using assms(1) by - (rule thread_ok_same [of E T], simp_all add: thread_inv_def)
  moreover have "refs_ok ?T" "commands_ok (commands T) ?T" "config ?T = t"
    using assms(1) by (simp_all add: thread_inv_def refs_ok_def commands_ok_def)
  ultimately obtain T' where T': "process_queue E (commands T) ?T = Some T'" "thread_ok E T'" "refs_ok T'"
    "commands_ok [] T'" "commands T' = commands ?T" "config T' = config ?T"
    using process_queue_ok [OF _ _ _ assms(2), of ?T "commands T"] by blast
  then have "thread_inv E t T'" using assms(1) by (simp add: thread_inv_def empty_queue_def)
  then show ?thesis using T'(1) by (simp add: processCommands_def)
qed

lemma thread_step_inv:
  assumes "thread_step E T T'" and "thread_inv E t T" and "world_ok E"
  shows "thread_inv E t T'"
  using assms(1)
proof (cases rule: thread_step.cases)
  case (event i e n w)
  have T: "thread_ok E T" "refs_ok T" "commands_ok (commands T) T" "config T = t"
    using assms(2) by (simp_all add: thread_inv_def)
  have "parked E w"
    using handle_event [OF thread_okD(1) [OF T(1) event(3)] _ assms(3) thread_okD(4) [OF T(1)], of e n] event(4,5)
    by auto
  moreover have "keepRunning w = th_keepRunning T"
    using sf.handle [OF event(5) assms(3)] by (simp add: steady_def)
  ultimately show ?thesis
    using put_view_ok [of T i E w] thread_okD [OF T(1)] T(2-4) event(1,3)
    by (simp add: thread_inv_def refs_ok_def commands_ok_def)
next
  case wakeup
  then show ?thesis using processCommands_inv [OF assms(2,3)] by auto
next
  case timeout
  then show ?thesis
    using assms(2) thread_ok_same [of E T "hardShutdown T"]
    by (auto simp: thread_inv_def hardShutdown_def refs_ok_def commands_ok_def)
next
  case (stop secs)
  have "stops (commands T) = 0" using stop(3) by (auto simp: stops_def filter_empty_conv image_iff)
  then show ?thesis
    using assms(2) stop thread_ok_same [of E T "RequestStop secs T"]
    by (auto simp: thread_inv_def RequestStop_def refs_ok_def commands_ok_def stops_def Add_def)
next
  case (resize n)
  then show ?thesis
    using assms(2) thread_ok_same [of E T "SetNumConnections n T"]
    by (auto simp: thread_inv_def SetNumConnections_def refs_ok_def commands_ok_def stops_def Add_def)
qed

lemma threadLoopBody_ok:
  assumes "world_ok E" and "can_sign E t"
  shows "\<exists>T. threadLoopBody E (Start (IOThread_new t running g)) = Some T \<and> thread_inv E t T \<and>
    length (connections T) = nat (numConnections t) \<and> commands T = []"
proof -
  define T0 where "T0 = (Start (IOThread_new t running g))\<lparr>refs := 0\<rparr>"
  have T0: "thread_ok E T0" "connections T0 = []" "commands T0 = []" "config T0 = t" "refs T0 = 0"
    "shutdownTimer T0 = None" "\<not> broken T0" "th_keepRunning T0 = 0 \<or> th_keepRunning T0 = 1"
    using assms(2) by (simp_all add: T0_def thread_ok_def Start_def IOThread_new_def empty_queue_def)
  obtain T1 where T1: "start_connections E (nat (numConnections t)) T0 = Some T1" "thread_ok E T1"
    "length (connections T1) = nat (numConnections t)" "th_keepRunning T1 = th_keepRunning T0" "refs T1 = 0"
    "broken T1 = broken T0" "shutdownTimer T1 = None" "commands T1 = []" "config T1 = t"
    using start_connections_ok [OF T0(1) assms(1), of "nat (numConnections t)"] T0 by auto
  let ?T = "if th_keepRunning T1 \<noteq> 0 then T1\<lparr>refs := refs T1 + 1\<rparr> else T1"
  have "threadLoopBody E (Start (IOThread_new t running g)) = Some ?T"
    using T1(1) T0(4) by (simp add: threadLoopBody_def T0_def Start_def IOThread_new_def Let_def)
  moreover have "thread_ok E (T1\<lparr>refs := x\<rparr>)" for x
    using T1(2) by (rule thread_ok_same) simp_all
  ultimately show ?thesis
    using T0(8) T1 by (auto simp: thread_inv_def refs_ok_def commands_ok_def stops_def)
qed

lemma thread_reachable_inv:
  assumes "thread_reachable E t T" and "world_ok E" and "can_sign E t"
  shows "thread_inv E t T"
  using assms(1)
proof (induction rule: thread_reachable.induct)
  case (started running g T)
  then show ?case using threadLoopBody_ok [OF assms(2,3), of running g] by auto
next
  case (step T T')
  then show ?case using thread_step_inv assms(2) by blast
next
  case (exchange T)
  then show ?case
    using thread_ok_cong [of E T "T\<lparr>th_counters := new_Counters\<rparr>"]
    by (auto simp: thread_inv_def refs_ok_def commands_ok_def exchangeCounters_def)
next
  case (others T g)
  then show ?case
    using thread_ok_same [of E T "T\<lparr>th_tallies := g\<rparr>"]
    by (auto simp: thread_inv_def refs_ok_def commands_ok_def)
qed

lemma active_watchers_zero:
  "active_watchers cs = 0 \<longleftrightarrow> list_all (\<lambda>c. \<not> io_active (c_io c) \<and> \<not> timer_active (thinkTimer c)) cs"
  by (induction cs) (auto simp: active_watchers_def)

section \<open>The properties\<close>

text \<open>C10. In every state an I/O thread can reach, each connection it ever created is parked: it waits for
  its socket or its timer, or it has ended with its socket closed. This holds under any order of
  network events, commands, stops, counter exchanges and changes of the process-wide tallies,
  and after any change of the number of connections.\<close>

theorem thread_never_loses_connections:
  assumes "thread_reachable E t T" and "world_ok E" and "can_sign E t" and "i < length (conns T)"
  shows "parked E (view_of T i) \<and>
    (watching (view_of T i) \<or> delayed (view_of T i) \<or>
     finished (view_of T i) \<and> (\<not> c_keepRunning (conns T ! i) \<or> th_keepRunning T = 0))"
  using thread_okD(1) [of E T i] thread_reachable_inv [OF assms(1-3)] assms(4)
  by (auto simp: thread_inv_def parked_def finished_def shouldKeepRunning_def)

text \<open>A thread that has stopped itself, and was not broken, has closed its connections.\<close>

lemma loop_end_clean:
  assumes "thread_inv E t T" and "\<not> broken T" and "\<not> loop_runs T"
  shows "th_keepRunning T = 0 \<and>
    list_all (\<lambda>c. c_socket c = None \<and> \<not> io_active (c_io c) \<and> \<not> timer_active (thinkTimer c)) (conns T)"
proof -
  have T: "thread_ok E T" "refs_ok T" using assms(1) by (simp_all add: thread_inv_def)
  have "active_watchers (conns T) \<ge> 0" by (simp add: active_watchers_def)
  then have z: "th_keepRunning T = 0" "active_watchers (conns T) = 0"
    using assms(2,3) T(2) by (auto simp: loop_runs_def activecnt_def refs_ok_def)
  have none: "\<not> io_active (c_io (conns T ! i))" "\<not> timer_active (thinkTimer (conns T ! i))" if "i < length (conns T)" for i
    using z(2) that by (simp_all add: active_watchers_zero list_all_length)
  have "c_socket (conns T ! i) = None" if "i < length (conns T)" for i
    using thread_okD(1) [OF T(1) that] none [OF that]
    by (auto simp: parked_def watching_def delayed_def finished_def Let_def)
  then show ?thesis using z(1) none by (simp add: list_all_length)
qed

lemma Stop_clean:
  assumes "thread_reachable E t T" "world_ok E" "can_sign E t"
    and "th_keepRunning T \<noteq> 0" "STOP \<notin> cmd ` set (commands T)" "Stop E T T'"
  shows "broken T' \<or> th_keepRunning T' = 0 \<and>
    list_all (\<lambda>c. c_socket c = None \<and> \<not> io_active (c_io c) \<and> \<not> timer_active (thinkTimer c)) (conns T')"
proof -
  from assms(6) have s: "(thread_step E)\<^sup>*\<^sup>* (RequestStop 1 T) T'" "\<not> loop_runs T'"
    by (auto simp: Stop_def Join_def split: if_splits)
  have "thread_reachable E t (RequestStop 1 T)"
    using assms(1,4,5) by (rule thread_reachable.step [OF _ thread_step.stop])
  with s(1) have "thread_reachable E t T'"
    by (induction rule: rtranclp_induct) (blast intro: thread_reachable.step)+
  from loop_end_clean [OF thread_reachable_inv [OF this assms(2,3)]] s(2) show ?thesis by blast
qed

text \<open>C22. The event loop ends cleanly: unless it was broken by the shutdown timer, \<^verbatim>\<open>ev_run\<close> returns only
  after the thread was told to stop (or was started for a single request), and then every
  connection has closed its socket and has no watcher or timer left.\<close>

theorem event_loop_ends_clean:
  assumes "thread_reachable E t T" and "world_ok E" and "can_sign E t" and "\<not> broken T" and "\<not> loop_runs T"
  shows "th_keepRunning T = 0 \<and>
    list_all (\<lambda>c. c_socket c = None \<and> \<not> io_active (c_io c) \<and> \<not> timer_active (thinkTimer c)) (conns T)"
  by (rule loop_end_clean [OF thread_reachable_inv [OF assms(1-3)] assms(4,5)])

definition last_size :: "CommandQueue \<Rightarrow> nat \<Rightarrow> nat" where
  "last_size q n = foldl (\<lambda>m c. if cmd c = SET_CONNECTIONS then nat (newNumConnections c mod 2 ^ 64) else m) n q"

lemma execute_stop_connections: "cmd c = STOP \<Longrightarrow> execute_command E c T = Some T' \<Longrightarrow> connections T' = connections T"
  by (auto simp: execute_command_def)

lemma process_queue_effect:
  assumes "thread_ok E T" and "refs_ok T" and "commands_ok q T" and "world_ok E"
  shows "\<exists>T'. process_queue E q T = Some T' \<and> commands T' = commands T \<and>
    (th_keepRunning T' = 0 \<longleftrightarrow> th_keepRunning T = 0 \<or> STOP \<in> cmd ` set q) \<and>
    length (connections T') = last_size q (length (connections T))"
  using assms(1-3)
proof (induction q arbitrary: T)
  case Nil
  then show ?case by (simp add: last_size_def)
next
  case (Cons c q)
  obtain T1 where T1: "execute_command E c T = Some T1" "thread_ok E T1" "refs_ok T1" "commands_ok q T1"
    "commands T1 = commands T" "th_keepRunning T1 = 0 \<longleftrightarrow> th_keepRunning T = 0 \<or> cmd c = STOP"
    "cmd c = SET_CONNECTIONS \<longrightarrow> length (connections T1) = nat (newNumConnections c mod 2 ^ 64)"
    using execute_command_ok [OF Cons.prems assms(4)] by blast
  have "length (connections T1) =
      (if cmd c = SET_CONNECTIONS then nat (newNumConnections c mod 2 ^ 64) else length (connections T))"
    using T1(7) execute_stop_connections [OF _ T1(1)] by (cases "cmd c") simp_all
  then have "last_size (c # q) (length (connections T)) = last_size q (length (connections T1))"
    by (simp add: last_size_def)
  moreover obtain T2 where "process_queue E q T1 = Some T2" "commands T2 = commands T1"
    "th_keepRunning T2 = 0 \<longleftrightarrow> th_keepRunning T1 = 0 \<or> STOP \<in> cmd ` set q"
    "length (connections T2) = last_size q (length (connections T1))"
    using Cons.IH [OF T1(2-4)] by blast
  ultimately show ?case
    using T1(1,5,6) by auto
qed

text \<open>C21. Commands take effect in the order they were sent: one wakeup empties the queue, the thread stops
  running exactly if it was not running or the queue had a stop, and it is left with the number
  of connections of the last change in the queue, whatever stands before or between.\<close>

theorem commands_in_order:
  assumes "thread_reachable E t T" and "world_ok E" and "can_sign E t"
  shows "\<exists>T'. processCommands E T = Some T' \<and> commands T' = [] \<and>
    (th_keepRunning T' = 0 \<longleftrightarrow> th_keepRunning T = 0 \<or> STOP \<in> cmd ` set (commands T)) \<and>
    length (connections T') = last_size (commands T) (length (connections T))"
proof -
  let ?T = "T\<lparr>commands := empty_queue, async_pending := False\<rparr>"
  have T: "thread_ok E T" "refs_ok T" "commands_ok (commands T) T"
    using thread_reachable_inv [OF assms] by (simp_all add: thread_inv_def)
  have "thread_ok E ?T" using T(1) by (rule thread_ok_same) simp_all
  moreover have "refs_ok ?T" "commands_ok (commands T) ?T"
    using T(2,3) by (simp_all add: refs_ok_def commands_ok_def)
  ultimately obtain T' where "process_queue E (commands T) ?T = Some T'" "commands T' = commands ?T"
    "th_keepRunning T' = 0 \<longleftrightarrow> th_keepRunning ?T = 0 \<or> STOP \<in> cmd ` set (commands T)"
    "length (connections T') = last_size (commands T) (length (connections ?T))"
    using process_queue_effect [OF _ _ _ assms(2), of ?T "commands T"] by blast
  then show ?thesis by (simp add: processCommands_def empty_queue_def)
qed

section \<open>Examples\<close>

definition example_tallies :: Tallies where
  "example_tallies = \<lparr>reporting = True, socketErrors = 0, connectionsOpened = 0\<rparr>"

definition example_threads :: "nat \<Rightarrow> Thread" where
  "example_threads n =
     the (threadLoopBody example_env (Start (IOThread_new (example_config\<lparr>numConnections := int n\<rparr>) 1 example_tallies)))"

lemma example_sign: "can_sign example_env (example_config\<lparr>numConnections := n\<rparr>)"
  by (rule can_sign_no_oauth) (simp add: example_config_def)

lemma example_threads_ok:
  "thread_reachable example_env (example_config\<lparr>numConnections := int n\<rparr>) (example_threads n)"
  "length (connections (example_threads n)) = n" "commands (example_threads n) = []"
proof -
  obtain T where "threadLoopBody example_env (Start (IOThread_new (example_config\<lparr>numConnections := int n\<rparr>) 1 example_tallies)) = Some T"
    "length (connections T) = n" "commands T = []"
    using threadLoopBody_ok [OF example_env_ok example_sign, of "int n" 1 example_tallies]
    by (auto simp: example_config_def)
  then show "thread_reachable example_env (example_config\<lparr>numConnections := int n\<rparr>) (example_threads n)"
    "length (connections (example_threads n)) = n" "commands (example_threads n) = []"
    by (auto simp: example_threads_def intro: thread_reachable.started)
qed

lemma thread_never_loses_connections_witness:
  "parked example_env (view_of (example_threads 2) (hd (connections (example_threads 2)))) \<and>
    (watching (view_of (example_threads 2) (hd (connections (example_threads 2)))) \<or>
     delayed (view_of (example_threads 2) (hd (connections (example_threads 2)))) \<or>
     finished (view_of (example_threads 2) (hd (connections (example_threads 2)))) \<and>
     (\<not> c_keepRunning (conns (example_threads 2) ! hd (connections (example_threads 2))) \<or>
      th_keepRunning (example_threads 2) = 0))"
proof (rule thread_never_loses_connections [OF example_threads_ok(1) example_env_ok example_sign])
  have "connections (example_threads 2) \<noteq> []" using example_threads_ok(2) [of 2] by auto
  then show "hd (connections (example_threads 2)) < length (conns (example_threads 2))"
    using thread_reachable_inv [OF example_threads_ok(1) example_env_ok example_sign, of 2]
    by (intro thread_okD(3) [of example_env]) (simp_all add: thread_inv_def)
qed

definition example_ended :: Thread where
  "example_ended =
     (IOThread_new (example_config\<lparr>numConnections := 0\<rparr>) 0 example_tallies)\<lparr>shutdownTimer := Some 2\<rparr>"

lemma example_ended_reachable: "thread_reachable example_env (example_config\<lparr>numConnections := 0\<rparr>) example_ended"
proof -
  let ?t = "example_config\<lparr>numConnections := 0\<rparr>"
  let ?T = "(IOThread_new ?t 1 example_tallies)\<lparr>refs := 1\<rparr>"
  have "thread_reachable example_env ?t ?T"
    by (rule thread_reachable.started [of _ _ 1 example_tallies])
      (simp add: threadLoopBody_def Start_def IOThread_new_def)
  moreover have "thread_step example_env ?T (RequestStop 2 ?T)"
    by (rule thread_step.stop) (simp_all add: IOThread_new_def empty_queue_def)
  moreover have "thread_step example_env (RequestStop 2 ?T) example_ended"
  proof (rule thread_step.wakeup)
    show "loop_runs (RequestStop 2 ?T)" "async_pending (RequestStop 2 ?T)"
      by (simp_all add: loop_runs_def activecnt_def active_watchers_def RequestStop_def IOThread_new_def)
    show "processCommands example_env (RequestStop 2 ?T) = Some example_ended"
      by (simp add: processCommands_def RequestStop_def IOThread_new_def Add_def empty_queue_def execute_command_def
          example_ended_def)
  qed
  ultimately show ?thesis by (blast intro: thread_reachable.step)
qed

lemma event_loop_ends_clean_witness:
  "th_keepRunning example_ended = 0 \<and>
    list_all (\<lambda>c. c_socket c = None \<and> \<not> io_active (c_io c) \<and> \<not> timer_active (thinkTimer c)) (conns example_ended)"
  by (rule event_loop_ends_clean [OF example_ended_reachable example_env_ok example_sign])
    (simp_all add: example_ended_def IOThread_new_def loop_runs_def activecnt_def active_watchers_def)

definition example_resized :: Thread where
  "example_resized = SetNumConnections 1 (SetNumConnections 7 (example_threads 3))"

lemma commands_in_order_witness:
  "\<exists>T'. processCommands example_env example_resized = Some T' \<and> commands T' = [] \<and>
    (th_keepRunning T' = 0 \<longleftrightarrow> th_keepRunning example_resized = 0 \<or> STOP \<in> cmd ` set (commands example_resized)) \<and>
    length (connections T') = last_size (commands example_resized) (length (connections example_resized))"
proof (rule commands_in_order [OF _ example_env_ok example_sign])
  show "thread_reachable example_env (example_config\<lparr>numConnections := int 3\<rparr>) example_resized"
    unfolding example_resized_def
    using example_threads_ok(1) [of 3] by (blast intro: thread_reachable.step thread_step.resize)
qed

end
