(* ===== verification/Cpu.thy ===== *)
theory Cpu
  imports Absl Lines Apib_Time
begin

text \<open>
  \<^verbatim>\<open>apib/apib_cpu.h\<close> with its two implementations that read no kernel table of another system:
  \<^verbatim>\<open>apib_cpu_proc.cc\<close>, over the \<^verbatim>\<open>/proc\<close> files, and \<^verbatim>\<open>apib_cpu_generic.cc\<close>. A file is the
  text it has when it is opened, \<^const>\<open>None\<close> when it cannot be opened; the heap block of a
  \<^verbatim>\<open>LineState\<close> (of \<^verbatim>\<open>PROC_BUF_LEN\<close> bytes) and the clock are arguments. The tick counts are
  64-bit integers; the kernel's sums stay far below that, so they are integers here.
\<close>

section \<open>State\<close>

record CPUUsage =
  idle :: int
  nonIdle :: int
  timestamp :: int

record CpuGlobals =
  CPUCount :: int
  TicksPerSecond :: double

definition PROC_BUF_LEN :: nat where "PROC_BUF_LEN = 8192"

section \<open>cpu_Count and cpu_Init\<close>

definition count_processor :: "string \<Rightarrow> int \<Rightarrow> unit + int" where
  "count_processor l count =
     (let ten = take 10 l
      in Inr (if ten = ''processor '' \<or> ten = ''processor'' @ [TAB] then count + 1 else count))"

definition cpu_Count :: "char list \<Rightarrow> string option \<Rightarrow> int option" where
  "cpu_Count block cpuinfo =
     (case cpuinfo of
        None \<Rightarrow> Some 1
      | Some inp \<Rightarrow> do {
          r \<leftarrow> read_lines count_processor (LineState_empty block) inp 0;
          let count = (case r of Inl _ \<Rightarrow> 0 | Inr n \<Rightarrow> n);
          Some (if count < 1 then 1 else count)
        })"

text \<open>\<^verbatim>\<open>stat(2)\<close> of the two files, \<^verbatim>\<open>sysconf\<close> and \<^verbatim>\<open>getenv\<close> are arguments.\<close>

definition cpu_Init ::
    "int \<Rightarrow> int \<Rightarrow> int \<Rightarrow> string option \<Rightarrow> char list \<Rightarrow> string option \<Rightarrow> CpuGlobals \<Rightarrow> (int \<times> CpuGlobals) option" where
  "cpu_Init statErr meminfoErr clkTck countStr block cpuinfo g =
     (if statErr \<noteq> 0 then Some (- 1, g)
      else if meminfoErr \<noteq> 0 then Some (- 2, g)
      else let g1 = g\<lparr>TicksPerSecond := d_of_int clkTck\<rparr> in
        case countStr of
          Some s \<Rightarrow> Some (0, g1\<lparr>CPUCount := atoi s\<rparr>)
        | None \<Rightarrow> do {
            n \<leftarrow> cpu_Count block cpuinfo;
            let g2 = g1\<lparr>CPUCount := n\<rparr>;
            Some (if n < 0 then - 3 else 0, g2)
          })"

section \<open>Reading tokens leaves the line alone\<close>

lemma scan_token_keeps:
  "scan_token toks s = Some t \<Longrightarrow>
     lineEnd t = lineEnd s \<and> bufLen t = bufLen s \<and> tokEnd s \<le> tokEnd t \<and>
     (tokEnd t = tokEnd s \<and> tokEnd s < lineEnd s \<longrightarrow> (\<exists>c. rd (buf t) (tokEnd t) = Some c \<and> isChar c toks))"
proof (induction toks s arbitrary: t rule: scan_token.induct)
  case (1 toks s)
  show ?case
  proof (cases "tokEnd s < lineEnd s")
    case True
    with "1.prems" obtain c where c: "rd (buf s) (tokEnd s) = Some c"
      by (subst (asm) scan_token.simps) (auto simp: bind_eq_Some_conv)
    show ?thesis
    proof (cases "isChar c toks")
      case True
      with \<open>tokEnd s < lineEnd s\<close> c "1.prems" show ?thesis by (subst (asm) scan_token.simps) auto
    next
      case False
      with \<open>tokEnd s < lineEnd s\<close> c "1.prems"
      have "scan_token toks (s\<lparr>tokEnd := tokEnd s + 1\<rparr>) = Some t" by (subst (asm) scan_token.simps) auto
      from "1.IH" [OF True c False this] show ?thesis by auto
    qed
  next
    case False
    with "1.prems" show ?thesis by (subst (asm) scan_token.simps) auto
  qed
qed

lemma null_matches_keeps:
  "null_matches toks s = Some t \<Longrightarrow> lineEnd t = lineEnd s \<and> bufLen t = bufLen s \<and> tokEnd s \<le> tokEnd t"
proof (induction toks s arbitrary: t rule: null_matches.induct)
  case (1 toks s)
  show ?case
  proof (cases "tokEnd s < lineEnd s")
    case True
    with "1.prems" obtain c where c: "rd (buf s) (tokEnd s) = Some c"
      by (subst (asm) null_matches.simps) (auto simp: bind_eq_Some_conv)
    show ?thesis
    proof (cases "isChar c toks")
      case True
      with \<open>tokEnd s < lineEnd s\<close> c "1.prems" obtain b where b: "wr (buf s) (tokEnd s) NUL = Some b"
        "null_matches toks (s\<lparr>buf := b, tokEnd := tokEnd s + 1\<rparr>) = Some t"
        by (subst (asm) null_matches.simps) (auto simp: bind_eq_Some_conv)
      from "1.IH" [OF \<open>tokEnd s < lineEnd s\<close> c True b] show ?thesis by auto
    next
      case False
      with \<open>tokEnd s < lineEnd s\<close> c "1.prems" show ?thesis by (subst (asm) null_matches.simps) auto
    qed
  next
    case False
    with "1.prems" show ?thesis by (subst (asm) null_matches.simps) auto
  qed
qed

lemma null_matches_moves:
  "null_matches toks s = Some t \<Longrightarrow> tokEnd s < lineEnd s \<Longrightarrow> rd (buf s) (tokEnd s) = Some c \<Longrightarrow>
     isChar c toks \<Longrightarrow> tokEnd s < tokEnd t"
  by (subst (asm) null_matches.simps) (auto simp: bind_eq_Some_conv dest!: null_matches_keeps)

lemma nextToken_keeps:
  assumes "nextToken s toks = Some (tok, t)"
  shows "lineEnd t = lineEnd s" "bufLen t = bufLen s"
  using assms
  by (auto simp: nextToken_def Let_def bind_eq_Some_conv split: if_splits
      dest!: scan_token_keeps null_matches_keeps)

lemma nextToken_moves:
  assumes "nextToken s toks = Some (tok, t)" "tok \<noteq> []" "toks \<noteq> []"
  shows "tokEnd s < tokEnd t" "tokEnd s < lineEnd s"
proof -
  let ?s = "s\<lparr>tokStart := tokEnd s\<rparr>"
  show lt: "tokEnd s < lineEnd s"
    using assms by (auto simp: nextToken_def split: if_splits)
  obtain u where u: "scan_token toks ?s = Some u" "null_matches toks u = Some t"
    using assms by (auto simp: nextToken_def Let_def bind_eq_Some_conv split: if_splits)
  note k = scan_token_keeps [OF u(1)] null_matches_keeps [OF u(2)]
  show "tokEnd s < tokEnd t"
  proof (cases "tokEnd u = tokEnd s")
    case True
    with k(1) lt obtain c where "rd (buf u) (tokEnd u) = Some c" "isChar c toks" by auto
    from null_matches_moves [OF u(2) _ this] True k(1) lt show ?thesis by simp
  next
    case False
    with k show ?thesis by simp
  qed
qed

section \<open>cpu_GetMemoryUsage\<close>

record Memory =
  totalMem :: int
  freeMem :: int
  buffers :: int
  cache :: int

text \<open>One line; \<open>Inl\<close> is \<^verbatim>\<open>return 0.0\<close>.\<close>

definition memory_field :: "absl \<Rightarrow> string \<Rightarrow> string \<Rightarrow> Memory \<Rightarrow> unit + Memory" where
  "memory_field A n v m =
     (if n = ''MemTotal:'' then
        case SimpleAtoi64 A v of None \<Rightarrow> Inl () | Some x \<Rightarrow> Inr (m\<lparr>totalMem := x\<rparr>)
      else if n = ''MemFree:'' then
        case SimpleAtoi64 A v of None \<Rightarrow> Inl () | Some x \<Rightarrow> Inr (m\<lparr>freeMem := x\<rparr>)
      else if n = ''Buffers:'' then
        case SimpleAtoi64 A v of None \<Rightarrow> Inl () | Some x \<Rightarrow> Inr (m\<lparr>buffers := x\<rparr>)
      else if n = ''Cached:'' then
        case SimpleAtoi64 A v of None \<Rightarrow> Inl () | Some x \<Rightarrow> Inr (m\<lparr>cache := x\<rparr>)
      else Inr m)"

function memory_lines :: "absl \<Rightarrow> LineState \<Rightarrow> Memory \<Rightarrow> (unit + Memory) option" where
  "memory_lines A s m = do {
     (b, s1) \<leftarrow> next_line s;
     if \<not> b then Some (Inr m)
     else do {
       (n, s2) \<leftarrow> nextToken s1 '' '';
       (v, s3) \<leftarrow> nextToken s2 '' '';
       case memory_field A n v m of Inl e \<Rightarrow> Some (Inl e) | Inr m' \<Rightarrow> memory_lines A s3 m'
     }
   }"
  by pat_completeness auto
termination
  by (relation "measure (\<lambda>(A, s, m). nat (bufLen s - lineEnd s))")
    (auto dest!: next_line_advances simp: nextToken_keeps)

declare memory_lines.simps [simp del]

definition used_ratio :: "Memory \<Rightarrow> double" where
  "used_ratio m =
     (if totalMem m \<le> 0 \<or> freeMem m \<le> 0 then Fin 0
      else ddiv (d_of_int (totalMem m - (freeMem m + buffers m + cache m))) (d_of_int (totalMem m)))"

text \<open>\<^verbatim>\<open>readStream\<close> never returns a negative count, so its check has no branch here.\<close>

definition cpu_GetMemoryUsage :: "absl \<Rightarrow> char list \<Rightarrow> string option \<Rightarrow> double option" where
  "cpu_GetMemoryUsage A block meminfo =
     (case meminfo of
        None \<Rightarrow> Some (Fin 0)
      | Some inp \<Rightarrow> do {
          (rc, s, _) \<leftarrow> readStream (LineState_empty block) inp;
          r \<leftarrow> memory_lines A s \<lparr>totalMem = 0, freeMem = 0, buffers = 0, cache = 0\<rparr>;
          Some (case r of Inl _ \<Rightarrow> Fin 0 | Inr m \<Rightarrow> used_ratio m)
        })"

section \<open>cpu_GetUsage and cpu_GetInterval\<close>

text \<open>The columns of the line; a token that is no number is skipped without counting its column.\<close>

definition is_idle_column :: "nat \<Rightarrow> bool" where
  "is_idle_column i \<longleftrightarrow> i = 3 \<or> i = 4 \<or> i = 7"

definition add_column :: "nat \<Rightarrow> int \<Rightarrow> int \<times> int \<Rightarrow> int \<times> int" where
  "add_column i c counts =
     (case counts of (idleCount, nonIdleCount) \<Rightarrow>
        if is_idle_column i then (idleCount + c, nonIdleCount) else (idleCount, nonIdleCount + c))"

function tick_columns :: "absl \<Rightarrow> LineState \<Rightarrow> nat \<Rightarrow> int \<times> int \<Rightarrow> (int \<times> int) option" where
  "tick_columns A s i counts = do {
     (tok, t) \<leftarrow> nextToken s ('' '' @ [TAB]);
     if tok = [] then Some counts
     else case SimpleAtoi64 A tok of
         None \<Rightarrow> tick_columns A t i counts
       | Some c \<Rightarrow> tick_columns A t (i + 1) (add_column i c counts)
   }"
  by pat_completeness auto
termination
proof (relation "measure (\<lambda>(A, s, i, counts). nat (lineEnd s - tokEnd s))", goal_cases)
  case (2 A s i counts p tok t)
  then show ?case using nextToken_moves [of s _ tok t] nextToken_keeps [of s _ tok t] by auto
next
  case (3 A s i counts p tok t c)
  then show ?case using nextToken_moves [of s _ tok t] nextToken_keeps [of s _ tok t] by auto
qed simp

declare tick_columns.simps [simp del]

function tick_lines :: "absl \<Rightarrow> LineState \<Rightarrow> CPUUsage \<Rightarrow> (int \<times> CPUUsage) option" where
  "tick_lines A s cpu = do {
     (b, s1) \<leftarrow> next_line s;
     if \<not> b then Some (0, cpu)
     else do {
       l \<leftarrow> line s1;
       if take 4 l = ''cpu '' then do {
         (_, s2) \<leftarrow> nextToken s1 ('' '' @ [TAB]);
         (idleCount, nonIdleCount) \<leftarrow> tick_columns A s2 0 (0, 0);
         Some (1, cpu\<lparr>nonIdle := nonIdleCount, idle := idleCount\<rparr>)
       } else tick_lines A s1 cpu
     }
   }"
  by pat_completeness auto
termination
  by (relation "measure (\<lambda>(A, s, cpu). nat (bufLen s - lineEnd s))") (auto dest: next_line_advances)

declare tick_lines.simps [simp del]

definition getTicks :: "absl \<Rightarrow> char list \<Rightarrow> string option \<Rightarrow> CPUUsage \<Rightarrow> (int \<times> CPUUsage) option" where
  "getTicks A block stat cpu =
     (case stat of
        None \<Rightarrow> Some (0, cpu)
      | Some inp \<Rightarrow> do {
          (rc, s, _) \<leftarrow> readStream (LineState_empty block) inp;
          tick_lines A s cpu
        })"

definition cpu_GetUsage :: "absl \<Rightarrow> char list \<Rightarrow> string option \<Rightarrow> int \<Rightarrow> CPUUsage \<Rightarrow> CPUUsage option" where
  "cpu_GetUsage A block stat now cpu = do {
     (_, c) \<leftarrow> getTicks A block stat cpu;
     Some (c\<lparr>timestamp := now\<rparr>)
   }"

definition usage_ratio :: "CPUUsage \<Rightarrow> CPUUsage \<Rightarrow> double" where
  "usage_ratio new old =
     (let idleTicks = idle new - idle old;
          usageTicks = nonIdle new - nonIdle old;
          allUsageTicks = idleTicks + usageTicks
      in if allUsageTicks = 0 then Fin 0 else ddiv (d_of_int usageTicks) (d_of_int allUsageTicks))"

text \<open>\<open>fresh\<close> is the local object, which is not initialised before \<^verbatim>\<open>getTicks\<close> fills it.\<close>

definition cpu_GetInterval ::
    "absl \<Rightarrow> char list \<Rightarrow> string option \<Rightarrow> int \<Rightarrow> CPUUsage \<Rightarrow> CPUUsage \<Rightarrow> (double \<times> CPUUsage) option" where
  "cpu_GetInterval A block stat now fresh oldCpu = do {
     (r, c) \<leftarrow> getTicks A block stat fresh;
     if r = 0 then Some (Fin 0, oldCpu)
     else let cpu = c\<lparr>timestamp := now\<rparr> in Some (usage_ratio cpu oldCpu, cpu)
   }"

section \<open>The generic implementation\<close>

definition generic_cpu_Init :: int where "generic_cpu_Init = - 1"

definition generic_cpu_Count :: "int \<Rightarrow> int" where
  "generic_cpu_Count nprocessors = to_int32 nprocessors"

definition generic_cpu_GetUsage :: "CPUUsage \<Rightarrow> CPUUsage" where
  "generic_cpu_GetUsage u = u\<lparr>idle := 0, nonIdle := 0, timestamp := 0\<rparr>"

definition generic_cpu_GetInterval :: "CPUUsage \<Rightarrow> double \<times> CPUUsage" where
  "generic_cpu_GetInterval u = (Fin 0, u)"

definition generic_cpu_GetMemoryUsage :: double where "generic_cpu_GetMemoryUsage = Fin 0"


section \<open>What the readers make of the text of a file\<close>

text \<open>One read of a file into an empty buffer.\<close>

lemma first_read:
  obtains s where
    "readStream (LineState_empty block) inp = Some (int (length (take (length block) inp)), s, drop (length block) inp)"
    "wf_line s" "\<not> httpMode s" "unread s = take (length block) inp"
proof -
  let ?e = "LineState_empty block" and ?bs = "take (length block) inp"
  have e: "parts ?e [] [] block" by (simp add: LineState_empty_def parts_def)
  obtain t post where t: "store_read ?e ?bs = Some t" "parts t [] ([] @ ?bs) post"
    "t = ?e\<lparr>buf := [] @ [] @ ?bs @ drop (length ?bs) block, bufLen := bufLen ?e + int (length ?bs)\<rparr>"
    using store_read_parts [OF e, of ?bs] by auto
  have "readStream ?e inp = Some (int (length ?bs), t, drop (length block) inp)"
    using t(1) by (simp add: readStream_def Let_def LineState_empty_def min_def)
  moreover have "wf_line t" "\<not> httpMode t" using t(3) by (auto simp: wf_line_def LineState_empty_def)
  moreover have "unread t = ?bs" using parts_unread [OF t(2)] by simp
  ultimately show ?thesis by (rule that)
qed

lemma next_line_none:
  assumes "wf_line s" "\<forall>c \<in> set (unread s). \<not> is_nl c"
  shows "\<exists>t. next_line s = Some (False, t)" "delivered (unread s) = []"
proof -
  have "0 \<le> lineEnd s" "lineEnd s \<le> bufLen s" "bufLen s \<le> int (length (buf s))"
    using assms(1) by (auto simp: wf_line_def)
  then obtain pre post where "parts s pre (unread s) post" by (rule wf_parts)
  from next_line_incomplete [OF this assms(2)] show "\<exists>t. next_line s = Some (False, t)" by blast
  show "delivered (unread s) = []"
    using text_no_nl [OF assms(2)] assms(2) by (auto simp: delivered_def)
qed

text \<open>The memory reader handles the two first words of each line of the file.\<close>

definition memory_line :: "absl \<Rightarrow> string \<Rightarrow> Memory \<Rightarrow> unit + Memory" where
  "memory_line A l = memory_field A (tok_word '' '' l) (tok_word '' '' (tok_rest '' '' l))"

lemma memory_lines_delivers:
  assumes "wf_line s" "\<not> httpMode s" "NUL \<notin> set (unread s)"
  shows "memory_lines A s m = Some (fold_lines (memory_line A) (delivered (unread s)) m)"
  using assms
proof (induction "length (unread s)" arbitrary: s m rule: less_induct)
  case less
  show ?case
  proof (cases "\<forall>c \<in> set (unread s). \<not> is_nl c")
    case True
    with next_line_none [OF less.prems(1)] show ?thesis by (subst memory_lines.simps) auto
  next
    case False
    obtain w ns rest t where t: "unread s = w @ ns @ rest" "next_line s = Some (True, t)" "line t = Some w"
      "tok_at t w" "wf_line t" "unread t = rest" "\<not> httpMode t"
      "delivered (unread s) = w # delivered rest" "length rest < length (unread s)"
      using next_line_tok_at [OF less.prems(1-3) False] by blast
    obtain t1 where t1: "nextToken t '' '' = Some (tok_word '' '' w, t1)" "tok_at t1 (tok_rest '' '' w)" "same_line t t1"
      using nextToken_tok_at [OF t(5,4), of "'' ''"] by auto
    have wf1: "wf_line t1" using t1(3) by (simp add: same_line_def)
    obtain t2 where t2: "nextToken t1 '' '' = Some (tok_word '' '' (tok_rest '' '' w), t2)" "same_line t1 t2"
      using nextToken_tok_at [OF wf1 t1(2), of "'' ''"] by auto
    have u: "wf_line t2" "\<not> httpMode t2" "unread t2 = rest"
      using t1(3) t2(2) t(6,7) by (auto simp: same_line_def)
    have "NUL \<notin> set rest" using less.prems(3) t(1) by simp
    then have IH: "memory_lines A t2 m' = Some (fold_lines (memory_line A) (delivered rest) m')" for m'
      using less.hyps [of t2 m'] u t(9) by simp
    show ?thesis unfolding t(8) memory_lines.simps [of A s] fold_lines.simps
      by (simp add: t(2) t1(1) t2(1) memory_line_def IH split: sum.split)
  qed
qed

text \<open>The column reader adds up the numbers of its line.\<close>

fun add_columns :: "nat \<Rightarrow> int list \<Rightarrow> int \<times> int \<Rightarrow> int \<times> int" where
  "add_columns i [] counts = counts"
| "add_columns i (c # cs) counts = add_columns (i + 1) cs (add_column i c counts)"

lemma tokens_cases:
  obtains "l = []" "tokens toks l = []"
  | "l \<noteq> []" "tokens toks l = tok_word toks l # tokens toks (tok_rest toks l)"
  by (metis tokens.simps)

lemma tick_columns_sum:
  assumes "wf_line s" "tok_at s l" "tokens ('' '' @ [TAB]) l = ts" "\<forall>t \<in> set ts. t \<noteq> []"
    and "map (SimpleAtoi64 A) ts = map Some vs"
  shows "tick_columns A s i counts = Some (add_columns i vs counts)"
  using assms
proof (induction ts arbitrary: s l vs i counts)
  case Nil
  let ?T = "'' '' @ [TAB]"
  have l: "l = []" using Nil.prems(3) by (cases rule: tokens_cases [of l ?T]) auto
  obtain t where "nextToken s ?T = Some (tok_word ?T l, t)"
    using nextToken_tok_at [OF Nil.prems(1,2), of ?T] by auto
  then show ?case using l Nil.prems(5) by (subst tick_columns.simps) (simp add: tok_word_def)
next
  case (Cons tok ts)
  let ?T = "'' '' @ [TAB]"
  have l: "tok_word ?T l = tok" "tokens ?T (tok_rest ?T l) = ts"
    using Cons.prems(3) by (cases rule: tokens_cases [of l ?T]; simp)+
  obtain t where t: "nextToken s ?T = Some (tok, t)" "tok_at t (tok_rest ?T l)" "same_line s t"
    using nextToken_tok_at [OF Cons.prems(1,2), of ?T] l(1) by auto
  obtain c cs where c: "vs = c # cs" "SimpleAtoi64 A tok = Some c" "map (SimpleAtoi64 A) ts = map Some cs"
    using Cons.prems(5) by (cases vs) auto
  have "wf_line t" using t(3) by (simp add: same_line_def)
  from Cons.IH [OF this t(2) l(2) _ c(3)] Cons.prems(4)
  have "tick_columns A t (i + 1) (add_column i c counts) = Some (add_columns (i + 1) cs (add_column i c counts))"
    by simp
  then show ?case using t(1) c Cons.prems(4) by (subst tick_columns.simps) simp
qed

text \<open>The text of \<^verbatim>\<open>/proc/stat\<close>: its first line is the sum over all processors.\<close>

definition stat_text :: "nat list \<Rightarrow> string \<Rightarrow> string" where
  "stat_text vs rest = ''cpu '' @ concat (map (\<lambda>v. '' '' @ show_nat v) vs) @ LF # rest"

definition idle_ticks :: "nat list \<Rightarrow> int" where
  "idle_ticks vs = (\<Sum>i<length vs. if is_idle_column i then int (vs ! i) else 0)"

definition busy_ticks :: "nat list \<Rightarrow> int" where
  "busy_ticks vs = (\<Sum>i<length vs. if is_idle_column i then 0 else int (vs ! i))"

lemma add_columns_append: "add_columns i (xs @ ys) p = add_columns (i + length xs) ys (add_columns i xs p)"
  by (induction xs arbitrary: i p) simp_all

lemma add_columns_ticks: "add_columns 0 (map int vs) (0, 0) = (idle_ticks vs, busy_ticks vs)"
proof (induction vs rule: rev_induct)
  case (snoc v vs)
  have "(\<Sum>i<length vs. f ((vs @ [v]) ! i) i) = (\<Sum>i<length vs. f (vs ! i) i)" for f :: "nat \<Rightarrow> nat \<Rightarrow> int"
    by (intro sum.cong) (simp_all add: nth_append)
  from this [of "\<lambda>x i. if is_idle_column i then int x else 0"] this [of "\<lambda>x i. if is_idle_column i then 0 else int x"]
  have "idle_ticks (vs @ [v]) = idle_ticks vs + (if is_idle_column (length vs) then int v else 0)"
    "busy_ticks (vs @ [v]) = busy_ticks vs + (if is_idle_column (length vs) then 0 else int v)"
    unfolding idle_ticks_def busy_ticks_def by (simp_all add: nth_append)
  with snoc show ?case by (simp add: add_columns_append add_column_def)
qed (simp add: idle_ticks_def busy_ticks_def)

lemma decimal_show_nat: "decimal_value (show_nat n) = Some (int n)"
proof -
  obtain c t where c: "show_nat n = c # t" using show_nat_nonempty by (cases "show_nat n") auto
  have dig: "\<forall>x \<in> set (show_nat n). is_digit x" using show_nat_is_digit by blast
  then have nosp: "\<forall>x \<in> set (show_nat n). \<not> isspace x" by (auto simp: is_digit_def isspace_def)
  have "dropWhile isspace (show_nat n) = show_nat n" using nosp by (cases "show_nat n") auto
  moreover have "dropWhile isspace (rev (show_nat n)) = rev (show_nat n)"
    using nosp by (cases "rev (show_nat n)") (auto simp: rev_eq_Cons_iff)
  moreover have "hd (show_nat n) \<noteq> CHR ''-''" "hd (show_nat n) \<noteq> CHR ''+''"
    using dig c by (auto simp: is_digit_def byte_of_def)
  ultimately show ?thesis using dig read_show_nat [of n]
    by (simp add: decimal_value_def Let_def list_all_iff)
qed

lemma SimpleAtoi64_show_nat: "absl_ok A \<Longrightarrow> n < 2 ^ 63 \<Longrightarrow> SimpleAtoi64 A (show_nat n) = Some (int n)"
  by (simp add: absl_ok_def decimal_show_nat within_def)

lemma show_nat_plain: "c \<in> set (show_nat n) \<Longrightarrow> \<not> is_nl c \<and> c \<noteq> NUL \<and> c \<noteq> CHR '' '' \<and> c \<noteq> TAB \<and> c \<noteq> CHR '':''"
  using show_nat_is_digit [of c n] by (auto simp: is_digit_def byte_of_def is_nl_def)

lemma take_prefix: "length xs \<le> n \<Longrightarrow> take n (xs @ ys) = xs @ take (n - length xs) ys"
  by simp

text \<open>The words of such a line.\<close>

lemma stat_line_words:
  assumes "vs \<noteq> []"
  obtains ps w where "''cpu '' @ concat (map (\<lambda>v. '' '' @ show_nat v) vs) = spaced ps @ w"
    "spaced_ok ('' '' @ [TAB]) ps" "w \<noteq> []" "\<forall>c \<in> set w. c \<notin> set ('' '' @ [TAB])"
    "map fst ps @ [w] = ''cpu'' # map show_nat vs"
proof -
  let ?ps = "(''cpu'', ''  '') # map (\<lambda>v. (show_nat v, '' '')) (butlast vs)" and ?w = "show_nat (last vs)"
  obtain us v where vs: "vs = us @ [v]" using assms by (cases vs rule: rev_cases) auto
  have sep: "concat (map (\<lambda>v. '' '' @ show_nat v) (us @ [v])) =
      '' '' @ concat (map (\<lambda>v. show_nat v @ '' '') us) @ show_nat v" for us
    by (induction us) simp_all
  show ?thesis
  proof (rule that [of ?ps ?w])
    show "''cpu '' @ concat (map (\<lambda>v. '' '' @ show_nat v) vs) = spaced ?ps @ ?w"
      unfolding vs sep by (simp add: spaced_def o_def)
    show "spaced_ok ('' '' @ [TAB]) ?ps"
      using show_nat_plain by (auto simp: spaced_ok_def list_all_iff)
    show "map fst ?ps @ [?w] = ''cpu'' # map show_nat vs" unfolding vs by (simp add: o_def)
  qed (use show_nat_plain in auto)
qed

lemma getTicks_stat_text:
  assumes A: "absl_ok A" and vs: "vs \<noteq> []" "list_all (\<lambda>v. v < 2 ^ 63) vs" and rest: "NUL \<notin> set rest"
    and fits: "length (stat_text vs '''') \<le> length block"
  shows "getTicks A block (Some (stat_text vs rest)) cpu =
     Some (1, cpu\<lparr>nonIdle := busy_ticks vs, idle := idle_ticks vs\<rparr>)"
proof -
  define l where "l = ''cpu '' @ concat (map (\<lambda>v. '' '' @ show_nat v) vs)"
  let ?T = "'' '' @ [TAB]"
  let ?inp = "stat_text vs rest"
  have inp: "?inp = (l @ [LF]) @ rest" and len: "length (l @ [LF]) \<le> length block"
    using fits by (simp_all add: stat_text_def l_def)
  obtain s where s: "readStream (LineState_empty block) ?inp = Some (int (length (take (length block) ?inp)), s, drop (length block) ?inp)"
    "wf_line s" "\<not> httpMode s" "unread s = take (length block) ?inp" by (rule first_read)
  have "take (length block) ?inp = l @ LF # take (length block - length (l @ [LF])) rest"
    unfolding inp take_prefix [OF len] by simp
  moreover have "NUL \<notin> set (take (length block - length (l @ [LF])) rest)" using rest by (auto dest: in_set_takeD)
  ultimately obtain r where r: "unread s = l @ LF # r" "NUL \<notin> set r" using s(4) by auto
  have plain: "\<forall>c \<in> set l. \<not> is_nl c \<and> c \<noteq> NUL" using show_nat_plain by (auto simp: is_nl_def l_def)
  have "NUL \<notin> set (unread s)" using r plain by auto
  moreover have "\<not> (\<forall>c \<in> set (unread s). \<not> is_nl c)" using r by (simp add: is_nl_def)
  ultimately obtain w ns r' t where t: "unread s = w @ ns @ r'" "next_line s = Some (True, t)" "line t = Some w"
    "tok_at t w" "wf_line t" "delivered (unread s) = w # delivered r'"
    using next_line_tok_at [OF s(2,3)] by blast
  have ne: "l \<noteq> []" by (simp add: l_def)
  then have "\<not> is_nl (hd (unread s))" using plain r(1) by (cases l) auto
  then have "delivered (unread s) = text_lines (l @ [LF] @ r)" using r(1) by (simp add: delivered_def)
  also have "\<dots> = l # text_lines r"
    using text_first_line(1) [of l "[LF]" r] plain ne by (simp add: is_nl_def)
  finally have w: "w = l" unfolding t(6) by (rule list.inject [THEN iffD1, THEN conjunct1])
  obtain ps v where ps: "l = spaced ps @ v" "spaced_ok ?T ps" "v \<noteq> []" "\<forall>c \<in> set v. c \<notin> set ?T"
    "map fst ps @ [v] = ''cpu'' # map show_nat vs" unfolding l_def by (rule stat_line_words [OF vs(1)])
  have tk: "tokens ?T w = ''cpu'' # map show_nat vs"
    using tokens_spaced [OF ps(2-4)] ps(1,5) w by simp
  then have wd: "tok_word ?T w = ''cpu''" "tokens ?T (tok_rest ?T w) = map show_nat vs"
    by (cases rule: tokens_cases [of w ?T]; simp)+
  obtain t1 where t1: "nextToken t ?T = Some (''cpu'', t1)" "tok_at t1 (tok_rest ?T w)" "same_line t t1"
    using nextToken_tok_at [OF t(5,4), of ?T] wd(1) by auto
  have wf1: "wf_line t1" using t1(3) by (simp add: same_line_def)
  have "map (SimpleAtoi64 A) (map show_nat vs) = map Some (map int vs)"
    using vs(2) SimpleAtoi64_show_nat [OF A] by (auto simp: list_all_iff)
  from tick_columns_sum [OF wf1 t1(2) wd(2) _ this, of 0 "(0, 0)"]
  have "tick_columns A t1 0 (0, 0) = Some (idle_ticks vs, busy_ticks vs)" by (simp add: add_columns_ticks)
  moreover have "take 4 w = ''cpu ''" using w by (simp add: l_def)
  ultimately have "tick_lines A s cpu = Some (1, cpu\<lparr>nonIdle := busy_ticks vs, idle := idle_ticks vs\<rparr>)"
    using t(2,3) t1(1) by (subst tick_lines.simps) simp
  then show ?thesis using s(1) by (simp add: getTicks_def)
qed


lemma rnd_one [simp]: "rnd 1 = 1"
  using rnd_int [of 1] by simp

text \<open>A quotient of integers between 0 and 1 stays there through the rounding.\<close>

lemma ratio_range:
  assumes "0 \<le> a" "a \<le> b" "0 < b" "b < 2 ^ 63"
  shows "\<exists>x. ddiv (d_of_int a) (d_of_int b) = Fin x \<and> 0 \<le> x \<and> x \<le> 1"
proof -
  note a = d_of_int_Fin [of a] and b = d_of_int_Fin [of b]
  let ?a = "rnd (of_int a)" and ?b = "rnd (of_int b)"
  have ab: "?a \<le> ?b" using assms by (intro rnd_mono) auto
  have "rnd (1::rat) \<le> ?b" using assms by (intro rnd_mono) auto
  then have pos: "0 < ?b" by simp
  have q: "0 \<le> ?a / ?b" "?a / ?b \<le> 1" using a(2) ab pos assms by (simp_all add: divide_le_eq)
  have "(1::rat) \<le> 2 powi 1023" by (simp add: power_int_def)
  with q have "fl (?a / ?b) = Fin (rnd (?a / ?b))" by (intro fl_Fin) auto
  moreover have "0 \<le> rnd (?a / ?b)" using q(1) by (rule rnd_nonneg)
  moreover have "rnd (?a / ?b) \<le> rnd 1" using q by (intro rnd_mono) auto
  ultimately show ?thesis using a(1) b(1) assms pos by auto
qed

lemma usage_ratio_range:
  assumes "idle old \<le> idle new" "nonIdle old \<le> nonIdle new"
    "idle new - idle old + (nonIdle new - nonIdle old) < 2 ^ 63"
  shows "\<exists>x. usage_ratio new old = Fin x \<and> 0 \<le> x \<and> x \<le> 1"
proof (cases "idle new - idle old + (nonIdle new - nonIdle old) = 0")
  case True
  then show ?thesis by (simp add: usage_ratio_def Let_def)
next
  case False
  with assms ratio_range [of "nonIdle new - nonIdle old" "idle new - idle old + (nonIdle new - nonIdle old)"]
  show ?thesis by (simp add: usage_ratio_def Let_def)
qed

lemma column_sums:
  "idle_ticks vs + busy_ticks vs = int (sum_list vs)" "0 \<le> idle_ticks vs" "0 \<le> busy_ticks vs"
  "list_all2 (\<le>) us vs \<Longrightarrow> idle_ticks us \<le> idle_ticks vs" "list_all2 (\<le>) us vs \<Longrightarrow> busy_ticks us \<le> busy_ticks vs"
proof -
  have "idle_ticks vs + busy_ticks vs = (\<Sum>i<length vs. int (vs ! i))"
    unfolding idle_ticks_def busy_ticks_def sum.distrib [symmetric] by (rule sum.cong) auto
  also have "\<dots> = int (sum_list vs)" by (simp add: sum_list_sum_nth lessThan_atLeast0)
  finally show "idle_ticks vs + busy_ticks vs = int (sum_list vs)" .
  show "0 \<le> idle_ticks vs" "0 \<le> busy_ticks vs"
    unfolding idle_ticks_def busy_ticks_def by (auto intro: sum_nonneg)
  assume "list_all2 (\<le>) us vs"
  then have "length us = length vs" "\<And>i. i < length vs \<Longrightarrow> us ! i \<le> vs ! i"
    by (simp_all add: list_all2_conv_all_nth)
  then show "idle_ticks us \<le> idle_ticks vs" "busy_ticks us \<le> busy_ticks vs"
    unfolding idle_ticks_def busy_ticks_def by (auto intro!: sum_mono)
qed

text \<open>The text of \<^verbatim>\<open>/proc/meminfo\<close>: a name, its value and a unit on each line.\<close>

definition meminfo_line :: "string \<times> nat \<Rightarrow> string" where
  "meminfo_line f = fst f @ '':  '' @ show_nat (snd f) @ '' kB''"

definition meminfo_text :: "(string \<times> nat) list \<Rightarrow> string" where
  "meminfo_text fs = concat (map (\<lambda>f. meminfo_line f @ [LF]) fs)"

definition field_ok :: "string \<times> nat \<Rightarrow> bool" where
  "field_ok f \<longleftrightarrow> snd f < 2 ^ 63 \<and>
     list_all (\<lambda>c. \<not> is_nl c \<and> c \<noteq> NUL \<and> c \<noteq> CHR '' '' \<and> c \<noteq> CHR '':'') (fst f)"

definition field_of :: "(string \<times> nat) list \<Rightarrow> string \<Rightarrow> int" where
  "field_of fs n = (case map_of fs n of None \<Rightarrow> 0 | Some v \<Rightarrow> int v)"

definition memory_of :: "(string \<times> nat) list \<Rightarrow> Memory" where
  "memory_of fs = \<lparr>totalMem = field_of fs ''MemTotal'', freeMem = field_of fs ''MemFree'',
     buffers = field_of fs ''Buffers'', cache = field_of fs ''Cached''\<rparr>"

lemma tok_words_of_meminfo_line:
  assumes "field_ok f"
  shows "tok_word '' '' (meminfo_line f) = fst f @ '':''"
    "tok_word '' '' (tok_rest '' '' (meminfo_line f)) = show_nat (snd f)"
proof -
  obtain c t where c: "show_nat (snd f) = c # t" "c \<noteq> CHR '' ''"
    using show_nat_nonempty [of "snd f"] show_nat_plain [of _ "snd f"] by (cases "show_nat (snd f)") auto
  have n: "\<forall>c \<in> set (fst f @ '':''). c \<notin> set '' ''" using assms by (auto simp: field_ok_def list_all_iff)
  have "meminfo_line f = (fst f @ '':'') @ ''  '' @ (show_nat (snd f) @ '' kB'')"
    by (simp add: meminfo_line_def)
  then have "tok_word '' '' (meminfo_line f) = fst f @ '':''"
    "tok_rest '' '' (meminfo_line f) = show_nat (snd f) @ '' '' @ ''kB''"
    using tok_word_spaced [OF n, of "''  ''" "show_nat (snd f) @ '' kB''"] c by simp_all
  moreover have "\<forall>c \<in> set (show_nat (snd f)). c \<notin> set '' ''" using show_nat_plain by auto
  ultimately show "tok_word '' '' (meminfo_line f) = fst f @ '':''"
    "tok_word '' '' (tok_rest '' '' (meminfo_line f)) = show_nat (snd f)"
    using tok_word_spaced(1) [of "show_nat (snd f)" "'' ''" "'' ''" "''kB''"] by simp_all
qed

lemma memory_line_field:
  assumes "absl_ok A" "field_ok f"
  shows "memory_line A (meminfo_line f) m =
     Inr (if fst f = ''MemTotal'' then m\<lparr>totalMem := int (snd f)\<rparr>
          else if fst f = ''MemFree'' then m\<lparr>freeMem := int (snd f)\<rparr>
          else if fst f = ''Buffers'' then m\<lparr>buffers := int (snd f)\<rparr>
          else if fst f = ''Cached'' then m\<lparr>cache := int (snd f)\<rparr> else m)"
proof -
  have v: "SimpleAtoi64 A (show_nat (snd f)) = Some (int (snd f))"
    using assms by (intro SimpleAtoi64_show_nat) (auto simp: field_ok_def)
  have n: "fst f @ '':'' = name @ '':'' \<longleftrightarrow> fst f = name" for name by simp
  from n [of "''MemTotal''"] n [of "''MemFree''"] n [of "''Buffers''"] n [of "''Cached''"]
  show ?thesis unfolding memory_line_def tok_words_of_meminfo_line [OF assms(2)] memory_field_def
    by (simp add: v)
qed

definition example_meminfo :: "(string \<times> nat) list" where
  "example_meminfo = [(''MemTotal'', 100), (''MemFree'', 20), (''MemAvailable'', 70), (''Cached'', 30), (''Buffers'', 10)]"

lemma memory_lines_fields:
  assumes "absl_ok A" "list_all field_ok fs" "distinct (map fst fs)"
    and "''MemTotal'' \<in> set (map fst fs) \<Longrightarrow> totalMem m = 0" "''MemFree'' \<in> set (map fst fs) \<Longrightarrow> freeMem m = 0"
      "''Buffers'' \<in> set (map fst fs) \<Longrightarrow> buffers m = 0" "''Cached'' \<in> set (map fst fs) \<Longrightarrow> cache m = 0"
  shows "fold_lines (memory_line A) (map meminfo_line fs) m =
     Inr \<lparr>totalMem = totalMem m + field_of fs ''MemTotal'', freeMem = freeMem m + field_of fs ''MemFree'',
          buffers = buffers m + field_of fs ''Buffers'', cache = cache m + field_of fs ''Cached''\<rparr>"
  using assms(2-)
proof (induction fs arbitrary: m)
  case (Cons f fs)
  have new: "fst f \<notin> set (map fst fs)" using Cons.prems(2) by simp
  then have no: "field_of fs (fst f) = 0"
    by (simp add: field_of_def map_of_eq_None_iff [THEN iffD2] split: option.split)
  have f: "field_of (f # fs) n = (if n = fst f then int (snd f) else field_of fs n)" for n
    by (simp add: field_of_def)
  have ok: "field_ok f" "list_all field_ok fs" "distinct (map fst fs)" using Cons.prems by auto
  have zero: "n = fst f \<or> n \<in> set (map fst fs) \<Longrightarrow> n \<in> set (map fst (f # fs))" for n by auto
  note z = Cons.prems(3-6) [OF zero]
  consider "fst f = ''MemTotal''" | "fst f = ''MemFree''" | "fst f = ''Buffers''" | "fst f = ''Cached''"
    | "fst f \<noteq> ''MemTotal''" "fst f \<noteq> ''MemFree''" "fst f \<noteq> ''Buffers''" "fst f \<noteq> ''Cached''" by blast
  then show ?case
  proof cases
    case 1
    with new no z show ?thesis
      unfolding list.map fold_lines.simps memory_line_field [OF assms(1) ok(1)] sum.case f
      by (subst Cons.IH [OF ok(2,3)]) simp_all
  next
    case 2
    with new no z show ?thesis
      unfolding list.map fold_lines.simps memory_line_field [OF assms(1) ok(1)] sum.case f
      by (subst Cons.IH [OF ok(2,3)]) simp_all
  next
    case 3
    with new no z show ?thesis
      unfolding list.map fold_lines.simps memory_line_field [OF assms(1) ok(1)] sum.case f
      by (subst Cons.IH [OF ok(2,3)]) simp_all
  next
    case 4
    with new no z show ?thesis
      unfolding list.map fold_lines.simps memory_line_field [OF assms(1) ok(1)] sum.case f
      by (subst Cons.IH [OF ok(2,3)]) simp_all
  next
    case 5
    with z show ?thesis
      unfolding list.map fold_lines.simps memory_line_field [OF assms(1) ok(1)] sum.case f
      by (subst Cons.IH [OF ok(2,3)]) simp_all
  qed
qed (simp add: field_of_def)

lemma meminfo_text_lines:
  assumes "list_all field_ok fs"
  shows "delivered (meminfo_text fs) = map meminfo_line fs" "NUL \<notin> set (meminfo_text fs)"
proof -
  have plain: "\<forall>c \<in> set (meminfo_line f). \<not> is_nl c \<and> c \<noteq> NUL" if "field_ok f" for f
    using that show_nat_plain by (auto simp: meminfo_line_def field_ok_def list_all_iff is_nl_def)
  have first: "meminfo_text fs = [] \<or> \<not> is_nl (hd (meminfo_text fs))" if "list_all field_ok fs" for fs
    using that plain by (cases fs) (auto simp: meminfo_text_def meminfo_line_def neq_Nil_conv hd_append is_nl_def)
  show "NUL \<notin> set (meminfo_text fs)"
    using assms plain by (auto simp: meminfo_text_def list_all_iff)
  show "delivered (meminfo_text fs) = map meminfo_line fs" using assms
  proof (induction fs)
    case (Cons f fs)
    have "delivered (meminfo_line f @ [LF] @ meminfo_text fs) = meminfo_line f # delivered (meminfo_text fs)"
      using Cons.prems plain [of f] first [of fs] by (intro delivered_step) (auto simp: is_nl_def)
    with Cons show ?case by (simp add: meminfo_text_def)
  qed (simp add: meminfo_text_def delivered_def text_lines_def)
qed

section \<open>The readers are defined on every text\<close>

lemma read_into_empty:
  obtains rc s inp' where "readStream (LineState_empty block) inp = Some (rc, s, inp')" "line_inv s"
proof -
  have "\<exists>t. call_line (ReadStream inp) (LineState_empty block) = Some t \<and> line_inv t \<and> bufSize t = bufSize (LineState_empty block)"
    by (rule call_line_inv [OF line_inv_empty]) simp
  with that show ?thesis by auto
qed

lemma tick_columns_total: "line_inv s \<Longrightarrow> \<exists>r. tick_columns A s i counts = Some r"
proof (induction A s i counts rule: tick_columns.induct)
  case (1 A s i counts)
  obtain tok t where t: "nextToken s ('' '' @ [TAB]) = Some (tok, t)" "line_inv t"
    using nextToken_inv [OF "1.prems"] by blast
  show ?case
  proof (cases "tok = []")
    case True
    with t(1) show ?thesis by (subst tick_columns.simps) simp
  next
    case False
    show ?thesis
    proof (cases "SimpleAtoi64 A tok")
      case None
      with "1.IH"(1) [OF t(1) refl False None t(2)] t(1) False show ?thesis
        by (subst tick_columns.simps) simp
    next
      case (Some c)
      with "1.IH"(2) [OF t(1) refl False Some t(2)] t(1) False show ?thesis
        by (subst tick_columns.simps) simp
    qed
  qed
qed

lemma tick_lines_total: "line_inv s \<Longrightarrow> \<exists>r. tick_lines A s cpu = Some r"
proof (induction A s cpu rule: tick_lines.induct)
  case (1 A s cpu)
  obtain b t where t: "next_line s = Some (b, t)" "line_inv t" using next_line_inv [OF "1.prems"] by blast
  obtain l where l: "line t = Some l" using line_defined [OF t(2)] .
  obtain tok u where u: "nextToken t ('' '' @ [TAB]) = Some (tok, u)" "line_inv u"
    using nextToken_inv [OF t(2)] by blast
  obtain p where p: "tick_columns A u 0 (0, 0) = Some p" using tick_columns_total [OF u(2)] by blast
  show ?case
  proof (cases "b \<and> take 4 l \<noteq> ''cpu ''")
    case True
    with "1.IH" [OF t(1) refl _ l _ t(2)] t(1) l show ?thesis by (subst tick_lines.simps) simp
  next
    case False
    with t(1) l u(1) p show ?thesis by (subst tick_lines.simps) (cases p; auto)
  qed
qed

lemma memory_lines_total: "line_inv s \<Longrightarrow> \<exists>r. memory_lines A s m = Some r"
proof (induction A s m rule: memory_lines.induct)
  case (1 A s m)
  obtain b t where t: "next_line s = Some (b, t)" "line_inv t" using next_line_inv [OF "1.prems"] by blast
  obtain n u where u: "nextToken t '' '' = Some (n, u)" "line_inv u" using nextToken_inv [OF t(2)] by blast
  obtain v w where w: "nextToken u '' '' = Some (v, w)" "line_inv w" using nextToken_inv [OF u(2)] by blast
  show ?case
  proof (cases "memory_field A n v m")
    case (Inl e)
    with t(1) u(1) w(1) show ?thesis by (subst memory_lines.simps) simp
  next
    case (Inr m')
    with "1.IH" [OF t(1) refl _ u(1) refl w(1) refl Inr w(2)] t(1) u(1) w(1) show ?thesis
      by (subst memory_lines.simps) (cases b; simp)
  qed
qed

lemma getTicks_total: "\<exists>r. getTicks A block stat cpu = Some r"
proof (cases stat)
  case (Some inp)
  obtain rc s inp' where s: "readStream (LineState_empty block) inp = Some (rc, s, inp')" "line_inv s"
    by (rule read_into_empty)
  with Some tick_lines_total [OF s(2)] show ?thesis by (simp add: getTicks_def)
qed (simp add: getTicks_def)

lemma cpu_GetUsage_total: "\<exists>u. cpu_GetUsage A block stat t cpu = Some u"
  using getTicks_total [of A block stat cpu] by (auto simp: cpu_GetUsage_def)

lemma cpu_GetInterval_total: "\<exists>d u. cpu_GetInterval A block stat t fresh old = Some (d, u)"
  using getTicks_total [of A block stat fresh] by (auto simp: cpu_GetInterval_def Let_def)

lemma cpu_GetMemoryUsage_total: "\<exists>d. cpu_GetMemoryUsage A block meminfo = Some d"
proof (cases meminfo)
  case (Some inp)
  obtain rc s inp' where s: "readStream (LineState_empty block) inp = Some (rc, s, inp')" "line_inv s"
    by (rule read_into_empty)
  obtain r where "memory_lines A s \<lparr>totalMem = 0, freeMem = 0, buffers = 0, cache = 0\<rparr> = Some r"
    using memory_lines_total [OF s(2)] by blast
  with Some s(1) show ?thesis by (simp add: cpu_GetMemoryUsage_def)
qed (simp add: cpu_GetMemoryUsage_def)

section \<open>Properties\<close>

text \<open>C20. CPU usage is a ratio: given two successive contents of \<^verbatim>\<open>/proc/stat\<close> whose columns never
  decrease, \<open>cpu_GetInterval\<close> after \<open>cpu_GetUsage\<close> returns a finite number between 0 and 1, the
  correctly rounded share of the non-idle ticks, and remembers the new counts, whatever follows
  the first line of the file and whatever part of it fits the buffer.\<close>

theorem cpu_interval_ratio:
  assumes "absl_ok A" "us \<noteq> []" "list_all2 (\<le>) us vs" "sum_list vs < 2 ^ 63"
    and "NUL \<notin> set rest" "NUL \<notin> set rest'"
    and "length (stat_text us '''') \<le> length block" "length (stat_text vs '''') \<le> length block"
  shows "\<exists>old new x.
    cpu_GetUsage A block (Some (stat_text us rest)) t0 cpu = Some old \<and>
    cpu_GetInterval A block (Some (stat_text vs rest')) t1 fresh old = Some (Fin x, new) \<and>
    0 \<le> x \<and> x \<le> 1 \<and>
    idle new = idle_ticks vs \<and> nonIdle new = busy_ticks vs \<and> timestamp new = t1 \<and>
    (sum_list us < sum_list vs \<longrightarrow>
       Fin x = ddiv (d_of_int (busy_ticks vs - busy_ticks us)) (d_of_int (int (sum_list vs) - int (sum_list us))))"
proof -
  have vs: "vs \<noteq> []" using assms(2,3) by auto
  have lt: "v < 2 ^ 63" if "v \<in> set vs" for v
    using member_le_sum_list [OF that] assms(4) by simp
  have lt': "u < 2 ^ 63" if "u \<in> set us" for u
  proof -
    from that assms(3) obtain v where "v \<in> set vs" "u \<le> v"
      by (metis in_set_conv_nth list_all2_conv_all_nth)
    with lt [of v] show ?thesis by simp
  qed
  let ?old = "cpu\<lparr>nonIdle := busy_ticks us, idle := idle_ticks us, timestamp := t0\<rparr>"
  let ?new = "fresh\<lparr>nonIdle := busy_ticks vs, idle := idle_ticks vs, timestamp := t1\<rparr>"
  have old: "cpu_GetUsage A block (Some (stat_text us rest)) t0 cpu = Some ?old"
    using getTicks_stat_text [OF assms(1,2) _ assms(5,7)] lt' by (simp add: cpu_GetUsage_def list_all_iff)
  have new: "cpu_GetInterval A block (Some (stat_text vs rest')) t1 fresh ?old = Some (usage_ratio ?new ?old, ?new)"
    using getTicks_stat_text [OF assms(1) vs _ assms(6,8)] lt by (simp add: cpu_GetInterval_def list_all_iff Let_def)
  have all: "idle ?new - idle ?old + (nonIdle ?new - nonIdle ?old) = int (sum_list vs) - int (sum_list us)"
    using column_sums(1) [of us] column_sums(1) [of vs] by simp
  have "int (sum_list vs) < 2 ^ 63" using assms(4) by simp
  then obtain x where "usage_ratio ?new ?old = Fin x" "0 \<le> x" "x \<le> 1"
    using usage_ratio_range [of ?old ?new] column_sums(4,5) [OF assms(3)] all by auto
  moreover have "usage_ratio ?new ?old = ddiv (d_of_int (busy_ticks vs - busy_ticks us)) (d_of_int (int (sum_list vs) - int (sum_list us)))"
    if "sum_list us < sum_list vs"
    using that all by (simp add: usage_ratio_def Let_def)
  ultimately show ?thesis using old new by (intro exI [of _ ?old] exI [of _ ?new] exI [of _ x]) auto
qed

lemma example_numbers:
  "show_nat 0 = ''0''" "show_nat (Suc 0) = ''1''" "show_nat 10 = ''10''" "show_nat 5 = ''5''" "show_nat 100 = ''100''" "show_nat 20 = ''20''"
  "show_nat 130 = ''130''" "show_nat 30 = ''30''" "show_nat 70 = ''70''"
  by code_simp+

lemma cpu_interval_ratio_witness:
  "\<exists>old new.
    cpu_GetUsage absl_reference (replicate 8192 NUL) (Some (stat_text [10, 0, 5, 100] ''x'')) 1 \<lparr>idle = 0, nonIdle = 0, timestamp = 0\<rparr> = Some old \<and>
    cpu_GetInterval absl_reference (replicate 8192 NUL) (Some (stat_text [20, 0, 5, 130] '''')) 2 \<lparr>idle = 7, nonIdle = 7, timestamp = 7\<rparr> old =
      Some (ddiv (d_of_int 10) (d_of_int 40), new) \<and>
    idle new = 130 \<and> nonIdle new = 25 \<and> timestamp new = 2"
proof -
  have ticks: "idle_ticks [20, 0, 5, 130] = 130" "busy_ticks [20, 0, 5, 130] = 25" "busy_ticks [10, 0, 5, 100] = 15"
    by code_simp+
  obtain old new x where
    "cpu_GetUsage absl_reference (replicate 8192 NUL) (Some (stat_text [10, 0, 5, 100] ''x'')) 1 \<lparr>idle = 0, nonIdle = 0, timestamp = 0\<rparr> = Some old"
    "cpu_GetInterval absl_reference (replicate 8192 NUL) (Some (stat_text [20, 0, 5, 130] '''')) 2 \<lparr>idle = 7, nonIdle = 7, timestamp = 7\<rparr> old = Some (Fin x, new)"
    "Fin x = ddiv (d_of_int 10) (d_of_int 40)" "idle new = 130" "nonIdle new = 25" "timestamp new = 2"
    using cpu_interval_ratio [OF absl_reference_ok, of "[10, 0, 5, 100]" "[20, 0, 5, 130]" "''x''" "''''" "replicate 8192 NUL" 1
        "\<lparr>idle = 0, nonIdle = 0, timestamp = 0\<rparr>" 2 "\<lparr>idle = 7, nonIdle = 7, timestamp = 7\<rparr>"]
    by (auto simp: stat_text_def example_numbers ticks)
  then show ?thesis by auto
qed



end
