(* ===== verification/Cpu_Bsd.thy ===== *)
theory Cpu_Bsd
  imports Cpu
begin

text \<open>
  \<^verbatim>\<open>apib/apib_cpu_bsd.cc\<close>: the CPU and memory readings on BSD systems, from \<^verbatim>\<open>times\<close>,
  \<^verbatim>\<open>sysconf\<close> and \<^verbatim>\<open>sysctlbyname\<close>, whose answers are arguments. A \<^verbatim>\<open>sysctlbyname\<close> that fails
  leaves its variable alone; here it answers with the value the variable then has.
\<close>

definition bsd_cpu_Init :: int where "bsd_cpu_Init = 0"

definition bsd_cpu_Count :: "int \<Rightarrow> int" where
  "bsd_cpu_Count nprocessors = to_int32 nprocessors"

text \<open>The answer of \<^verbatim>\<open>times\<close>: the elapsed ticks, -1 for an error, and the process's own CPU times.\<close>

record times_answer =
  elapsed_ticks :: int
  tms_utime :: int
  tms_stime :: int

definition bsd_getTicks :: "times_answer \<Rightarrow> CPUUsage \<Rightarrow> int \<times> CPUUsage" where
  "bsd_getTicks a cpu =
     (let c = cpu\<lparr>idle := elapsed_ticks a\<rparr> in
      if idle c = - 1 then (0, c) else (1, c\<lparr>nonIdle := tms_utime a + tms_stime a\<rparr>))"

definition bsd_cpu_GetUsage :: "times_answer \<Rightarrow> int \<Rightarrow> CPUUsage \<Rightarrow> CPUUsage" where
  "bsd_cpu_GetUsage a now cpu = (snd (bsd_getTicks a cpu))\<lparr>timestamp := now\<rparr>"

definition bsd_cpu_GetInterval :: "times_answer \<Rightarrow> int \<Rightarrow> CPUUsage \<Rightarrow> CPUUsage \<Rightarrow> double \<times> CPUUsage" where
  "bsd_cpu_GetInterval a now fresh oldCpu =
     (case bsd_getTicks a fresh of (r, c) \<Rightarrow>
        if r = 0 then (Fin 0, oldCpu)
        else let cpu = c\<lparr>timestamp := now\<rparr> in (usage_ratio cpu oldCpu, cpu))"

definition bsd_cpu_GetMemoryUsage :: "int \<Rightarrow> int \<Rightarrow> int \<Rightarrow> int \<Rightarrow> int \<Rightarrow> double" where
  "bsd_cpu_GetMemoryUsage page_size phys_pages free_count bufspace inactive_count =
     (let pagesize = c_div page_size 1024
      in used_ratio \<lparr>totalMem = phys_pages * pagesize, freeMem = free_count * pagesize,
                     buffers = c_div bufspace 1024, cache = inactive_count * pagesize\<rparr>)"

text \<open>The elapsed ticks stand for the idle ones, so the share never passes one half: a process that
  used a processor for the whole interval is reported as half busy.\<close>

lemma busy_process_is_half_busy:
  assumes "elapsed_ticks a = idle old + n" "tms_utime a + tms_stime a = nonIdle old + n" "0 < n" "elapsed_ticks a \<noteq> - 1"
  shows "fst (bsd_cpu_GetInterval a now fresh old) = ddiv (d_of_int n) (d_of_int (2 * n))"
  using assms by (simp add: bsd_cpu_GetInterval_def bsd_getTicks_def usage_ratio_def Let_def)

end
