(* ===== verification/Reporting.thy ===== *)
theory Reporting
  imports Cpu Counters Number_Text Addresses
begin

text \<open>
  \<^verbatim>\<open>apib/apib_reporting.{h,cc}\<close>: the totals of a run, the samples of CPU usage here and on up to
  two monitored hosts, and the reports. The file's static variables are the record \<open>Reporter\<close>;
  a thread is seen through its counters, so a list of threads is the list of their counters. The
  answers of the system are functions of the number of calls made so far (\<open>calls\<close>), and what is
  done to the sockets of the monitors is kept in a log. \<^const>\<open>None\<close> is a failed \<^verbatim>\<open>assert\<close>, an
  access out of bounds or an undefined conversion. The 64-bit totals are integers; the results
  are narrowed to 32 bits where the code does it.
\<close>

section \<open>State\<close>

datatype fd_action = Opened int | Connected int family "char list" | Sent int string | Closed int

record Reporter =
  tallies :: Tallies
  cpuAvailable :: bool
  successful :: int
  unsuccessful :: int
  startTime :: int
  stopTime :: int
  intervalStartTime :: int
  accumulatedResults :: "Counters list"
  clientSamples :: "double list"
  remoteSamples :: "double list"
  remote2Samples :: "double list"
  clientMem :: double
  remoteMem :: double
  remote2Mem :: double
  cpuUsage :: CPUUsage
  remoteCpuSocket :: int
  remote2CpuSocket :: int
  remoteMonitorHost :: string
  remote2MonitorHost :: string
  totalBytesSent :: int
  totalBytesReceived :: int
  calls :: nat
  fd_log :: "fd_action list"

text \<open>The outside world: the clock, the \<^verbatim>\<open>/proc\<close> files, fresh memory, and the monitors' sockets.\<close>

record world =
  strings :: absl
  at_time :: "nat \<Rightarrow> int"
  proc_stat :: "nat \<Rightarrow> string option"
  proc_meminfo :: "nat \<Rightarrow> string option"
  heap_block :: "nat \<Rightarrow> char list"
  stack_usage :: "nat \<Rightarrow> CPUUsage"
  stack_buf :: "nat \<Rightarrow> char list"
  monitor_write :: "nat \<Rightarrow> int"
  monitor_read :: "nat \<Rightarrow> string option"       \<comment> \<open>\<^const>\<open>None\<close> when \<^verbatim>\<open>rc <= 0\<close>\<close>
  monitor_lookup :: "nat \<Rightarrow> string \<Rightarrow> lookup_answer"
  monitor_socket :: "nat \<Rightarrow> int"
  monitor_connect :: "nat \<Rightarrow> int"

definition tick :: "Reporter \<Rightarrow> Reporter" where
  "tick g = g\<lparr>calls := calls g + 1\<rparr>"

definition log_fd :: "fd_action list \<Rightarrow> Reporter \<Rightarrow> Reporter" where
  "log_fd as g = g\<lparr>fd_log := fd_log g @ as\<rparr>"

definition now :: "world \<Rightarrow> Reporter \<Rightarrow> int \<times> Reporter" where
  "now W g = (at_time W (calls g), tick g)"

definition kCPUCmd :: string where "kCPUCmd = ''cpu'' @ [LF]"
definition kMemCmd :: string where "kMemCmd = ''mem'' @ [LF]"

section \<open>The monitors\<close>

fun find_char :: "char \<Rightarrow> string \<Rightarrow> nat option" where
  "find_char c [] = None"
| "find_char c (d # s) = (if d = c then Some 0 else map_option Suc (find_char c s))"

text \<open>The descriptor is passed by address: it is returned, changed or not. A successful
  \<^verbatim>\<open>getaddrinfo\<close> without a result would be a null pointer.\<close>

definition connectMonitor :: "world \<Rightarrow> string \<Rightarrow> int \<Rightarrow> Reporter \<Rightarrow> (int \<times> Reporter) option" where
  "connectMonitor W hn fd g =
     (case find_char (CHR '':'') hn of
        None \<Rightarrow> Some (fd, g)
      | Some colonPos \<Rightarrow>
          let hostName = take colonPos hn; portStr = drop (colonPos + 1) hn in
          case SimpleAtoi (strings W) portStr of
            None \<Rightarrow> Some (fd, g)
          | Some port \<Rightarrow>
              let k = calls g; g1 = tick g in
              case monitor_lookup W k hostName of
                System_error e \<Rightarrow> Some (fd, g1)
              | Lookup_error e \<Rightarrow> Some (fd, g1)
              | Resolved [] \<Rightarrow> None
              | Resolved ((fam, data) # _) \<Rightarrow>
                  let s = monitor_socket W k in
                  if s > 0 then
                    let addr = store_at data 0 (htons (to_uint16 port));
                        g2 = log_fd [Opened s, Connected s fam addr] g1
                    in if monitor_connect W k \<noteq> 0 then Some (s, log_fd [Closed s] g2) else Some (s, g2)
                  else None)"

text \<open>\<^verbatim>\<open>read\<close> fills the beginning of an uninitialised local array of 64 bytes, without an end mark.\<close>

definition getRemoteStat :: "world \<Rightarrow> string \<Rightarrow> int \<Rightarrow> Reporter \<Rightarrow> (double \<times> int \<times> Reporter) option" where
  "getRemoteStat W cmd fd g =
     (let k = calls g; g1 = log_fd [Sent fd cmd] (tick g);
          failure = Some (Fin 0, 0, log_fd [Closed fd] g1)
      in if monitor_write W k \<noteq> int (length cmd) then failure
         else case monitor_read W k of
           None \<Rightarrow> failure
         | Some bs \<Rightarrow> do {
             d \<leftarrow> strtod (store_at (stack_buf W k) 0 bs);
             Some (d, fd, g1)
           })"

definition RecordByteCounts :: "int \<Rightarrow> int \<Rightarrow> Reporter \<Rightarrow> Reporter" where
  "RecordByteCounts sent received g =
     g\<lparr>totalBytesSent := totalBytesSent g + sent, totalBytesReceived := totalBytesReceived g + received\<rparr>"

definition RecordInit :: "int \<Rightarrow> string \<Rightarrow> string \<Rightarrow> Reporter \<Rightarrow> Reporter" where
  "RecordInit cpuInitErr monitorHost host2 g =
     g\<lparr>cpuAvailable := (cpuInitErr = 0), remoteMonitorHost := monitorHost, remote2MonitorHost := host2\<rparr>"

section \<open>RecordStart\<close>

text \<open>Connect to a monitor the first time, ask it for a first value afterwards (to reset it).\<close>

definition start_monitor :: "world \<Rightarrow> string \<Rightarrow> int \<Rightarrow> Reporter \<Rightarrow> (int \<times> Reporter) option" where
  "start_monitor W host fd g =
     (if host = [] then Some (fd, g)
      else if fd = 0 then connectMonitor W host fd g
      else map_option snd (getRemoteStat W kCPUCmd fd g))"

definition reset_totals :: "bool \<Rightarrow> Reporter \<Rightarrow> Reporter" where
  "reset_totals startReporting g =
     g\<lparr>successful := 0, unsuccessful := 0,
       tallies := \<lparr>reporting = startReporting, socketErrors = 0, connectionsOpened = 0\<rparr>,
       totalBytesSent := 0, totalBytesReceived := 0, accumulatedResults := []\<rparr>"

definition RecordStart :: "world \<Rightarrow> bool \<Rightarrow> Reporter \<times> Counters list \<Rightarrow> (Reporter \<times> Counters list) option" where
  "RecordStart W startReporting st =
     (case st of (g, threads) \<Rightarrow>
        let g1 = reset_totals startReporting g;
            threads1 = map (\<lambda>c. snd (exchangeCounters c)) threads;
            k = calls g1
        in do {
          u \<leftarrow> cpu_GetUsage (strings W) (heap_block W k) (proc_stat W k) (at_time W k) (cpuUsage g1);
          let g2 = tick (g1\<lparr>cpuUsage := u\<rparr>);
          (fd, g3) \<leftarrow> start_monitor W (remoteMonitorHost g2) (remoteCpuSocket g2) g2;
          let g4 = g3\<lparr>remoteCpuSocket := fd\<rparr>;
          (fd2, g5) \<leftarrow> start_monitor W (remote2MonitorHost g4) (remote2CpuSocket g4) g4;
          let (t, g6) = now W (g5\<lparr>remote2CpuSocket := fd2\<rparr>);
          Some (g6\<lparr>startTime := t, intervalStartTime := t,
                   clientSamples := [], remoteSamples := [], remote2Samples := []\<rparr>, threads1)
        })"

section \<open>Sampling and intervals\<close>

definition sample_remote :: "world \<Rightarrow> Reporter \<Rightarrow> (double \<times> Reporter) option" where
  "sample_remote W g =
     (if remoteCpuSocket g \<noteq> 0 then do {
        (cpu, fd, g1) \<leftarrow> getRemoteStat W kCPUCmd (remoteCpuSocket g) g;
        Some (cpu, g1\<lparr>remoteCpuSocket := fd, remoteSamples := remoteSamples g1 @ [cpu]\<rparr>)
      } else Some (Fin 0, g))"

definition sample_remote2 :: "world \<Rightarrow> Reporter \<Rightarrow> (double \<times> Reporter) option" where
  "sample_remote2 W g =
     (if remote2CpuSocket g \<noteq> 0 then do {
        (cpu, fd, g1) \<leftarrow> getRemoteStat W kCPUCmd (remote2CpuSocket g) g;
        Some (cpu, g1\<lparr>remote2CpuSocket := fd, remote2Samples := remote2Samples g1 @ [cpu]\<rparr>)
      } else Some (Fin 0, g))"

definition sample_client :: "world \<Rightarrow> Reporter \<Rightarrow> (double \<times> Reporter) option" where
  "sample_client W g =
     (let k = calls g in do {
        (cpu, u) \<leftarrow> cpu_GetInterval (strings W) (heap_block W k) (proc_stat W k) (at_time W k)
                     (stack_usage W k) (cpuUsage g);
        Some (cpu, (tick g)\<lparr>cpuUsage := u, clientSamples := clientSamples g @ [cpu]\<rparr>)
      })"

definition SampleCPU :: "world \<Rightarrow> Reporter \<Rightarrow> Reporter option" where
  "SampleCPU W g = do {
     (_, g1) \<leftarrow> sample_remote W g;
     (_, g2) \<leftarrow> sample_remote2 W g1;
     (_, g3) \<leftarrow> sample_client W g2;
     Some g3
   }"

text \<open>The loop over the threads of \<open>RecordStop\<close> and \<open>ReportIntervalResults\<close>: take the counters of
  each, add them up, and keep them.\<close>

fun collect :: "Counters list \<Rightarrow> Reporter \<Rightarrow> int \<times> int \<times> Reporter \<times> Counters list" where
  "collect [] g = (0, 0, g, [])"
| "collect (t # ts) g =
     (let (c, t') = exchangeCounters t;
          g1 = g\<lparr>totalBytesReceived := totalBytesReceived g + bytesRead c,
                 totalBytesSent := totalBytesSent g + bytesWritten c,
                 accumulatedResults := accumulatedResults g @ [c]\<rparr>;
          (s, f, g2, ts') = collect ts g1
      in (successfulRequests c + s, failedRequests c + f, g2, t' # ts'))"

record BenchmarkIntervalResults =
  i_successfulRequests :: int
  i_elapsedTime :: double
  i_intervalTime :: double
  i_averageThroughput :: double

definition ReportIntervalResults ::
    "world \<Rightarrow> Reporter \<times> Counters list \<Rightarrow> BenchmarkIntervalResults \<times> Reporter \<times> Counters list" where
  "ReportIntervalResults W st =
     (case st of (g, threads) \<Rightarrow>
        let (t, g1) = now W g;
            (s, f, g2, threads1) = collect threads g1;
            g3 = g2\<lparr>successful := successful g2 + s, unsuccessful := unsuccessful g2 + f\<rparr>;
            s32 = to_int32 s;
            it = Seconds (t - intervalStartTime g3)
        in (\<lparr>i_successfulRequests = s32, i_elapsedTime = Seconds (t - startTime g3), i_intervalTime = it,
             i_averageThroughput = ddiv (d_of_int s32) it\<rparr>,
            g3\<lparr>intervalStartTime := t\<rparr>, threads1))"

definition percent_text :: "double \<Rightarrow> string" where
  "percent_text d = fixed 0 (dmul d (Fin 100)) @ ''%''"

definition ReportInterval ::
    "world \<Rightarrow> int \<Rightarrow> bool \<Rightarrow> Reporter \<times> Counters list \<Rightarrow> (string \<times> Reporter \<times> Counters list) option" where
  "ReportInterval W totalDuration warmup st =
     (case st of (g, threads) \<Rightarrow> do {
        (remoteCpu, g1) \<leftarrow> sample_remote W g;
        (_, g2) \<leftarrow> sample_remote2 W g1;
        (cpu, g3) \<leftarrow> sample_client W g2;
        let (r, g4, threads1) = ReportIntervalResults W (g3, threads);
        Some ((if warmup then ''Warming up: '' else '''') @ ''('' @ fixed 0 (i_elapsedTime r) @ '' / '' @
              show_int totalDuration @ '') '' @ fixed 3 (i_averageThroughput r) @
              (if dless (Fin 0) cpu then '' '' @ percent_text cpu @ '' cpu'' else '''') @
              (if dless (Fin 0) remoteCpu then '' '' @ percent_text remoteCpu @ '' remote cpu'' else '''') @
              [LF], g4, threads1)
      })"

section \<open>RecordStop\<close>

definition stop_remote :: "world \<Rightarrow> Reporter \<Rightarrow> Reporter option" where
  "stop_remote W g =
     (if remoteCpuSocket g \<noteq> 0 then do {
        (d, fd, h) \<leftarrow> getRemoteStat W kMemCmd (remoteCpuSocket g) g;
        Some (h\<lparr>remoteMem := d, remoteCpuSocket := fd\<rparr>)
      } else Some g)"

definition stop_remote2 :: "world \<Rightarrow> Reporter \<Rightarrow> Reporter option" where
  "stop_remote2 W g =
     (if remote2CpuSocket g \<noteq> 0 then do {
        (d, fd, h) \<leftarrow> getRemoteStat W kMemCmd (remote2CpuSocket g) g;
        Some (h\<lparr>remote2Mem := d, remote2CpuSocket := fd\<rparr>)
      } else Some g)"

definition RecordStop :: "world \<Rightarrow> Reporter \<times> Counters list \<Rightarrow> (Reporter \<times> Counters list) option" where
  "RecordStop W st =
     (case st of (g, threads) \<Rightarrow> do {
        g1 \<leftarrow> SampleCPU W g;
        let k = calls g1;
        m \<leftarrow> cpu_GetMemoryUsage (strings W) (heap_block W k) (proc_meminfo W k);
        let g2 = tick (g1\<lparr>clientMem := m\<rparr>);
        g3 \<leftarrow> stop_remote W g2;
        g4 \<leftarrow> stop_remote2 W g3;
        let g5 = g4\<lparr>tallies := (tallies g4)\<lparr>reporting := False\<rparr>\<rparr>;
        let (s, f, g6, threads1) = collect threads g5;
        let (t, g7) = now W (g6\<lparr>successful := successful g6 + s, unsuccessful := unsuccessful g6 + f\<rparr>);
        Some (g7\<lparr>stopTime := t\<rparr>, threads1)
      })"

definition EndReporting :: "Reporter \<Rightarrow> Reporter" where
  "EndReporting g =
     log_fd ((if remoteCpuSocket g \<noteq> 0 then [Closed (remoteCpuSocket g)] else []) @
             (if remote2CpuSocket g \<noteq> 0 then [Closed (remote2CpuSocket g)] else [])) g"

section \<open>Statistics\<close>

definition getLatencyPercent :: "int list \<Rightarrow> int \<Rightarrow> int option" where
  "getLatencyPercent ls percent =
     (if ls = [] then Some 0
      else if percent = 100 then rd ls (int (length ls) - 1)
      else do {
        index \<leftarrow> d_to_uint64 (dmul (ddiv (d_of_int (int (length ls))) (Fin 100)) (d_of_int percent));
        rd ls (int index)
      })"

definition getAverageLatency :: "int list \<Rightarrow> int" where
  "getAverageLatency ls =
     (if ls = [] then 0 else c_div (foldl (+) 0 ls) (int (length ls)))"

text \<open>\<^verbatim>\<open>pow\<close> and \<^verbatim>\<open>sqrt\<close> of the mathematical library; the average is cut to an \<^verbatim>\<open>unsigned long\<close>.\<close>

record libm =
  pow :: "double \<Rightarrow> double \<Rightarrow> double"
  sqrt_d :: "double \<Rightarrow> double"

definition getLatencyStdDev :: "libm \<Rightarrow> int list \<Rightarrow> double option" where
  "getLatencyStdDev M ls =
     (if ls = [] then Some (Fin 0)
      else do {
        avg \<leftarrow> d_to_uint64 (Milliseconds (getAverageLatency ls));
        let differences = foldl (\<lambda>d l. dadd d (pow M (dsub (Milliseconds l) (d_of_int (int avg))) (Fin 2))) (Fin 0) ls;
        Some (sqrt_d M (ddiv differences (d_of_int (int (length ls)))))
      })"

definition getAverageCpu :: "double list \<Rightarrow> double" where
  "getAverageCpu s = (if s = [] then Fin 0 else ddiv (foldl dadd (Fin 0) s) (d_of_int (int (length s))))"

definition getMaxCpu :: "double list \<Rightarrow> double" where
  "getMaxCpu s = (if s = [] then Fin 0 else foldl (\<lambda>m d. if dless m d then d else m) (hd s) (tl s))"

section \<open>ReportResults\<close>

record BenchmarkResults =
  r_completedRequests :: int
  r_successfulRequests :: int
  r_unsuccessfulRequests :: int
  r_socketErrors :: int
  r_connectionsOpened :: int
  r_totalBytesSent :: int
  r_totalBytesReceived :: int
  r_elapsedTime :: double
  r_averageLatency :: double
  r_latencyStdDev :: double
  r_latencies :: "double list"
  r_averageThroughput :: double
  r_averageSendBandwidth :: double
  r_averageReceiveBandwidth :: double

definition all_latencies :: "Reporter \<Rightarrow> int list" where
  "all_latencies g = sort (concat (map latencies (accumulatedResults g)))"

fun percentiles :: "int list \<Rightarrow> int list \<Rightarrow> double list option" where
  "percentiles ls [] = Some []"
| "percentiles ls (p # ps) = do {
     l \<leftarrow> getLatencyPercent ls p;
     ds \<leftarrow> percentiles ls ps;
     Some (Milliseconds l # ds)
   }"

definition bandwidth :: "int \<Rightarrow> double \<Rightarrow> double" where
  "bandwidth bytes elapsed = ddiv (ddiv (dmul (d_of_int bytes) (Fin 8)) (Fin 1048576)) elapsed"

definition ReportResults :: "libm \<Rightarrow> Reporter \<Rightarrow> BenchmarkResults option" where
  "ReportResults M g =
     (let ls = all_latencies g;
          completed = to_int32 (successful g + unsuccessful g);
          elapsed = Seconds (stopTime g - startTime g)
      in do {
        dev \<leftarrow> getLatencyStdDev M ls;
        table \<leftarrow> percentiles ls [0..100];
        Some \<lparr>r_completedRequests = completed,
              r_successfulRequests = to_int32 (successful g),
              r_unsuccessfulRequests = to_int32 (unsuccessful g),
              r_socketErrors = to_int32 (socketErrors (tallies g)),
              r_connectionsOpened = to_int32 (connectionsOpened (tallies g)),
              r_totalBytesSent = totalBytesSent g,
              r_totalBytesReceived = totalBytesReceived g,
              r_elapsedTime = elapsed,
              r_averageLatency = Milliseconds (getAverageLatency ls),
              r_latencyStdDev = dev,
              r_latencies = table,
              r_averageThroughput = ddiv (d_of_int completed) elapsed,
              r_averageSendBandwidth = bandwidth (totalBytesSent g) elapsed,
              r_averageReceiveBandwidth = bandwidth (totalBytesReceived g) elapsed\<rparr>
      })"

section \<open>Printing\<close>

definition report_line :: "string \<Rightarrow> string \<Rightarrow> string \<Rightarrow> string" where
  "report_line label value unit = label @ value @ unit @ [LF]"

definition cpu_lines :: "string \<Rightarrow> string \<Rightarrow> string \<Rightarrow> double list \<Rightarrow> double \<Rightarrow> string" where
  "cpu_lines average maximum memory samples mem =
     report_line average (percent_text (getAverageCpu samples)) '''' @
     report_line maximum (percent_text (getMaxCpu samples)) '''' @
     report_line memory (percent_text mem) ''''"

definition PrintFullResults :: "libm \<Rightarrow> Reporter \<Rightarrow> string option" where
  "PrintFullResults M g = do {
     r \<leftarrow> ReportResults M g;
     Some (
       report_line ''Duration:             '' (fixed 3 (r_elapsedTime r)) '' seconds'' @
       report_line ''Attempted requests:   '' (show_int (r_completedRequests r)) '''' @
       report_line ''Successful requests:  '' (show_int (r_successfulRequests r)) '''' @
       report_line ''Non-200 results:      '' (show_int (r_unsuccessfulRequests r)) '''' @
       report_line ''Connections opened:   '' (show_int (r_connectionsOpened r)) '''' @
       report_line ''Socket errors:        '' (show_int (r_socketErrors r)) '''' @
       [LF] @
       report_line ''Throughput:           '' (fixed 3 (r_averageThroughput r)) '' requests/second'' @
       report_line ''Average latency:      '' (fixed 3 (r_averageLatency r)) '' milliseconds'' @
       report_line ''Minimum latency:      '' (fixed 3 (r_latencies r ! 0)) '' milliseconds'' @
       report_line ''Maximum latency:      '' (fixed 3 (r_latencies r ! 100)) '' milliseconds'' @
       report_line ''Latency std. dev:     '' (fixed 3 (r_latencyStdDev r)) '' milliseconds'' @
       report_line ''50% latency:          '' (fixed 3 (r_latencies r ! 50)) '' milliseconds'' @
       report_line ''90% latency:          '' (fixed 3 (r_latencies r ! 90)) '' milliseconds'' @
       report_line ''98% latency:          '' (fixed 3 (r_latencies r ! 98)) '' milliseconds'' @
       report_line ''99% latency:          '' (fixed 3 (r_latencies r ! 99)) '' milliseconds'' @
       [LF] @
       (if clientSamples g \<noteq> [] then
          report_line ''Client CPU average:   '' (percent_text (getAverageCpu (clientSamples g))) '''' @
          report_line ''Client CPU max:       '' (percent_text (getMaxCpu (clientSamples g))) ''''
        else '''') @
       report_line ''Client memory usage:  '' (percent_text (clientMem g)) '''' @
       (if remoteSamples g \<noteq> [] then
          cpu_lines ''Remote CPU average:   '' ''Remote CPU max:       '' ''Remote memory usage:  ''
            (remoteSamples g) (remoteMem g) else '''') @
       (if remote2Samples g \<noteq> [] then
          cpu_lines ''Remote 2 CPU average:   '' ''Remote 2 CPU max:       '' ''Remote 2 memory usage:  ''
            (remote2Samples g) (remote2Mem g) else '''') @
       [LF] @
       report_line ''Total bytes sent:     '' (fixed 2 (ddiv (d_of_int (r_totalBytesSent r)) (Fin 1048576))) '' megabytes'' @
       report_line ''Total bytes received: '' (fixed 2 (ddiv (d_of_int (r_totalBytesReceived r)) (Fin 1048576))) '' megabytes'' @
       report_line ''Send bandwidth:       '' (fixed 2 (r_averageSendBandwidth r)) '' megabits / second'' @
       report_line ''Receive bandwidth:    '' (fixed 2 (r_averageReceiveBandwidth r)) '' megabits / second'')
   }"

definition percent_field :: "double \<Rightarrow> string" where
  "percent_field d = fixed 0 (dmul d (Fin 100))"

definition short_fields :: "string \<Rightarrow> nat \<Rightarrow> int \<Rightarrow> Reporter \<Rightarrow> BenchmarkResults \<Rightarrow> string list" where
  "short_fields runName numThreads connections g r =
     [runName, fixed 3 (r_averageThroughput r), fixed 3 (r_averageLatency r), show_nat numThreads,
      show_int connections, fixed 3 (r_elapsedTime r), show_int (r_completedRequests r),
      show_int (r_successfulRequests r), show_int (r_socketErrors r), show_int (r_connectionsOpened r),
      fixed 3 (r_latencies r ! 0), fixed 3 (r_latencies r ! 100), fixed 3 (r_latencies r ! 50),
      fixed 3 (r_latencies r ! 90), fixed 3 (r_latencies r ! 98), fixed 3 (r_latencies r ! 99),
      fixed 3 (r_latencyStdDev r), percent_field (getAverageCpu (clientSamples g)),
      percent_field (getAverageCpu (remoteSamples g)), percent_field (getAverageCpu (remote2Samples g)),
      percent_field (clientMem g), percent_field (remoteMem g), percent_field (remote2Mem g),
      fixed 2 (r_averageSendBandwidth r), fixed 2 (r_averageReceiveBandwidth r)]"

text \<open>The format is one string with commas between the fields and a newline at the end.\<close>

definition PrintShortResults :: "libm \<Rightarrow> string \<Rightarrow> nat \<Rightarrow> int \<Rightarrow> Reporter \<Rightarrow> string option" where
  "PrintShortResults M runName numThreads connections g = do {
     r \<leftarrow> ReportResults M g;
     Some (join_with '','' (short_fields runName numThreads connections g r) @ [LF])
   }"

definition PrintReportingHeader :: string where
  "PrintReportingHeader =
     ''Name,Throughput,Avg. Latency,Threads,Connections,Duration,'' @
     ''Completed,Successful,Errors,Sockets,'' @
     ''Min. latency,Max. latency,50% Latency,90% Latency,'' @
     ''98% Latency,99% Latency,Latency Std Dev,Avg Client CPU,'' @
     ''Avg Server CPU,Avg Server 2 CPU,'' @
     ''Client Mem Usage,Server Mem,Server 2 Mem,'' @
     ''Avg. Send Bandwidth,Avg. Recv. Bandwidth'' @ [LF]"

end
