(* ===== verification/Main_Program.thy ===== *)
theory Main_Program
  imports IOThread Reporting
begin

text \<open>
  \<^verbatim>\<open>apib/apib_main.cc\<close>: the command line, the configuration of the I/O threads, and the course
  of a run. \<^verbatim>\<open>getopt_long\<close> is the C library's: its answers, the options in order and the
  arguments that are left, are an argument. What \<^verbatim>\<open>main\<close> does to the other components is the list
  of its calls. \<^const>\<open>None\<close> is a failed \<^verbatim>\<open>assert\<close>, an \<^verbatim>\<open>abort\<close> or a division by zero.
\<close>

unbundle bit_operations_syntax

section \<open>Settings\<close>

definition KeepAliveAlways :: int where "KeepAliveAlways = - 1"
definition DefaultNumConnections :: int where "DefaultNumConnections = 1"
definition DefaultDuration :: int where "DefaultDuration = 60"
definition DefaultWarmup :: int where "DefaultWarmup = 0"
definition ReportSleepTime :: int where "ReportSleepTime = 5"

text \<open>The static variables of the file and the local ones of \<^verbatim>\<open>main\<close> that the options set.\<close>

record Settings =
  ShortOutput :: bool
  RunName :: string
  NumConnections :: int
  NumThreads :: int
  JustOnce :: bool
  KeepAlive :: int
  Verb :: string
  FileName :: string
  ContentType :: string
  SslCipher :: string
  SslVerify :: bool
  SslCertificate :: string
  Verbose :: bool
  ThinkTime :: int
  Headers :: "string list"
  SetHeaders :: int
  OAuth_info :: "OAuthInfo option"
  duration :: int
  warmupTime :: int
  doHelp :: bool
  doVersion :: bool
  monitorHost :: string
  monitor2Host :: string
  failed :: bool

definition default_settings :: Settings where
  "default_settings =
     \<lparr>ShortOutput = False, RunName = [], NumConnections = DefaultNumConnections, NumThreads = - 1, JustOnce = False,
      KeepAlive = KeepAliveAlways, Verb = [], FileName = [], ContentType = [], SslCipher = [], SslVerify = False,
      SslCertificate = [], Verbose = False, ThinkTime = 0, Headers = [], SetHeaders = 0, OAuth_info = None,
      duration = DefaultDuration, warmupTime = DefaultWarmup, doHelp = False, doVersion = False,
      monitorHost = [], monitor2Host = [], failed = False\<rparr>"

section \<open>Headers\<close>

definition set_header :: "int \<Rightarrow> Settings \<Rightarrow> Settings" where
  "set_header b s = s\<lparr>SetHeaders := SetHeaders s OR b\<rparr>"

definition addHeader :: "absl \<Rightarrow> string \<Rightarrow> Settings \<Rightarrow> Settings" where
  "addHeader A val s =
     (let parts = StrSplit A val (CHR '':'') in
      if parts = [] then s
      else
        let name = hd parts;
            s1 = (if eqcase name ''Host'' then set_header kHostSet s
                  else if eqcase name ''Content-Length'' then set_header kContentLengthSet s
                  else if eqcase name ''Content-Type'' then set_header kContentTypeSet s
                  else if eqcase name ''Authorization'' then set_header kAuthorizationSet s
                  else if eqcase name ''Connection'' then set_header kConnectionSet s
                  else if eqcase name ''User-Agent'' then set_header kUserAgentSet s
                  else s)
        in s1\<lparr>Headers := Headers s1 @ [val]\<rparr>)"

text \<open>The encoder's output is a C string.\<close>

definition processBasic :: "absl \<Rightarrow> string \<Rightarrow> Settings \<Rightarrow> Settings option" where
  "processBasic A arg s = do {
     b64 \<leftarrow> c_string_at (fst (Base64encode arg)) 0;
     Some (addHeader A (StrCat A [Text ''Authorization: Basic '', Text b64]) s)
   }"

definition processOAuth :: "absl \<Rightarrow> string \<Rightarrow> Settings \<Rightarrow> Settings" where
  "processOAuth A arg s =
     (let parts = StrSplit A arg (CHR '':'');
          part = (\<lambda>i. if length parts > i then parts ! i else [])
      in set_header kAuthorizationSet
           (s\<lparr>OAuth_info := Some \<lparr>consumerKey = part 0, consumerSecret = part 1, accessToken = part 2, tokenSecret = part 3\<rparr>\<rparr>))"

section \<open>Options\<close>

datatype option_result = Parsed Settings | Header_line | Unknown_option

definition int_option :: "absl \<Rightarrow> string \<Rightarrow> (int \<Rightarrow> Settings \<Rightarrow> Settings) \<Rightarrow> Settings \<Rightarrow> Settings" where
  "int_option A optarg update s =
     (case SimpleAtoi A optarg of None \<Rightarrow> s\<lparr>failed := True\<rparr> | Some v \<Rightarrow> update v s)"

text \<open>The \<^verbatim>\<open>switch\<close>.\<close>

definition process_option :: "absl \<Rightarrow> char \<Rightarrow> string \<Rightarrow> Settings \<Rightarrow> option_result option" where
  "process_option A arg optarg s =
     (if arg = CHR ''c'' then Some (Parsed (int_option A optarg (\<lambda>v s. s\<lparr>NumConnections := v\<rparr>) s))
      else if arg = CHR ''d'' then Some (Parsed (int_option A optarg (\<lambda>v s. s\<lparr>duration := v\<rparr>) s))
      else if arg = CHR ''f'' then Some (Parsed (s\<lparr>FileName := optarg\<rparr>))
      else if arg = CHR ''h'' then Some (Parsed (s\<lparr>doHelp := True\<rparr>))
      else if arg = CHR ''k'' then Some (Parsed (int_option A optarg (\<lambda>v s. s\<lparr>KeepAlive := v\<rparr>) s))
      else if arg = CHR ''t'' then Some (Parsed (s\<lparr>ContentType := optarg\<rparr>))
      else if arg = CHR ''u'' then map_option Parsed (processBasic A optarg s)
      else if arg = CHR ''v'' then Some (Parsed (s\<lparr>Verbose := True\<rparr>))
      else if arg = CHR ''w'' then Some (Parsed (int_option A optarg (\<lambda>v s. s\<lparr>warmupTime := v\<rparr>) s))
      else if arg = CHR ''x'' then Some (Parsed (s\<lparr>Verb := optarg\<rparr>))
      else if arg = CHR ''Z'' then Some (Parsed (s\<lparr>doVersion := True\<rparr>))
      else if arg = CHR ''C'' then Some (Parsed (s\<lparr>SslCipher := optarg\<rparr>))
      else if arg = CHR ''F'' then Some (Parsed (s\<lparr>SslCertificate := optarg\<rparr>))
      else if arg = CHR ''H'' then Some (Parsed (addHeader A optarg s))
      else if arg = CHR ''K'' then Some (Parsed (int_option A optarg (\<lambda>v s. s\<lparr>NumThreads := v\<rparr>) s))
      else if arg = CHR ''M'' then Some (Parsed (s\<lparr>monitorHost := optarg\<rparr>))
      else if arg = CHR ''X'' then Some (Parsed (s\<lparr>monitor2Host := optarg\<rparr>))
      else if arg = CHR ''N'' then Some (Parsed (s\<lparr>RunName := optarg\<rparr>))
      else if arg = CHR ''O'' then Some (Parsed (processOAuth A optarg s))
      else if arg = CHR ''S'' then Some (Parsed (s\<lparr>ShortOutput := True\<rparr>))
      else if arg = CHR ''T'' then Some Header_line
      else if arg = CHR ''V'' then Some (Parsed (s\<lparr>SslVerify := True\<rparr>))
      else if arg = CHR ''W'' then Some (Parsed (int_option A optarg (\<lambda>v s. s\<lparr>ThinkTime := v\<rparr>) s))
      else if arg = CHR ''1'' then Some (Parsed (s\<lparr>JustOnce := True\<rparr>))
      else if arg = CHR ''?'' \<or> arg = CHR '':'' then Some (Parsed (s\<lparr>failed := True\<rparr>))
      else Some Unknown_option)"

fun process_options :: "absl \<Rightarrow> (char \<times> string) list \<Rightarrow> Settings \<Rightarrow> option_result option" where
  "process_options A [] s = Some (Parsed s)"
| "process_options A ((arg, optarg) # opts) s = do {
     r \<leftarrow> process_option A arg optarg s;
     case r of Parsed s1 \<Rightarrow> process_options A opts s1 | _ \<Rightarrow> Some r
   }"

section \<open>Limits, files and TLS\<close>

text \<open>The limits are unsigned 64-bit numbers, which the code converts to \<^verbatim>\<open>int\<close>.\<close>

definition setProcessLimits :: "int \<Rightarrow> int \<Rightarrow> int \<Rightarrow> int \<Rightarrow> int" where
  "setProcessLimits numConns rlim_cur rlim_max setrlimitErr =
     (if numConns < to_int32 rlim_cur then 0
      else if numConns < to_int32 rlim_max then if setrlimitErr = 0 then 0 else - 1
      else - 1)"

record SslContext =
  partial_write :: bool
  default_paths :: bool
  verify_peer :: bool
  ca_file :: string
  info_callback :: bool
  cipher_list :: string

text \<open>The answers of OpenSSL are 1 for success.\<close>

definition createSslContext :: "Settings \<Rightarrow> (string \<Rightarrow> int) \<Rightarrow> (string \<Rightarrow> int) \<Rightarrow> string \<Rightarrow> bool \<Rightarrow> int \<times> SslContext" where
  "createSslContext s load_locations set_cipher cipher verb =
     (let c1 = \<lparr>partial_write = True, default_paths = True, verify_peer = SslVerify s, ca_file = [],
                info_callback = False, cipher_list = []\<rparr> in
      if SslCertificate s \<noteq> [] \<and> load_locations (SslCertificate s) \<noteq> 1 then (- 2, c1)
      else
        let c2 = c1\<lparr>ca_file := SslCertificate s, info_callback := verb\<rparr> in
        if cipher \<noteq> [] \<and> set_cipher cipher \<noteq> 1 then (- 1, c2)
        else (0, c2\<lparr>cipher_list := cipher\<rparr>))"

definition readFile :: "(string \<Rightarrow> string option) \<Rightarrow> string \<Rightarrow> int \<times> string" where
  "readFile files name = (case files name of None \<Rightarrow> (- 1, []) | Some contents \<Rightarrow> (0, contents))"

text \<open>What the system answers to \<^verbatim>\<open>main\<close>.\<close>

record system =
  sys_absl :: absl
  sys_resolver :: resolver
  sys_files :: "string \<Rightarrow> string option"
  sys_block :: "char list"
  sys_cpuinfo :: "string option"
  sys_rlim_cur :: int
  sys_rlim_max :: int
  sys_setrlimit :: int
  sys_load_locations :: "string \<Rightarrow> int"
  sys_set_cipher :: "string \<Rightarrow> int"

record thread_setup =
  su_config :: IOConfig
  su_keepRunning :: int
  su_ssl :: SslContext

definition initializeThread :: "system \<Rightarrow> int \<Rightarrow> Settings \<Rightarrow> (int + thread_setup) option" where
  "initializeThread Y ix s =
     (if NumThreads s = 0 then None
      else
        let numConn = c_div (NumConnections s) (NumThreads s);
            numConn1 = (if ix < c_mod (NumConnections s) (NumThreads s) then numConn + 1 else numConn);
            (err, body) = (if FileName s \<noteq> [] then readFile (sys_files Y) (FileName s) else (0, []))
        in if err \<noteq> 0 then Some (Inl 3)
           else
             let verb = (if Verb s = [] then if FileName s = [] then ''GET'' else ''POST'' else Verb s);
                 config = \<lparr>t_index = ix, numConnections = numConn1, httpVerb = verb, sslCipher = SslCipher s,
                   sendData = body, oauth = OAuth_info s, headers = Some (Headers s), headersSet = SetHeaders s,
                   thinkTime = nat (ThinkTime s mod 2 ^ 32), noKeepAlive = (KeepAlive s \<noteq> KeepAliveAlways),
                   verbose = Verbose s\<rparr>;
                 (sslErr, ctx) = createSslContext s (sys_load_locations Y) (sys_set_cipher Y) (sslCipher config) (verbose config)
             in if sslErr \<noteq> 0 then Some (Inl sslErr)
                else Some (Inr \<lparr>su_config = config, su_keepRunning = (if JustOnce s then - 1 else 1), su_ssl = ctx\<rparr>))"

section \<open>The run\<close>

datatype main_call =
    Call_PrintReportingHeader | Call_printUsage | Call_printLibraryInfo
  | Call_RecordInit string string | Call_NewThread thread_setup | Call_Start nat | Call_Join nat | Call_RequestStop nat int
  | Call_RecordStart bool | Call_RecordStop | Call_sleep int | Call_SampleCPU | Call_ReportInterval int bool
  | Call_PrintShortResults string int int | Call_PrintFullResults | Call_EndReporting

function wait_loop :: "bool \<Rightarrow> int \<Rightarrow> bool \<Rightarrow> int \<Rightarrow> main_call list" where
  "wait_loop short dur warmup durationLeft =
     (if durationLeft > 0 then
        let toSleep = (if durationLeft < ReportSleepTime then durationLeft else ReportSleepTime) in
        [Call_sleep toSleep, if short then Call_SampleCPU else Call_ReportInterval dur warmup] @
        wait_loop short dur warmup (durationLeft - toSleep)
      else [])"
  by pat_completeness auto
termination
  by (relation "measure (\<lambda>(short, dur, warmup, left). nat left)") (auto simp: ReportSleepTime_def)

declare wait_loop.simps [simp del]

definition waitAndReport :: "Settings \<Rightarrow> int \<Rightarrow> bool \<Rightarrow> main_call list" where
  "waitAndReport s dur warmup = wait_loop (ShortOutput s) dur warmup dur"

text \<open>The loop that creates and starts the threads \<open>i\<close>, \<open>i + 1\<close>, ...; the Boolean is false when an
  initialisation failed.\<close>

function start_threads :: "system \<Rightarrow> Settings \<Rightarrow> int \<Rightarrow> (main_call list \<times> bool) option" where
  "start_threads Y s i =
     (if i < NumThreads s then do {
        r \<leftarrow> initializeThread Y i s;
        case r of Inl err \<Rightarrow> Some ([], False)
        | Inr su \<Rightarrow> do {
            (calls, ok) \<leftarrow> start_threads Y s (i + 1);
            Some ([Call_NewThread su, Call_Start (nat i)] @ calls, ok)
          }
      } else Some ([], True))"
  by pat_completeness auto
termination
  by (relation "measure (\<lambda>(Y, s, i). nat (NumThreads s - i))") auto

declare start_threads.simps [simp del]

definition run_once :: "system \<Rightarrow> Settings \<Rightarrow> (main_call list \<times> bool) option" where
  "run_once Y s = do {
     r \<leftarrow> initializeThread Y 0 s;
     case r of Inl err \<Rightarrow> Some ([], False)
     | Inr su \<Rightarrow> Some ([Call_NewThread su, Call_RecordStart True, Call_Start 0, Call_Join 0, Call_RecordStop], True)
   }"

definition run_threads :: "system \<Rightarrow> Settings \<Rightarrow> (main_call list \<times> bool) option" where
  "run_threads Y s = do {
     (calls, ok) \<leftarrow> start_threads Y s 0;
     if \<not> ok then Some (calls, False)
     else Some (calls @
       (if warmupTime s > 0 then [Call_RecordStart True] @ waitAndReport s (warmupTime s) True else []) @
       [Call_RecordStart True] @ waitAndReport s (duration s) False @ [Call_RecordStop] @
       map (\<lambda>i. Call_RequestStop i 2) [0..<nat (NumThreads s)] @
       map Call_Join [0..<nat (NumThreads s)], True)
   }"

text \<open>The number of threads: by default one per processor, and never more than connections.\<close>

definition choose_threads :: "system \<Rightarrow> Settings \<Rightarrow> Settings option" where
  "choose_threads Y s = do {
     n \<leftarrow> (if NumThreads s < 1 then cpu_Count (sys_block Y) (sys_cpuinfo Y) else Some (NumThreads s));
     Some (s\<lparr>NumThreads := (if n > NumConnections s then NumConnections s else n)\<rparr>)
   }"

definition init_urls :: "system \<Rightarrow> string \<Rightarrow> Urls \<Rightarrow> (Status \<times> Urls) option" where
  "init_urls Y url G =
     (if hd url = CHR ''@'' then InitFile (sys_resolver Y) (sys_absl Y) (sys_block Y) (tl url) (sys_files Y (tl url)) G
      else InitOne (sys_resolver Y) (sys_absl Y) url G)"

text \<open>\<^verbatim>\<open>main\<close> after the options: the exit status and the calls made.\<close>

definition main_run :: "system \<Rightarrow> string \<Rightarrow> Urls \<Rightarrow> Settings \<Rightarrow> (int \<times> main_call list) option" where
  "main_run Y url G s0 =
     (let s = (if ContentType s0 \<noteq> [] then addHeader (sys_absl Y) (''Content-Type: '' @ ContentType s0) s0 else s0) in
      if url = [] then Some (0, [Call_printUsage])
      else do {
        (st, G') \<leftarrow> init_urls Y url G;
        if \<not> ok st then Some (0, [])
        else if setProcessLimits (NumConnections s) (sys_rlim_cur Y) (sys_rlim_max Y) (sys_setrlimit Y) \<noteq> 0 then Some (0, [])
        else do {
          s1 \<leftarrow> choose_threads Y s;
          let before = (if Verbose s1 then [Call_printLibraryInfo] else []) @ [Call_RecordInit (monitorHost s1) (monitor2Host s1)];
          (calls, finished) \<leftarrow> (if JustOnce s1 then run_once Y s1 else run_threads Y s1);
          if \<not> finished then Some (0, before @ calls)
          else Some (0, before @ calls @
            [if ShortOutput s1 then Call_PrintShortResults (RunName s1) (NumThreads s1) (NumConnections s1)
             else Call_PrintFullResults, Call_EndReporting])
        }
      })"

definition main :: "system \<Rightarrow> (char \<times> string) list \<Rightarrow> string list \<Rightarrow> Urls \<Rightarrow> (int \<times> main_call list) option" where
  "main Y options args G = do {
     r \<leftarrow> process_options (sys_absl Y) options default_settings;
     case r of
       Unknown_option \<Rightarrow> None
     | Header_line \<Rightarrow> Some (0, [Call_PrintReportingHeader])
     | Parsed s \<Rightarrow>
         if doHelp s then Some (0, [Call_printUsage])
         else if doVersion s then Some (0, [Call_printLibraryInfo])
         else if failed s \<or> length args \<noteq> 1 then Some (1, [Call_printUsage])
         else main_run Y (hd args) G s
   }"

end
