(* ===== verification/Main_Facts.thy ===== *)
theory Main_Facts
  imports Main_Program
begin

text \<open>
  What the command line promises: how connections are spread over threads, how long a run is
  measured, which headers a request carries, and what \<^verbatim>\<open>-u\<close> sends.
\<close>

unbundle bit_operations_syntax

section \<open>Threads and connections\<close>

text \<open>The settings and the files allow every thread to be set up.\<close>

definition can_initialize :: "system \<Rightarrow> Settings \<Rightarrow> bool" where
  "can_initialize Y s \<longleftrightarrow>
     (FileName s = [] \<or> sys_files Y (FileName s) \<noteq> None) \<and>
     (SslCertificate s = [] \<or> sys_load_locations Y (SslCertificate s) = 1) \<and>
     (SslCipher s = [] \<or> sys_set_cipher Y (SslCipher s) = 1)"

definition share :: "Settings \<Rightarrow> int \<Rightarrow> int" where
  "share s ix = NumConnections s div NumThreads s + (if ix < NumConnections s mod NumThreads s then 1 else 0)"

lemma initializeThread_ok:
  assumes "can_initialize Y s" "0 < NumThreads s" "0 \<le> NumConnections s"
  obtains su where "initializeThread Y ix s = Some (Inr su)" "numConnections (su_config su) = share s ix"
    "t_index (su_config su) = ix" "su_keepRunning su = (if JustOnce s then - 1 else 1)"
    "headers (su_config su) = Some (Headers s)" "headersSet (su_config su) = SetHeaders s"
proof -
  have "\<exists>body. (if FileName s \<noteq> [] then readFile (sys_files Y) (FileName s) else (0, [])) = (0, body)"
    using assms(1) by (cases "FileName s = []") (auto simp: can_initialize_def readFile_def)
  then obtain body where "(if FileName s \<noteq> [] then readFile (sys_files Y) (FileName s) else (0, [])) = (0, body)" ..
  moreover obtain ctx where "createSslContext s (sys_load_locations Y) (sys_set_cipher Y) (SslCipher s) (Verbose s) = (0, ctx)"
    using assms(1) by (auto simp: can_initialize_def createSslContext_def Let_def)
  ultimately have "\<exists>su. initializeThread Y ix s = Some (Inr su) \<and> numConnections (su_config su) = share s ix \<and>
    t_index (su_config su) = ix \<and> su_keepRunning su = (if JustOnce s then - 1 else 1) \<and>
    headers (su_config su) = Some (Headers s) \<and> headersSet (su_config su) = SetHeaders s"
    using assms(2,3) by (simp add: initializeThread_def share_def Let_def)
  with that show ?thesis by blast
qed

definition setups_from :: "system \<Rightarrow> Settings \<Rightarrow> int \<Rightarrow> thread_setup list" where
  "setups_from Y s i = map (\<lambda>k. projr (the (initializeThread Y k s))) [i..NumThreads s - 1]"

lemma start_threads_ok:
  assumes "can_initialize Y s" "0 < NumThreads s" "0 \<le> NumConnections s" "0 \<le> i"
  shows "start_threads Y s i = Some (concat (map (\<lambda>k. [Call_NewThread (projr (the (initializeThread Y k s))), Call_Start (nat k)])
    [i..NumThreads s - 1]), True)"
  using assms
proof (induction Y s i rule: start_threads.induct)
  case (1 Y s i)
  show ?case
  proof (cases "i < NumThreads s")
    case True
    obtain su where su: "initializeThread Y i s = Some (Inr su)" by (rule initializeThread_ok [OF "1.prems"(1-3)])
    have "[i..NumThreads s - 1] = i # [i + 1..NumThreads s - 1]" using True by (intro upto_rec1) simp
    with "1.IH" [OF True su refl "1.prems"(1-3)] "1.prems"(4) su True show ?thesis
      by (subst start_threads.simps) simp
  next
    case False
    then show ?thesis by (subst start_threads.simps) simp
  qed
qed

lemma share_sum:
  assumes "0 < NumThreads s" "0 \<le> NumConnections s"
  shows "sum_list (map (share s) [0..NumThreads s - 1]) = NumConnections s"
proof -
  let ?q = "NumConnections s div NumThreads s" and ?r = "NumConnections s mod NumThreads s"
  have r: "0 \<le> ?r" "?r < NumThreads s" using assms by auto
  have "sum_list (map (share s) [0..m - 1]) = m * ?q + min m ?r" if "0 \<le> m" "m \<le> NumThreads s" for m
    using that
  proof (induction "nat m" arbitrary: m)
    case 0
    then show ?case using r by simp
  next
    case (Suc k)
    have m: "0 \<le> m - 1" "m - 1 \<le> NumThreads s" "k = nat (m - 1)" using Suc.hyps(2) Suc.prems by auto
    have "[0..m - 1] = [0..m - 1 - 1] @ [m - 1]" using m(1) upto_rec2 [of 0 "m - 1"] by simp
    then show ?case using Suc.hyps(1) [OF m(3,1,2)] r by (simp add: share_def algebra_simps min_def)
  qed
  from this [of "NumThreads s"] show ?thesis using assms r by (simp add: min_def)
qed

section \<open>Time\<close>

fun slept :: "main_call list \<Rightarrow> int" where
  "slept [] = 0"
| "slept (Call_sleep n # cs) = n + slept cs"
| "slept (_ # cs) = slept cs"

lemma slept_append [simp]: "slept (xs @ ys) = slept xs + slept ys"
  by (induction xs rule: slept.induct) auto

fun waiting :: "main_call \<Rightarrow> bool" where
  "waiting (Call_sleep n) \<longleftrightarrow> 1 \<le> n \<and> n \<le> 5"
| "waiting Call_SampleCPU \<longleftrightarrow> True"
| "waiting (Call_ReportInterval d w) \<longleftrightarrow> True"
| "waiting _ \<longleftrightarrow> False"

lemma wait_loop_time:
  "slept (wait_loop short dur w left) = max 0 left" "list_all waiting (wait_loop short dur w left)"
proof (induction short dur w left rule: wait_loop.induct)
  case (1 short dur w left)
  {
    case 1
    then show ?case using "1.IH"(1) by (subst wait_loop.simps) (auto simp: Let_def ReportSleepTime_def max_def)
  next
    case 2
    then show ?case using "1.IH"(2) by (subst wait_loop.simps) (auto simp: Let_def ReportSleepTime_def)
  }
qed

lemma slept_starts [simp]: "slept (concat (map (\<lambda>k. [Call_NewThread (f k), Call_Start (g k)]) ks)) = 0"
  by (induction ks) simp_all

section \<open>Headers\<close>

definition named :: "string \<Rightarrow> string \<Rightarrow> bool" where
  "named n h \<longleftrightarrow> eqcase (hd (split_at (CHR '':'') h)) n"

definition header_bits :: "(string \<times> int) list" where
  "header_bits = [(''Host'', kHostSet), (''Content-Length'', kContentLengthSet), (''Content-Type'', kContentTypeSet),
     (''Authorization'', kAuthorizationSet), (''Connection'', kConnectionSet), (''User-Agent'', kUserAgentSet)]"

lemmas bit_defs = kHostSet_def kContentLengthSet_def kContentTypeSet_def kAuthorizationSet_def kConnectionSet_def kUserAgentSet_def

lemma eqcase_unique: "eqcase s a \<Longrightarrow> eqcase s b \<longleftrightarrow> eqcase a b"
  by (auto simp: eqcase_iff)

lemma standard_names_differ:
  "(a, x) \<in> set header_bits \<Longrightarrow> (b, y) \<in> set header_bits \<Longrightarrow> eqcase a b \<longleftrightarrow> a = b"
proof -
  have "list_all (\<lambda>(a, x). list_all (\<lambda>(b, y). eqcase a b \<longleftrightarrow> a = b) header_bits) header_bits" by code_simp
  then show "(a, x) \<in> set header_bits \<Longrightarrow> (b, y) \<in> set header_bits \<Longrightarrow> eqcase a b \<longleftrightarrow> a = b"
    by (auto simp: list_all_iff)
qed

lemma bits_disjoint: "(m, c) \<in> set header_bits \<Longrightarrow> (n, b) \<in> set header_bits \<Longrightarrow> m \<noteq> n \<Longrightarrow> c AND b = 0"
proof -
  have "list_all (\<lambda>(m, c). list_all (\<lambda>(n, b). m = n \<or> c AND b = 0) header_bits) header_bits" by code_simp
  then have "\<forall>x \<in> set header_bits. \<forall>y \<in> set header_bits. fst x = fst y \<or> snd x AND snd y = 0"
    unfolding list_all_iff by (simp only: split_def)
  then show "(m, c) \<in> set header_bits \<Longrightarrow> (n, b) \<in> set header_bits \<Longrightarrow> m \<noteq> n \<Longrightarrow> c AND b = 0"
    by (metis fst_conv snd_conv)
qed

lemma or_and_zero: "(x OR y) AND b = 0 \<longleftrightarrow> x AND b = 0 \<and> y AND b = 0" for x y b :: int
  by (metis bit.conj_disj_distrib2 or_eq_0_iff)

lemma addHeader_find:
  assumes "absl_ok A"
  shows "SetHeaders (addHeader A h s) =
    (case find (\<lambda>(m, c). named m h) header_bits of None \<Rightarrow> SetHeaders s | Some (m, c) \<Rightarrow> SetHeaders s OR c)"
  by (simp add: addHeader_def absl_StrSplit [OF assms] Let_def set_header_def named_def header_bits_def)

lemma find_header:
  "find (\<lambda>(m, c). named m h) header_bits = Some (m, c) \<Longrightarrow> (m, c) \<in> set header_bits \<and> named m h"
  by (auto simp: find_Some_iff in_set_conv_nth)

lemma named_unique:
  "(m, c) \<in> set header_bits \<Longrightarrow> (n, b) \<in> set header_bits \<Longrightarrow> named m h \<Longrightarrow> named n h \<Longrightarrow> m = n"
  using eqcase_unique [of _ m n] standard_names_differ unfolding named_def by blast

lemma header_bit: "(n, c) \<in> set header_bits \<Longrightarrow> (n, b) \<in> set header_bits \<Longrightarrow> c = b \<and> b AND b \<noteq> 0"
  by (auto simp: header_bits_def bit_defs)

lemma addHeader_fields:
  assumes "absl_ok A"
  shows "Headers (addHeader A h s) = Headers s @ [h]"
    "(n, b) \<in> set header_bits \<Longrightarrow> SetHeaders (addHeader A h s) AND b = 0 \<longleftrightarrow> SetHeaders s AND b = 0 \<and> \<not> named n h"
proof -
  show "Headers (addHeader A h s) = Headers s @ [h]"
    by (simp add: addHeader_def absl_StrSplit [OF assms] Let_def set_header_def)
  assume nb: "(n, b) \<in> set header_bits"
  show "SetHeaders (addHeader A h s) AND b = 0 \<longleftrightarrow> SetHeaders s AND b = 0 \<and> \<not> named n h"
  proof (cases "find (\<lambda>(m, c). named m h) header_bits")
    case None
    then have "\<not> named n h" using nb by (auto simp: find_None_iff)
    with None show ?thesis by (simp add: addHeader_find [OF assms])
  next
    case (Some mc)
    obtain m c where mc: "mc = (m, c)" by (cases mc)
    with Some find_header have m: "(m, c) \<in> set header_bits" "named m h" by blast+
    show ?thesis
    proof (cases "m = n")
      case True
      with m(1) header_bit [OF _ nb] have "c = b" "b AND b \<noteq> 0" by blast+
      with m(2) True show ?thesis by (simp add: addHeader_find [OF assms] Some mc or_and_zero)
    next
      case False
      with named_unique [OF m(1) nb m(2)] bits_disjoint [OF m(1) nb] have "\<not> named n h" "c AND b = 0" by blast+
      then show ?thesis by (simp add: addHeader_find [OF assms] Some mc or_and_zero)
    qed
  qed
qed

lemma addHeaders_fields:
  assumes "absl_ok A"
  shows "Headers (fold (addHeader A) hs s) = Headers s @ hs"
    "(n, b) \<in> set header_bits \<Longrightarrow>
       SetHeaders (fold (addHeader A) hs s) AND b = 0 \<longleftrightarrow> SetHeaders s AND b = 0 \<and> filter (named n) hs = []"
  by (induction hs arbitrary: s) (auto simp: addHeader_fields [OF assms])

text \<open>The header lines of a request: its pieces between the request line and the blank line.\<close>

definition header_lines :: "IOConfig \<Rightarrow> URLInfo \<Rightarrow> string option \<Rightarrow> string list" where
  "header_lines t u auth =
     (let ps = tl (request_pieces t u auth)
      in map (\<lambda>p. take (length p - 2) p) (take (length ps - (if sendData t \<noteq> [] then 2 else 1)) ps))"

definition own_lines :: "IOConfig \<Rightarrow> URLInfo \<Rightarrow> string list" where
  "own_lines t u =
     (if headersSet t AND kUserAgentSet = 0 then [''User-Agent: apib''] else []) @
     (if headersSet t AND kHostSet = 0 then [''Host: '' @ u_hostHeader u] else []) @
     (if sendData t \<noteq> [] \<and> headersSet t AND kContentTypeSet = 0 then [''Content-Type: text/plain''] else []) @
     (if sendData t \<noteq> [] \<and> headersSet t AND kContentLengthSet = 0
      then [''Content-Length: '' @ show_nat (length (sendData t))] else [])"

definition close_line :: "IOConfig \<Rightarrow> string list" where
  "close_line t = (if noKeepAlive t \<and> headersSet t AND kConnectionSet = 0 then [''Connection: close''] else [])"

lemma header_lines_eq:
  "header_lines t u auth = own_lines t u @ (case auth of None \<Rightarrow> [] | Some h \<Rightarrow> [h]) @ close_line t @
     (case headers t of None \<Rightarrow> [] | Some hs \<Rightarrow> hs)"
proof -
  let ?ls = "own_lines t u @ (case auth of None \<Rightarrow> [] | Some h \<Rightarrow> [h]) @ close_line t @
     (case headers t of None \<Rightarrow> [] | Some hs \<Rightarrow> hs)"
  have "tl (request_pieces t u auth) = map (\<lambda>l. l @ [CR, LF]) ?ls @ [[CR, LF]] @ (if sendData t \<noteq> [] then [sendData t] else [])"
    by (simp add: request_pieces_def own_lines_def close_line_def split: option.split)
  moreover have "map (\<lambda>p. take (length p - 2) p) (map (\<lambda>l. l @ [CR, LF]) ls) = ls" for ls :: "string list"
    by (simp add: o_def)
  moreover have "take (length xs) (xs @ ys) = xs" for xs ys :: "string list" by simp
  ultimately show ?thesis unfolding header_lines_def Let_def by (cases "sendData t = []") (simp_all add: o_def)
qed

lemma named_append: "CHR '':'' \<notin> set a \<Longrightarrow> named n (a @ CHR '':'' # v) \<longleftrightarrow> eqcase a n"
  by (simp add: named_def split_at_append)

lemma filter_if: "filter P (if b then [x] else []) = (if b \<and> P x then [x] else [])"
  by (cases b) auto

lemma own_names:
  "named n ''User-Agent: apib'' \<longleftrightarrow> eqcase ''User-Agent'' n"
  "named n (''Host: '' @ v) \<longleftrightarrow> eqcase ''Host'' n"
  "named n ''Content-Type: text/plain'' \<longleftrightarrow> eqcase ''Content-Type'' n"
  "named n (''Content-Length: '' @ v) \<longleftrightarrow> eqcase ''Content-Length'' n"
  "named n ''Connection: close'' \<longleftrightarrow> eqcase ''Connection'' n"
  "named n (''Authorization: '' @ v) \<longleftrightarrow> eqcase ''Authorization'' n"
  using named_append [of "''User-Agent''" n "'' apib''"] named_append [of "''Host''" n "'' '' @ v"]
    named_append [of "''Content-Type''" n "'' text/plain''"] named_append [of "''Content-Length''" n "'' '' @ v"]
    named_append [of "''Connection''" n "'' close''"] named_append [of "''Authorization''" n "'' '' @ v"]
  by simp_all

section \<open>Properties\<close>

text \<open>C24. The connections asked for are spread over the threads. With at least one connection and a
  number of threads as \<open>choose_threads\<close> leaves it, every thread can be set up, the threads' numbers
  of connections add up to exactly the number asked for, no thread is idle, and no two differ by
  more than one; each thread gets its own index.\<close>

theorem connections_spread:
  assumes "choose_threads Y s0 = Some s" "1 \<le> NumConnections s0" "can_initialize Y s0"
  shows "\<exists>sus. setups_from Y s 0 = sus \<and> int (length sus) = NumThreads s \<and> 1 \<le> NumThreads s \<and>
    start_threads Y s 0 = Some (concat (map (\<lambda>su. [Call_NewThread su, Call_Start (nat (t_index (su_config su)))]) sus), True) \<and>
    map (\<lambda>su. t_index (su_config su)) sus = [0..NumThreads s - 1] \<and>
    sum_list (map (\<lambda>su. numConnections (su_config su)) sus) = NumConnections s0 \<and>
    list_all (\<lambda>su. 1 \<le> numConnections (su_config su) \<and>
      numConnections (su_config su) - NumConnections s0 div NumThreads s \<in> {0, 1}) sus"
proof -
  obtain n where n: "(if NumThreads s0 < 1 then cpu_Count (sys_block Y) (sys_cpuinfo Y) else Some (NumThreads s0)) = Some n"
    "s = s0\<lparr>NumThreads := (if n > NumConnections s0 then NumConnections s0 else n)\<rparr>"
    using assms(1) by (auto simp: choose_threads_def Let_def bind_eq_Some_conv)
  have "1 \<le> n"
    using n(1) by (auto simp: cpu_Count_def Let_def bind_eq_Some_conv split: if_splits option.splits)
  then have s: "0 < NumThreads s" "NumThreads s \<le> NumConnections s" "0 \<le> NumConnections s"
    "NumConnections s = NumConnections s0" "can_initialize Y s"
    using n(2) assms(2,3) by (auto simp: can_initialize_def)
  let ?su = "\<lambda>k. projr (the (initializeThread Y k s))"
  have su: "numConnections (su_config (?su k)) = share s k" "t_index (su_config (?su k)) = k" for k
    by (rule initializeThread_ok [OF s(5,1,3), of k]; simp)+
  have sus: "setups_from Y s 0 = map ?su [0..NumThreads s - 1]" by (simp add: setups_from_def)
  have q: "1 \<le> NumConnections s div NumThreads s"
    using zdiv_mono1 [OF s(2,1)] s(1) by simp
  have nums: "map (\<lambda>su. numConnections (su_config su)) (setups_from Y s 0) = map (share s) [0..NumThreads s - 1]"
    and index: "map (\<lambda>su. t_index (su_config su)) (setups_from Y s 0) = [0..NumThreads s - 1]"
    by (simp_all add: sus o_def su)
  have "sum_list (map (\<lambda>su. numConnections (su_config su)) (setups_from Y s 0)) = NumConnections s0"
    unfolding nums using share_sum [OF s(1,3)] s(4) by simp
  moreover have "start_threads Y s 0 = Some (concat (map (\<lambda>su. [Call_NewThread su, Call_Start (nat (t_index (su_config su)))]) (setups_from Y s 0)), True)"
    using start_threads_ok [OF s(5,1,3)] by (simp add: sus o_def su)
  moreover have "list_all (\<lambda>su. 1 \<le> numConnections (su_config su) \<and>
      numConnections (su_config su) - NumConnections s0 div NumThreads s \<in> {0, 1}) (setups_from Y s 0)"
    using q s(4) by (auto simp: sus list_all_iff su share_def)
  moreover have "int (length (setups_from Y s 0)) = NumThreads s" using s(1) by (simp add: sus)
  ultimately show ?thesis using index s(1) by simp
qed

definition example_system :: system where
  "example_system =
     \<lparr>sys_absl = absl_reference, sys_resolver = \<lparr>getaddrinfo = (\<lambda>h. Resolved [(AF_INET, replicate 14 NUL)]), gai_strerror = (\<lambda>e. []), strerror = (\<lambda>e. [])\<rparr>,
      sys_files = (\<lambda>n. None), sys_block = replicate 512 NUL, sys_cpuinfo = None, sys_rlim_cur = 1024, sys_rlim_max = 4096,
      sys_setrlimit = 0, sys_load_locations = (\<lambda>n. 1), sys_set_cipher = (\<lambda>n. 1)\<rparr>"

lemma connections_spread_witness:
  "\<exists>sus. setups_from example_system (default_settings\<lparr>NumConnections := 8, NumThreads := 3\<rparr>) 0 = sus \<and>
    length sus = 3 \<and> sum_list (map (\<lambda>su. numConnections (su_config su)) sus) = 8 \<and>
    list_all (\<lambda>su. numConnections (su_config su) - 2 \<in> {0, 1}) sus"
proof -
  let ?s = "default_settings\<lparr>NumConnections := 8, NumThreads := 3\<rparr>"
  have "choose_threads example_system ?s = Some ?s" by (simp add: choose_threads_def)
  moreover have "can_initialize example_system ?s" by (simp add: can_initialize_def default_settings_def)
  ultimately show ?thesis using connections_spread [of example_system ?s ?s] by (fastforce simp: list_all_iff)
qed

text \<open>C23. A run measures for as long as it was told to. In the calls of a run whose threads could be
  set up, the threads are started before anything is measured; the program sleeps for the warm-up
  time, then between the last \<open>RecordStart\<close> and \<open>RecordStop\<close> for exactly the duration, in naps of
  one to five seconds each followed by a sample or an interval report; and after that it stops and
  then joins every thread once, in order.\<close>

theorem run_measures_duration:
  assumes "run_threads Y s = Some (trc, True)" "can_initialize Y s" "0 < NumThreads s" "0 \<le> NumConnections s"
  shows "\<exists>starting warming measured.
    trc = starting @ warming @ [Call_RecordStart True] @ measured @ [Call_RecordStop] @
      map (\<lambda>i. Call_RequestStop i 2) [0..<nat (NumThreads s)] @ map Call_Join [0..<nat (NumThreads s)] \<and>
    filter (\<lambda>c. case c of Call_Start i \<Rightarrow> True | _ \<Rightarrow> False) starting = map Call_Start [0..<nat (NumThreads s)] \<and>
    slept starting = 0 \<and> slept warming = max 0 (warmupTime s) \<and>
    slept measured = max 0 (duration s) \<and> list_all waiting measured"
proof -
  let ?starting = "concat (map (\<lambda>k. [Call_NewThread (projr (the (initializeThread Y k s))), Call_Start (nat k)]) [0..NumThreads s - 1])"
  let ?warming = "if warmupTime s > 0 then [Call_RecordStart True] @ waitAndReport s (warmupTime s) True else []"
  let ?measured = "waitAndReport s (duration s) False"
  have "trc = ?starting @ ?warming @ [Call_RecordStart True] @ ?measured @ [Call_RecordStop] @
      map (\<lambda>i. Call_RequestStop i 2) [0..<nat (NumThreads s)] @ map Call_Join [0..<nat (NumThreads s)]"
    using assms(1) start_threads_ok [OF assms(2-4)] by (simp add: run_threads_def)
  moreover have "filter (\<lambda>c. case c of Call_Start i \<Rightarrow> True | _ \<Rightarrow> False) ?starting = map (Call_Start \<circ> nat) [0..NumThreads s - 1]"
    by (induction "[0..NumThreads s - 1]" rule: list.induct) (simp_all add: filter_concat o_def)
  moreover have "map nat [0..NumThreads s - 1] = [0..<nat (NumThreads s)]"
    using assms(3) by (intro nth_equalityI) (simp_all add: nth_upto)
  then have "map (Call_Start \<circ> nat) [0..NumThreads s - 1] = map Call_Start [0..<nat (NumThreads s)]"
    by (metis map_map)
  moreover have "slept ?warming = max 0 (warmupTime s)" "slept ?measured = max 0 (duration s)" "list_all waiting ?measured"
    using wait_loop_time by (simp_all add: waitAndReport_def)
  ultimately show ?thesis
    by (intro exI [of _ ?starting] exI [of _ ?warming] exI [of _ ?measured]) simp
qed

lemma run_measures_duration_witness:
  "\<exists>trc starting warming measured.
    run_threads example_system (default_settings\<lparr>NumConnections := 8, NumThreads := 3, duration := 12, warmupTime := 7\<rparr>) = Some (trc, True) \<and>
    trc = starting @ warming @ [Call_RecordStart True] @ measured @ [Call_RecordStop] @
      map (\<lambda>i. Call_RequestStop i 2) [0..<nat 3] @ map Call_Join [0..<nat 3] \<and>
    slept warming = 7 \<and> slept measured = 12 \<and> list_all waiting measured"
proof -
  let ?s = "default_settings\<lparr>NumConnections := 8, NumThreads := 3, duration := 12, warmupTime := 7\<rparr>"
  have i: "can_initialize example_system ?s" by (simp add: can_initialize_def default_settings_def)
  then have "\<exists>trc. run_threads example_system ?s = Some (trc, True)"
    using start_threads_ok [OF i] by (simp add: run_threads_def)
  then obtain trc where "run_threads example_system ?s = Some (trc, True)" ..
  with run_measures_duration [OF this i] show ?thesis by fastforce
qed



text \<open>C30. Basic authentication sends the credentials: \<^verbatim>\<open>-u\<close> adds one header line, \<^verbatim>\<open>Authorization:
  Basic\<close> and a text that the Base64 decoder turns back into exactly the given bytes, and marks the
  header as given.\<close>

theorem basic_authentication:
  assumes "absl_ok A"
  shows "\<exists>s' b. processBasic A credentials s = Some s' \<and> Headers s' = Headers s @ [''Authorization: Basic '' @ b] \<and>
    Base64decode (b @ [NUL]) = (credentials @ [NUL], int (length credentials)) \<and>
    SetHeaders s' AND kAuthorizationSet \<noteq> 0"
proof -
  let ?b = "encode_from credentials"
  have "processBasic A credentials s = Some (addHeader A (''Authorization: Basic '' @ ?b) s)"
    using encode_c_string [of credentials] by (simp add: processBasic_def Base64encode_def absl_StrCat [OF assms])
  moreover have "named ''Authorization'' (''Authorization: Basic '' @ ?b)"
    using own_names(6) [of "''Authorization''" "''Basic '' @ ?b"] by (simp add: eqcase_iff)
  then have "SetHeaders (addHeader A (''Authorization: Basic '' @ ?b) s) AND kAuthorizationSet \<noteq> 0"
    using addHeader_fields(2) [OF assms, of "''Authorization''" kAuthorizationSet] by (simp add: header_bits_def)
  ultimately show ?thesis using addHeader_fields(1) [OF assms] decode_encoded by blast
qed

lemma basic_authentication_witness:
  "\<exists>s' b. processBasic absl_reference ''user:pass'' default_settings = Some s' \<and>
    Headers s' = Headers default_settings @ [''Authorization: Basic '' @ b] \<and>
    Base64decode (b @ [NUL]) = (''user:pass'' @ [NUL], int (length ''user:pass'')) \<and>
    SetHeaders s' AND kAuthorizationSet \<noteq> 0"
  by (rule basic_authentication [OF absl_reference_ok])

text \<open>A request for no connections crashes the program: \<^verbatim>\<open>-c 0\<close> is accepted, the number of
  threads becomes 0 like the number of connections, and with \<^verbatim>\<open>-1\<close> the set-up of the thread divides
  by it.\<close>

theorem no_connections_divides_by_zero:
  assumes "init_urls Y url G = Some (st, G')" "ok st" "url \<noteq> []" "ContentType s = []"
    and "NumConnections s = 0" "0 < to_int32 (sys_rlim_cur Y)" "1 \<le> NumThreads s" "JustOnce s"
  shows "main_run Y url G s = None"
  using assms by (simp add: main_run_def Let_def setProcessLimits_def choose_threads_def run_once_def initializeThread_def)

lemma no_connections_divides_by_zero_witness:
  "main_run (example_system\<lparr>sys_files := \<lambda>n. Some ''''\<rparr>) ''@urls'' no_urls (default_settings\<lparr>NumConnections := 0, NumThreads := 4, JustOnce := True\<rparr>) = None"
proof -
  have "map_option (\<lambda>r. ok (fst r)) (init_urls (example_system\<lparr>sys_files := \<lambda>n. Some ''''\<rparr>) ''@urls'' no_urls) = Some True" by code_simp
  then obtain st G' where "init_urls (example_system\<lparr>sys_files := \<lambda>n. Some ''''\<rparr>) ''@urls'' no_urls = Some (st, G')" "ok st" by auto
  then show ?thesis
    by (rule no_connections_divides_by_zero) (simp_all add: default_settings_def example_system_def)
qed

text \<open>Unlimited descriptors are taken for none: the limit \<^verbatim>\<open>RLIM_INFINITY\<close> becomes -1.\<close>

lemma unlimited_descriptors_refused:
  "0 \<le> numConns \<Longrightarrow> setProcessLimits numConns (2 ^ 64 - 1) (2 ^ 64 - 1) setrlimitErr = - 1"
proof -
  have "to_int32 (2 ^ 64 - 1) = - 1" by code_simp
  then show "0 \<le> numConns \<Longrightarrow> ?thesis" by (simp add: setProcessLimits_def)
qed

text \<open>\<^verbatim>\<open>-1\<close> sends one request on each connection of the first thread.\<close>

lemma one_request_per_connection:
  assumes "can_initialize Y s" "0 < NumThreads s" "0 \<le> NumConnections s" "JustOnce s"
  shows "\<exists>su. run_once Y s = Some ([Call_NewThread su, Call_RecordStart True, Call_Start 0, Call_Join 0, Call_RecordStop], True) \<and>
    numConnections (su_config su) = share s 0"
  by (rule initializeThread_ok [OF assms(1-3), of 0]) (simp add: run_once_def)

text \<open>Every value of \<^verbatim>\<open>-k\<close> but -1 turns keep-alive off.\<close>

lemma keep_alive_off:
  assumes "initializeThread Y ix s = Some (Inr su)"
  shows "noKeepAlive (su_config su) \<longleftrightarrow> KeepAlive s \<noteq> - 1"
  using assms by (auto simp: initializeThread_def Let_def KeepAliveAlways_def split: if_splits prod.splits)

end
