(* ===== verification/Getopt.thy ===== *)
theory Getopt
  imports CText
begin

text \<open>
  The command line as \<^verbatim>\<open>main\<close> of \<^verbatim>\<open>apib/apib_main.cc\<close> reads it: its two option tables, and
  \<^verbatim>\<open>getopt_long\<close> of the C library as its manual describes it for such tables: options and
  arguments may be mixed, letters may share a word, an argument may follow its letter or be the
  next word, \<^verbatim>\<open>--\<close> ends the options. The library looks a long option up by walking the table until
  its name is found or an entry without a name ends the table; \<^const>\<open>None\<close> means that it walked past
  the end.
\<close>

section \<open>The tables\<close>

datatype has_arg = no_argument | required_argument

definition OPTIONS :: string where
  "OPTIONS = ''c:d:f:hk:t:u:vw:x:C:F:H:O:K:M:X:N:STVW:Z1''"

text \<open>An entry: the name, whether it takes an argument, and the letter it stands for. There is no
  entry of zeros at the end.\<close>

definition Options :: "(string \<times> has_arg \<times> char) list" where
  "Options =
     [(''concurrency'', required_argument, CHR ''c''),
      (''duration'', required_argument, CHR ''d''),
      (''input-file'', required_argument, CHR ''f''),
      (''help'', no_argument, CHR ''h''),
      (''keep-alive'', required_argument, CHR ''k''),
      (''content-type'', required_argument, CHR ''t''),
      (''username-password'', required_argument, CHR ''u''),
      (''verbose'', no_argument, CHR ''v''),
      (''version'', no_argument, CHR ''Z''),
      (''warmup'', required_argument, CHR ''w''),
      (''method'', required_argument, CHR ''x''),
      (''cipherlist'', required_argument, CHR ''C''),
      (''certificate'', required_argument, CHR ''F''),
      (''header'', required_argument, CHR ''H''),
      (''oauth'', required_argument, CHR ''O''),
      (''iothreads'', required_argument, CHR ''K''),
      (''monitor'', required_argument, CHR ''M''),
      (''monitor2'', required_argument, CHR ''X''),
      (''name'', required_argument, CHR ''N''),
      (''csv-output'', no_argument, CHR ''S''),
      (''header-line'', no_argument, CHR ''T''),
      (''verify'', no_argument, CHR ''V''),
      (''one'', no_argument, CHR ''1''),
      (''think-time'', required_argument, CHR ''W'')]"

section \<open>getopt_long\<close>

text \<open>The kind of a letter in a string of options.\<close>

fun short_kind :: "string \<Rightarrow> char \<Rightarrow> has_arg option" where
  "short_kind [] c = None"
| "short_kind (x # xs) c =
     (if x = c \<and> c \<noteq> CHR '':'' then Some (if xs \<noteq> [] \<and> hd xs = CHR '':'' then required_argument else no_argument)
      else short_kind xs c)"

fun long_option :: "(string \<times> has_arg \<times> char) list \<Rightarrow> string \<Rightarrow> (has_arg \<times> char) option" where
  "long_option [] name = None"
| "long_option ((n, k, c) # os) name = (if n = name then Some (k, c) else long_option os name)"

text \<open>What the calls of \<^verbatim>\<open>getopt_long\<close> answer: the options with their arguments, where \<^verbatim>\<open>?\<close> reports an
  error, and the words that are no options.\<close>

type_synonym parsed = "(char \<times> string) list \<times> string list"

definition answer :: "char \<Rightarrow> string \<Rightarrow> parsed option \<Rightarrow> parsed option" where
  "answer c v = map_option (\<lambda>(os, ws). ((c, v) # os, ws))"

definition keep_word :: "string \<Rightarrow> parsed option \<Rightarrow> parsed option" where
  "keep_word w = map_option (\<lambda>(os, ws). (os, w # ws))"

text \<open>The letters left of the current word, and the words left. The value of a long option follows
  an equals sign, or is the next word.\<close>

function getopt :: "string \<Rightarrow> string list \<Rightarrow> parsed option" where
  "getopt (c # cs) args =
     (case short_kind OPTIONS c of
        None \<Rightarrow> answer (CHR ''?'') [] (getopt cs args)
      | Some no_argument \<Rightarrow> answer c [] (getopt cs args)
      | Some required_argument \<Rightarrow>
          if cs \<noteq> [] then answer c cs (getopt [] args)
          else (case args of
              [] \<Rightarrow> Some ([(CHR ''?'', [])], [])
            | v # args' \<Rightarrow> answer c v (getopt [] args')))"
| "getopt [] [] = Some ([], [])"
| "getopt [] (w # args) =
     (if w = ''--'' then Some ([], args)
      else if take 2 w = ''--'' then
        let name = takeWhile (\<lambda>c. c \<noteq> CHR ''='') (drop 2 w);
            rest = dropWhile (\<lambda>c. c \<noteq> CHR ''='') (drop 2 w)
        in (case long_option Options name of
              None \<Rightarrow> None
            | Some (no_argument, c) \<Rightarrow>
                if rest = [] then answer c [] (getopt [] args) else answer (CHR ''?'') [] (getopt [] args)
            | Some (required_argument, c) \<Rightarrow>
                if rest \<noteq> [] then answer c (tl rest) (getopt [] args)
                else (case args of
                    [] \<Rightarrow> Some ([(CHR ''?'', [])], [])
                  | v # args' \<Rightarrow> answer c v (getopt [] args')))
      else if take 1 w = ''-'' \<and> w \<noteq> ''-'' then getopt (tl w) args
      else keep_word w (getopt [] args))"
  by pat_completeness auto

termination
  by (relation "measure (\<lambda>(cs, args). length cs + sum_list (map (\<lambda>w. Suc (length w)) args))") auto

declare getopt.simps [simp del]

section \<open>Command lines\<close>

text \<open>The ways to write an option or another word.\<close>

datatype item =
    Letters string                      \<comment> \<open>\<^verbatim>\<open>-vS\<close>\<close>
  | Letter_value string char string     \<comment> \<open>\<^verbatim>\<open>-vSc10\<close>\<close>
  | Letter_next string char string      \<comment> \<open>\<^verbatim>\<open>-vSc 10\<close>\<close>
  | Name string                 \<comment> \<open>\<^verbatim>\<open>--verbose\<close>\<close>
  | Name_value string string    \<comment> \<open>\<^verbatim>\<open>--concurrency=10\<close>\<close>
  | Name_next string string     \<comment> \<open>\<^verbatim>\<open>--concurrency 10\<close>\<close>
  | Operand string

fun words :: "item \<Rightarrow> string list" where
  "words (Letters fs) = [CHR ''-'' # fs]"
| "words (Letter_value fs c v) = [CHR ''-'' # fs @ c # v]"
| "words (Letter_next fs c v) = [CHR ''-'' # fs @ [c], v]"
| "words (Name n) = [''--'' @ n]"
| "words (Name_value n v) = [''--'' @ n @ CHR ''='' # v]"
| "words (Name_next n v) = [''--'' @ n, v]"
| "words (Operand w) = [w]"

definition flag :: "char \<Rightarrow> bool" where
  "flag c \<longleftrightarrow> short_kind OPTIONS c = Some no_argument"

fun item_ok :: "item \<Rightarrow> bool" where
  "item_ok (Letters fs) \<longleftrightarrow> fs \<noteq> [] \<and> list_all flag fs"
| "item_ok (Letter_value fs c v) \<longleftrightarrow> list_all flag fs \<and> short_kind OPTIONS c = Some required_argument \<and> v \<noteq> []"
| "item_ok (Letter_next fs c v) \<longleftrightarrow> list_all flag fs \<and> short_kind OPTIONS c = Some required_argument"
| "item_ok (Name n) \<longleftrightarrow> map_option fst (long_option Options n) = Some no_argument"
| "item_ok (Name_value n v) \<longleftrightarrow> map_option fst (long_option Options n) = Some required_argument"
| "item_ok (Name_next n v) \<longleftrightarrow> map_option fst (long_option Options n) = Some required_argument"
| "item_ok (Operand w) \<longleftrightarrow> take 1 w \<noteq> ''-'' \<or> w = ''-''"

definition letter_of :: "string \<Rightarrow> char" where
  "letter_of n = snd (the (long_option Options n))"

fun item_options :: "item \<Rightarrow> (char \<times> string) list" where
  "item_options (Letters fs) = map (\<lambda>c. (c, [])) fs"
| "item_options (Letter_value fs c v) = map (\<lambda>c. (c, [])) fs @ [(c, v)]"
| "item_options (Letter_next fs c v) = map (\<lambda>c. (c, [])) fs @ [(c, v)]"
| "item_options (Name n) = [(letter_of n, [])]"
| "item_options (Name_value n v) = [(letter_of n, v)]"
| "item_options (Name_next n v) = [(letter_of n, v)]"
| "item_options (Operand w) = []"

fun item_operands :: "item \<Rightarrow> string list" where
  "item_operands (Operand w) = [w]"
| "item_operands _ = []"

section \<open>Facts about the tables\<close>

lemma long_option_mem: "long_option os n = Some (k, c) \<Longrightarrow> (n, k, c) \<in> set os"
  by (induction os n rule: long_option.induct) (auto split: if_splits)

lemma short_kind_mem: "short_kind os c = Some k \<Longrightarrow> c \<in> set os \<and> c \<noteq> CHR '':''"
  by (induction os c rule: short_kind.induct) (auto split: if_splits)

text \<open>The two tables agree, names have no equals sign and no letter is a dash.\<close>

lemma tables_agree:
  assumes "long_option Options n = Some (k, c)"
  shows "short_kind OPTIONS c = Some k" "CHR ''='' \<notin> set n" "n \<noteq> []"
proof -
  have "list_all (\<lambda>(n, k, c). short_kind OPTIONS c = Some k \<and> CHR ''='' \<notin> set n \<and> n \<noteq> []) Options" by code_simp
  then have "short_kind OPTIONS c = Some k \<and> CHR ''='' \<notin> set n \<and> n \<noteq> []"
    using long_option_mem [OF assms] unfolding list_all_iff by fast
  then show "short_kind OPTIONS c = Some k" "CHR ''='' \<notin> set n" "n \<noteq> []" by simp_all
qed

lemma no_equals:
  "CHR ''='' \<notin> set n \<Longrightarrow> takeWhile (\<lambda>c. c \<noteq> CHR ''='') n = n"
  "CHR ''='' \<notin> set n \<Longrightarrow> dropWhile (\<lambda>c. c \<noteq> CHR ''='') n = []"
  "CHR ''='' \<notin> set n \<Longrightarrow> takeWhile (\<lambda>c. c \<noteq> CHR ''='') (n @ CHR ''='' # v) = n"
  "CHR ''='' \<notin> set n \<Longrightarrow> dropWhile (\<lambda>c. c \<noteq> CHR ''='') (n @ CHR ''='' # v) = CHR ''='' # v"
  by (induction n) auto

lemma letter_not_dash: "short_kind OPTIONS c = Some k \<Longrightarrow> c \<noteq> CHR ''-''"
proof -
  have "short_kind OPTIONS (CHR ''-'') = None" by code_simp
  then show "short_kind OPTIONS c = Some k \<Longrightarrow> c \<noteq> CHR ''-''" by auto
qed

lemma getopt_flags:
  "list_all flag fs \<Longrightarrow> getopt (fs @ cs) args = map_option (\<lambda>(os, ws). (map (\<lambda>c. (c, [])) fs @ os, ws)) (getopt cs args)"
  by (induction fs)
    (simp_all add: getopt.simps(1) flag_def answer_def option.map_comp option.map_ident o_def split_def)

lemma getopt_word:
  assumes "cs \<noteq> []" "hd cs \<noteq> CHR ''-''"
  shows "getopt [] ((CHR ''-'' # cs) # args) = getopt cs args"
  unfolding getopt.simps(3) [of "CHR ''-'' # cs"] using assms by (cases cs) simp_all

lemma first_letter: "list_all flag fs \<Longrightarrow> short_kind OPTIONS c = Some k \<Longrightarrow> hd (fs @ c # v) \<noteq> CHR ''-''"
  using letter_not_dash by (cases fs) (auto simp: flag_def)

lemma getopt_item:
  assumes "item_ok i"
  shows "getopt [] (words i @ args) =
    map_option (\<lambda>(os, ws). (item_options i @ os, item_operands i @ ws)) (getopt [] args)"
proof (cases i)
  case (Letters fs)
  then have "hd fs \<noteq> CHR ''-''" using assms letter_not_dash by (cases fs) (auto simp: flag_def)
  then show ?thesis
    using assms Letters getopt_flags [of fs "[]" args] by (simp add: getopt_word)
next
  case (Letter_value fs c v)
  then show ?thesis
    using assms first_letter [of fs c _ v]
    by (simp add: getopt_word getopt_flags getopt.simps(1) answer_def option.map_comp o_def split_def)
next
  case (Letter_next fs c v)
  then show ?thesis
    using assms first_letter [of fs c _ "[]"]
    by (simp add: getopt_word getopt_flags getopt.simps(1) answer_def option.map_comp o_def split_def)
next
  case (Name n)
  then obtain c where c: "long_option Options n = Some (no_argument, c)" using assms by auto
  then show ?thesis
    using c Name tables_agree(2,3) [OF c]
    by (simp add: getopt.simps(3) [of "CHR ''-'' # CHR ''-'' # n"] Let_def letter_of_def answer_def split_def no_equals)
next
  case (Name_value n v)
  then obtain c where c: "long_option Options n = Some (required_argument, c)" using assms by auto
  then show ?thesis
    using c Name_value tables_agree(2) [OF c]
    by (simp add: getopt.simps(3) [of "CHR ''-'' # CHR ''-'' # n @ CHR ''='' # v"] Let_def letter_of_def answer_def split_def no_equals)
next
  case (Name_next n v)
  then obtain c where c: "long_option Options n = Some (required_argument, c)" using assms by auto
  then show ?thesis
    using c Name_next tables_agree(2,3) [OF c]
    by (simp add: getopt.simps(3) [of "CHR ''-'' # CHR ''-'' # n"] Let_def letter_of_def answer_def split_def no_equals)
next
  case (Operand w)
  have "take 2 w = ''--'' \<Longrightarrow> take 1 w = ''-'' \<and> w \<noteq> ''-''"
    by (cases w; cases "tl w") auto
  then show ?thesis
    using assms Operand by (auto simp: getopt.simps(3) [of w] keep_word_def split_def)
qed

end
