(* ===== verification/Command_Line.thy ===== *)
theory Command_Line
  imports Getopt Main_Facts
begin

text \<open>
  The command line and the settings together: what a command line means, that the settings it leads
  to are well formed, and what happens on a name that is not in the table.
\<close>

section \<open>main with its arguments\<close>

definition main_command :: "system \<Rightarrow> string list \<Rightarrow> Urls \<Rightarrow> (int \<times> main_call list) option" where
  "main_command Y argv G = do {
     (options, args) \<leftarrow> getopt [] argv;
     main Y options args G
   }"

lemma getopt_items:
  assumes "list_all item_ok items"
  shows "getopt [] (concat (map words items) @ args) =
    map_option (\<lambda>(os, ws). (concat (map item_options items) @ os, concat (map item_operands items) @ ws)) (getopt [] args)"
  using assms
  by (induction items) (simp_all add: getopt_item option.map_comp option.map_ident o_def split_def)

lemma getopt_end: "getopt [] [] = Some ([], [])" "getopt [] (''--'' # ws) = Some ([], ws)"
  by (simp_all add: getopt.simps)

section \<open>Well-formed settings\<close>

definition int32_ok :: "int \<Rightarrow> bool" where
  "int32_ok v \<longleftrightarrow> - (2 ^ 31) \<le> v \<and> v < 2 ^ 31"

text \<open>The numbers are those of an \<^verbatim>\<open>int\<close>, and a bit of \<^verbatim>\<open>SetHeaders\<close> is set exactly when there is a header
  of its name, or, for the authorization, when requests are signed.\<close>

definition header_bits_ok :: "Settings \<Rightarrow> bool" where
  "header_bits_ok s \<longleftrightarrow>
     list_all (\<lambda>(n, b). (SetHeaders s AND b \<noteq> 0) \<longleftrightarrow>
       list_ex (named n) (Headers s) \<or> n = ''Authorization'' \<and> OAuth_info s \<noteq> None) header_bits"

definition settings_ok :: "Settings \<Rightarrow> bool" where
  "settings_ok s \<longleftrightarrow>
     list_all int32_ok [NumConnections s, NumThreads s, KeepAlive s, ThinkTime s, duration s, warmupTime s] \<and>
     header_bits_ok s"

lemma default_settings_ok: "settings_ok default_settings"
  by code_simp

lemma header_bits_okD:
  "header_bits_ok s \<Longrightarrow> (n, b) \<in> set header_bits \<Longrightarrow>
     SetHeaders s AND b = 0 \<longleftrightarrow> \<not> list_ex (named n) (Headers s) \<and> (n = ''Authorization'' \<longrightarrow> OAuth_info s = None)"
  by (fastforce simp: header_bits_ok_def list_all_iff)

lemma header_bits_okI:
  "(\<And>n b. (n, b) \<in> set header_bits \<Longrightarrow>
     SetHeaders s AND b = 0 \<longleftrightarrow> \<not> list_ex (named n) (Headers s) \<and> (n = ''Authorization'' \<longrightarrow> OAuth_info s = None)) \<Longrightarrow>
   header_bits_ok s"
  unfolding header_bits_ok_def list_all_iff by auto

lemma addHeader_keeps:
  "NumConnections (addHeader A h s) = NumConnections s" "NumThreads (addHeader A h s) = NumThreads s"
  "KeepAlive (addHeader A h s) = KeepAlive s" "ThinkTime (addHeader A h s) = ThinkTime s"
  "duration (addHeader A h s) = duration s" "warmupTime (addHeader A h s) = warmupTime s"
  "OAuth_info (addHeader A h s) = OAuth_info s"
  by (simp_all add: addHeader_def set_header_def Let_def)

lemma addHeader_ok: "absl_ok A \<Longrightarrow> settings_ok s \<Longrightarrow> settings_ok (addHeader A h s)"
  unfolding settings_ok_def addHeader_keeps
  by (auto intro!: header_bits_okI simp: addHeader_fields addHeader_keeps header_bits_okD)

lemma processOAuth_ok: "settings_ok s \<Longrightarrow> settings_ok (processOAuth A v s)"
proof -
  assume s: "settings_ok s"
  have "(SetHeaders s OR kAuthorizationSet) AND b = 0 \<longleftrightarrow> SetHeaders s AND b = 0 \<and> n \<noteq> ''Authorization''"
    if "(n, b) \<in> set header_bits" for n b
  proof -
    have "list_all (\<lambda>(n, b). (kAuthorizationSet AND b = 0) = (n \<noteq> ''Authorization'')) header_bits" by code_simp
    with that have "(kAuthorizationSet AND b = 0) = (n \<noteq> ''Authorization'')" unfolding list_all_iff by auto
    then show ?thesis unfolding or_and_zero by simp
  qed
  with s show "settings_ok (processOAuth A v s)"
    unfolding settings_ok_def processOAuth_def set_header_def
    by (auto intro!: header_bits_okI simp: Let_def header_bits_okD)
qed

lemma processBasic_ok:
  assumes "absl_ok A" "settings_ok s"
  shows "\<exists>s'. processBasic A v s = Some s' \<and> settings_ok s'"
  using addHeader_ok [OF assms] by (simp add: processBasic_def Base64encode_def encode_c_string)

lemma int_option_ok:
  assumes "absl_ok A" "settings_ok s" "\<And>v. int32_ok v \<Longrightarrow> settings_ok (f v s)"
  shows "settings_ok (int_option A optarg f s)"
proof -
  have "int32_ok v" if "SimpleAtoi A optarg = Some v" for v
    using assms(1) that by (auto simp: absl_ok_def within_def int32_ok_def split: option.splits if_splits)
  moreover have "settings_ok (s\<lparr>failed := True\<rparr>)"
    using assms(2) by (simp add: settings_ok_def header_bits_ok_def)
  ultimately show ?thesis using assms(3) by (auto simp: int_option_def split: option.split)
qed

definition letters :: string where
  "letters = ''cdfhktuvwxZCFHKMXNOSTVW1?''"

definition option_ok :: "option_result option \<Rightarrow> bool" where
  "option_ok r \<longleftrightarrow> r \<in> {Some Header_line, Some Unknown_option} \<or> (\<exists>s. r = Some (Parsed s) \<and> settings_ok s)"

lemma option_okI:
  "option_ok x \<Longrightarrow> option_ok y \<Longrightarrow> option_ok (if b then x else y)" "settings_ok s \<Longrightarrow> option_ok (Some (Parsed s))"
  "option_ok (Some Header_line)" "option_ok (Some Unknown_option)"
  by (auto simp: option_ok_def)

lemma process_option_ok:
  assumes "absl_ok A" "settings_ok s"
  shows "option_ok (process_option A c v s)"
proof -
  have same: "settings_ok (s\<lparr>FileName := x\<rparr>)" "settings_ok (s\<lparr>doHelp := b\<rparr>)" "settings_ok (s\<lparr>ContentType := x\<rparr>)"
    "settings_ok (s\<lparr>Verbose := b\<rparr>)" "settings_ok (s\<lparr>Verb := x\<rparr>)" "settings_ok (s\<lparr>doVersion := b\<rparr>)"
    "settings_ok (s\<lparr>SslCipher := x\<rparr>)" "settings_ok (s\<lparr>SslCertificate := x\<rparr>)" "settings_ok (s\<lparr>monitorHost := x\<rparr>)"
    "settings_ok (s\<lparr>monitor2Host := x\<rparr>)" "settings_ok (s\<lparr>RunName := x\<rparr>)" "settings_ok (s\<lparr>ShortOutput := b\<rparr>)"
    "settings_ok (s\<lparr>SslVerify := b\<rparr>)" "settings_ok (s\<lparr>JustOnce := b\<rparr>)" "settings_ok (s\<lparr>failed := b\<rparr>)" for x b
    using assms(2) by (simp_all add: settings_ok_def header_bits_ok_def)
  have num: "settings_ok (int_option A v (\<lambda>v s. s\<lparr>NumConnections := v\<rparr>) s)"
    "settings_ok (int_option A v (\<lambda>v s. s\<lparr>duration := v\<rparr>) s)" "settings_ok (int_option A v (\<lambda>v s. s\<lparr>KeepAlive := v\<rparr>) s)"
    "settings_ok (int_option A v (\<lambda>v s. s\<lparr>warmupTime := v\<rparr>) s)" "settings_ok (int_option A v (\<lambda>v s. s\<lparr>NumThreads := v\<rparr>) s)"
    "settings_ok (int_option A v (\<lambda>v s. s\<lparr>ThinkTime := v\<rparr>) s)"
    by (rule int_option_ok [OF assms(1,2)], use assms(2) in \<open>simp add: settings_ok_def header_bits_ok_def\<close>)+
  have basic: "option_ok (map_option Parsed (processBasic A v s))"
    using processBasic_ok [OF assms(1,2), of v] by (auto simp: option_ok_def)
  show ?thesis
    unfolding process_option_def
    by (intro option_okI same num basic addHeader_ok processOAuth_ok assms)
qed

lemma process_option_known:
  assumes "c \<in> set letters"
  shows "process_option A c v s \<noteq> Some Unknown_option"
proof -
  have "list_all (\<lambda>c. process_option A c v s \<noteq> Some Unknown_option) letters"
    unfolding letters_def list.pred_inject by (intro conjI TrueI; simp add: process_option_def)
  with assms show ?thesis by (simp add: list_all_iff)
qed

text \<open>Every letter that \<^verbatim>\<open>getopt_long\<close> can return is handled by the \<^verbatim>\<open>switch\<close>.\<close>

lemma short_letters:
  assumes "short_kind OPTIONS c = Some k"
  shows "c \<in> set letters"
proof -
  have "list_all (\<lambda>c. c = CHR '':'' \<or> c \<in> set letters) OPTIONS" by code_simp
  then have "c = CHR '':'' \<or> c \<in> set letters"
    unfolding list_all_iff by (rule bspec) (simp add: short_kind_mem [OF assms])
  then show ?thesis using short_kind_mem [OF assms] by simp
qed

definition handled_letters :: "parsed option \<Rightarrow> bool" where
  "handled_letters p \<longleftrightarrow> (case p of None \<Rightarrow> True | Some (os, ws) \<Rightarrow> list_all (\<lambda>(c, v). c \<in> set letters) os)"

lemma handled_simps:
  "handled_letters None" "handled_letters (Some ([], ws))"
  "c \<in> set letters \<Longrightarrow> handled_letters (Some ([(c, v)], ws))"
  "c \<in> set letters \<Longrightarrow> handled_letters p \<Longrightarrow> handled_letters (answer c v p)"
  "handled_letters p \<Longrightarrow> handled_letters (keep_word w p)"
  by (auto simp: handled_letters_def answer_def keep_word_def split: option.splits)

lemma getopt_letters: "handled_letters (getopt cs args)"
proof (induction "length cs + sum_list (map (\<lambda>w. Suc (length w)) args)" arbitrary: cs args rule: less_induct)
  case less
  have q: "CHR ''?'' \<in> set letters" by code_simp
  note IH = less
  show ?case
  proof (cases cs)
    case (Cons c cs')
    have "handled_letters (getopt cs' args)" using IH [of cs' args] Cons by simp
    moreover have "handled_letters (getopt [] args)" using IH [of "[]" args] Cons by simp
    moreover have "handled_letters (getopt [] args')" if "args = v # args'" for v args'
      using IH [of "[]" args'] Cons that by simp
    ultimately show ?thesis
      unfolding Cons getopt.simps(1) using q short_letters [of c]
      by (simp add: handled_simps split: option.split has_arg.split list.split)
  next
    case Nil
    show ?thesis
    proof (cases args)
      case (Cons w args')
      have a: "handled_letters (getopt [] args')" using IH [of "[]" args'] Cons Nil by simp
      have b: "handled_letters (getopt (tl w) args')"
        using IH [of "tl w" args'] Cons Nil by simp
      have d: "handled_letters (getopt [] args'')" if "args' = v # args''" for v args''
        using IH [of "[]" args''] Cons Nil that by simp
      have l: "c \<in> set letters" if "long_option Options n = Some (k, c)" for n k c
        using tables_agree(1) [OF that] by (rule short_letters)
      show ?thesis
        unfolding Cons Nil getopt.simps(3) Let_def
        using a b d q by (simp add: handled_simps l split: option.split has_arg.split list.split)
    qed (simp add: Nil getopt.simps handled_simps)
  qed
qed


lemma process_options_ok:
  assumes "absl_ok A" "settings_ok s" "list_all (\<lambda>(c, v). c \<in> set letters) os"
  shows "process_options A os s = Some Header_line \<or> (\<exists>s'. process_options A os s = Some (Parsed s') \<and> settings_ok s')"
  using assms(2,3)
proof (induction os arbitrary: s)
  case (Cons o' os)
  obtain c v where o': "o' = (c, v)" by (cases o')
  have "process_option A c v s = Some Header_line \<or> (\<exists>s'. process_option A c v s = Some (Parsed s') \<and> settings_ok s')"
    using process_option_ok [OF assms(1) Cons.prems(1), of c v] process_option_known [of c A v s] Cons.prems(2) o'
    by (simp add: option_ok_def)
  then consider "process_option A c v s = Some Header_line"
    | s' where "process_option A c v s = Some (Parsed s')" "settings_ok s'" by blast
  then show ?case
  proof cases
    case (2 s')
    then show ?thesis using Cons.IH [OF 2(2)] Cons.prems(2) o' by simp
  qed (simp add: o')
qed simp

section \<open>Properties\<close>



text \<open>C19. The settings are well formed after every command line. Whatever the words are, if
  \<^verbatim>\<open>getopt_long\<close> stays inside its table, no option is unknown to the \<^verbatim>\<open>switch\<close> (so the program never
  aborts on an internal error); either the header line is printed, or every number of the
  settings is an \<^verbatim>\<open>int\<close> and the bits of \<open>SetHeaders\<close> are exactly those of the headers that were given
  and of the OAuth credentials.\<close>

theorem command_line_settings:
  assumes "absl_ok A" "getopt [] argv = Some (options, args)"
  shows "process_options A options default_settings = Some Header_line \<or>
    (\<exists>s. process_options A options default_settings = Some (Parsed s) \<and>
      list_all int32_ok [NumConnections s, NumThreads s, KeepAlive s, ThinkTime s, duration s, warmupTime s] \<and>
      list_all (\<lambda>(n, b). (SetHeaders s AND b \<noteq> 0) \<longleftrightarrow>
        list_ex (named n) (Headers s) \<or> n = ''Authorization'' \<and> OAuth_info s \<noteq> None) header_bits)"
proof -
  have "list_all (\<lambda>(c, v). c \<in> set letters) options"
    using getopt_letters [of "[]" argv] assms(2) by (simp add: handled_letters_def)
  from process_options_ok [OF assms(1) default_settings_ok this] show ?thesis
    unfolding settings_ok_def header_bits_ok_def by blast
qed

lemma command_line_settings_witness:
  "process_options absl_reference [(CHR ''H'', ''host: a''), (CHR ''c'', ''x'')] default_settings = Some Header_line \<or>
    (\<exists>s. process_options absl_reference [(CHR ''H'', ''host: a''), (CHR ''c'', ''x'')] default_settings = Some (Parsed s) \<and>
      list_all int32_ok [NumConnections s, NumThreads s, KeepAlive s, ThinkTime s, duration s, warmupTime s] \<and>
      list_all (\<lambda>(n, b). (SetHeaders s AND b \<noteq> 0) \<longleftrightarrow>
        list_ex (named n) (Headers s) \<or> n = ''Authorization'' \<and> OAuth_info s \<noteq> None) header_bits)"
proof (rule command_line_settings [OF absl_reference_ok])
  show "getopt [] [''-H'', ''host: a'', ''u'', ''-cx''] = Some ([(CHR ''H'', ''host: a''), (CHR ''c'', ''x'')], [''u''])"
    by code_simp
qed

text \<open>A mistyped long option reads past the end of the option table. The table that \<^verbatim>\<open>main\<close> gives to
  \<^verbatim>\<open>getopt_long\<close> has no entry of zeros at its end, so after any well-formed options a long option
  that is not spelled out in full in the table is undefined behaviour, where the program means
  to print its usage.\<close>

theorem unknown_long_option_overruns:
  assumes "list_all item_ok items" "n \<noteq> []" "long_option Options (takeWhile (\<lambda>c. c \<noteq> CHR ''='') n) = None"
  shows "main_command Y (concat (map words items) @ (''--'' @ n) # args) G = None"
  using getopt_items [OF assms(1), of "(''--'' @ n) # args"] assms(2,3)
  by (simp add: main_command_def getopt.simps(3) [of "CHR ''-'' # CHR ''-'' # n"] Let_def)

lemma unknown_long_option_overruns_witness:
  "main_command example_system [''-c'', ''4'', ''--verbos'', ''http://h/''] no_urls = None"
proof -
  have "list_all item_ok [Letter_next [] (CHR ''c'') ''4'']"
    "long_option Options (takeWhile (\<lambda>c. c \<noteq> CHR ''='') ''verbos'') = None" by code_simp+
  from unknown_long_option_overruns [OF this(1) _ this(2), of example_system "[''http://h/'']" no_urls] show ?thesis by simp
qed

end
