(* ===== verification/Messages.thy ===== *)
theory Messages
  imports Command_Line IOThread Addresses Lines
begin

text \<open>
  The texts the program writes for its user: the usage and the versions (\<^verbatim>\<open>apib/apib_main.cc\<close>), what it
  prints of a TLS handshake when it is verbose, and the operations that give an address or a line
  buffer as text. The usage and the table of options are compared.
\<close>

section \<open>Usage and versions\<close>

text \<open>The text line by line, each ended by a line feed.\<close>

definition usage_lines :: "string list" where
  "usage_lines =
     [''-1 --one                Send just one request and exit'',
      ''-c --concurrency        Number of concurrent requests (default 1)'',
      ''-d --duration           Test duration in seconds'',
      ''-f --input-file         File name to send on PUT and POST requests'',
      ''-h --help               Display this message'',
      ''-k --keep-alive         Keep-alive duration:'',
      ''      0 to disable, non-zero for timeout'',
      ''-t --content-type       Value of the Content-Type header'',
      ''-u --username-password  Credentials for HTTP Basic authentication'',
      ''       in username:password format'',
      ''-v --verbose            Verbose output'',
      ''   --version            Version information'',
      ''-w --warmup             Warm-up duration, in seconds (default 0)'',
      ''-x --method             HTTP request method (default GET)'',
      ''-C --cipherlist         Cipher list offered to server for HTTPS'',
      ''-F --certificate        PEM file containing CA certificates to trust'',
      ''-H --header             HTTP header line in Name: Value format'',
      ''-K --iothreads          Number of I/O threads to spawn'',
      ''       default == number of CPU cores'',
      ''-N --name               Name to put in CSV output to identify test run'',
      ''-O --oauth              OAuth 1.0 signature'',
      ''       in format consumerkey:secret:token:secret'',
      ''-S --csv-output         Output all test results in a single CSV line'',
      ''-T --header-line        Do not run, but output a single CSV header line'',
      ''-V --verify             Verify TLS peer'',
      ''-W --think-time         Think time to wait in between requests'',
      ''        in milliseconds'',
      ''-M --monitor            Host name and port number of apibmon'',
      ''-X --monitor2           Second host name and port number of apibmon'',
      [],
      ''The last argument may be an http or https URL, or an \"@\" symbol'',
      ''followed by a file name. If a file name, then apib will read the file'',
      ''as a list of URLs, one per line, and randomly test each one.'',
      [],
      ''  if -S is used then output is CSV-separated on one line:'',
      ''  name,throughput,avg. '' @
       ''latency,threads,connections,duration,completed,successful,errors,sockets,'' @
       ''min. latency,max. latency,50%,90%,98%,99%'',
      [],
      ''  if -O is used then the value is four parameters, separated by a colon:'',
      ''  consumer key:secret:token:secret. You may omit the last two.'']"

definition USAGE_DOCS :: string where
  "USAGE_DOCS = concat (map (\<lambda>l. l @ [LF]) usage_lines)"

definition printUsage :: string where
  "printUsage = ''Usage: apib [options] [URL | @file]'' @ [LF] @ USAGE_DOCS @ [LF]"

definition kApibVersion :: string where "kApibVersion = ''1.2.1''"

definition HTTP_PARSER_VERSION_MAJOR :: int where "HTTP_PARSER_VERSION_MAJOR = 2"
definition HTTP_PARSER_VERSION_MINOR :: int where "HTTP_PARSER_VERSION_MINOR = 9"
definition HTTP_PARSER_VERSION_PATCH :: int where "HTTP_PARSER_VERSION_PATCH = 4"

text \<open>What libev and OpenSSL answer about themselves.\<close>

record library_info =
  ev_version_major :: int
  ev_version_minor :: int
  ev_supported_backends :: int
  ev_recommended_backends :: int
  openssl_version :: string

definition printLibraryInfo :: "absl \<Rightarrow> library_info \<Rightarrow> string" where
  "printLibraryInfo A i =
     ''apib '' @ kApibVersion @ [LF] @
     ''  (git commit $Id: 4d769fe6201ceec2c4d743441488c30a57ed0b29 $)'' @ [LF] @
     ''libev '' @ show_int (ev_version_major i) @ ''.'' @ show_int (ev_version_minor i) @ [LF] @
     ''  Supported backends: '' @ GetEvBackends A (ev_supported_backends i) @ [LF] @
     ''  Recommended backends: '' @ GetEvBackends A (ev_recommended_backends i) @ [LF] @
     ''http_parser '' @ show_int HTTP_PARSER_VERSION_MAJOR @ ''.'' @ show_int HTTP_PARSER_VERSION_MINOR @ ''.'' @
     show_int HTTP_PARSER_VERSION_PATCH @ [LF] @
     openssl_version i @ [LF]"

section \<open>The TLS handshake\<close>

definition SSL_CB_ALERT :: int where "SSL_CB_ALERT = 0x4000"
definition SSL_CB_HANDSHAKE_DONE :: int where "SSL_CB_HANDSHAKE_DONE = 0x20"

record ssl_info =
  state_string_long :: string
  alert_desc_string_long :: "int \<Rightarrow> string"
  cipher_version :: string
  cipher_name :: string
  cipher_bits :: int

definition sslInfoCallback :: "ssl_info \<Rightarrow> int \<Rightarrow> int \<Rightarrow> string" where
  "sslInfoCallback conn_info place ret =
     ''OpenSSL: '' @ state_string_long conn_info @ [LF] @
     (if ret = SSL_CB_ALERT then ''  alert: '' @ alert_desc_string_long conn_info ret @ [LF]
      else if ret = 0 then ''  Error occurred'' @ [LF] else []) @
     (if place AND SSL_CB_HANDSHAKE_DONE \<noteq> 0
      then ''  Protocol: '' @ cipher_version conn_info @ [LF] @
        ''  Cipher: '' @ cipher_name conn_info @ '' ('' @ show_int (cipher_bits conn_info) @ '' bits)'' @ [LF]
      else [])"

section \<open>Addresses and buffers\<close>

text \<open>\<^verbatim>\<open>getnameinfo\<close> is given the address and its length; \<^const>\<open>None\<close> is an error of it.\<close>

definition Address_str :: "(Address \<Rightarrow> nat \<Rightarrow> string option) \<Rightarrow> Address \<Rightarrow> string option" where
  "Address_str getnameinfo a =
     do { n \<leftarrow> length_addr a; Some (case getnameinfo a n of Some name \<Rightarrow> name | None \<Rightarrow> []) }"

definition LineState_debug :: "LineState \<Rightarrow> string option" where
  "LineState_debug s =
     (if 0 \<le> bufLen s \<and> bufLen s \<le> int (length (buf s)) then
        Some (''buf len = '' @ show_int (bufLen s) @ '' line start = '' @ show_int (lineStart s) @
          '' end = '' @ show_int (lineEnd s) @ '' tok start = '' @ show_int (tokStart s) @
          '' tok end = '' @ show_int (tokEnd s) @ [LF] @ take (nat (bufLen s)) (buf s) @ [LF])
      else None)"

lemma LineState_debug_safe: "wf_line s \<Longrightarrow> LineState_debug s \<noteq> None"
  by (auto simp: wf_line_def LineState_debug_def)

text \<open>\<open>c_line\<close> is a pointer into the buffer, read as a C string.\<close>

definition c_line :: "LineState \<Rightarrow> string option" where
  "c_line s = (if \<not> lineComplete s then Some [] else c_string_at (buf s) (lineStart s))"

text \<open>After any safe calls both forms of the current line are there and are the same.\<close>

lemma c_line_is_line: "line_inv s \<Longrightarrow> c_line s \<noteq> None \<and> c_line s = line s"
  by (erule line_defined) (simp add: c_line_def line_def)

section \<open>The usage and the options\<close>

text \<open>A line of the usage that documents an option starts with its letter, or with spaces in place of
  one, and its name.\<close>

fun usage_entry :: "string \<Rightarrow> (char option \<times> string) option" where
  "usage_entry (a # b # c # d # e # rest) =
     (if c = CHR '' '' \<and> d = CHR ''-'' \<and> e = CHR ''-'' then
        let name = takeWhile (\<lambda>x. x \<noteq> CHR '' '') rest in
        if a = CHR ''-'' then Some (Some b, name) else if a = CHR '' '' \<and> b = CHR '' '' then Some (None, name) else None
      else None)"
| "usage_entry _ = None"

definition documented_options :: "(char option \<times> string) list" where
  "documented_options = List.map_filter usage_entry (split_at LF USAGE_DOCS)"

lemma split_at_lines:
  "list_all (\<lambda>l. list_all (\<lambda>c. c \<noteq> LF) l) ls \<Longrightarrow> split_at LF (concat (map (\<lambda>l. l @ [LF]) ls)) = ls @ [[]]"
proof (induction ls)
  case (Cons l ls)
  have "list_all (\<lambda>c. c \<noteq> LF) l \<Longrightarrow> split_at LF (l @ LF # r) = l # split_at LF r" for r
    by (induction l) simp_all
  with Cons show ?case by simp
qed simp

lemma usage_split: "split_at LF USAGE_DOCS = usage_lines @ [[]]"
proof -
  have "list_all (\<lambda>l. list_all (\<lambda>c. c \<noteq> LF) l) usage_lines" by code_simp
  then show ?thesis unfolding USAGE_DOCS_def by (rule split_at_lines)
qed

text \<open>The usage documents the options of the table, each once, and no others; only the letter of
  \<^verbatim>\<open>--version\<close> is kept secret.\<close>

lemma usage_documents_options:
  "distinct documented_options \<and>
    set documented_options = set (map (\<lambda>(n, k, c). (if n = ''version'' then None else Some c, n)) Options)"
proof -
  let ?spec = "map (\<lambda>(n, k, c). (if n = ''version'' then None else Some c, n)) Options"
  have "distinct (List.map_filter usage_entry (usage_lines @ [[]]))"
    "list_all (\<lambda>e. e \<in> set ?spec) (List.map_filter usage_entry (usage_lines @ [[]]))"
    "list_all (\<lambda>e. e \<in> set (List.map_filter usage_entry (usage_lines @ [[]]))) ?spec"
    by code_simp+
  then show ?thesis unfolding documented_options_def usage_split list_all_iff by blast
qed

text \<open>The columns of the CSV line that the usage names.\<close>

definition usage_columns :: "string list" where
  "usage_columns = concat (map (\<lambda>l. if take 7 l = ''  name,'' then split_at (CHR '','') l else []) (split_at LF USAGE_DOCS))"

lemma usage_columns_16: "length usage_columns = 16"
  unfolding usage_columns_def usage_split by code_simp

section \<open>Alerts\<close>

text \<open>OpenSSL reports an alert with \<open>SSL_CB_ALERT\<close> in the place and the alert's level (1 or 2) and
  description in two bytes of the value. The callback compares the value and never prints an alert.\<close>

lemma alert_not_printed:
  assumes "level \<in> {1, 2}" "0 \<le> desc" "desc < 256" "place AND SSL_CB_HANDSHAKE_DONE = 0"
  shows "sslInfoCallback conn_info place (256 * level + desc) = ''OpenSSL: '' @ state_string_long conn_info @ [LF]"
  using assms by (auto simp: sslInfoCallback_def SSL_CB_ALERT_def)

end
