(* ===== verification/Apib_Rand.thy ===== *)
theory Apib_Rand
  imports Prelude
begin

text \<open>
  \<^verbatim>\<open>apib/apib_rand.{h,cc}\<close>: the random numbers. The engine is \<^verbatim>\<open>std::minstd_rand\<close>, whose sequence the
  C++ standard fixes; how \<^verbatim>\<open>std::uniform_int_distribution\<close> maps it to a range is left to the library,
  so the distribution is an argument, with what the standard promises of it: a number of the range,
  and an engine that has made some number of steps.
\<close>

section \<open>The generator\<close>

definition minstd_modulus :: nat where "minstd_modulus = 2147483647"

definition minstd_seed :: "nat \<Rightarrow> nat" where
  "minstd_seed s = (if s mod minstd_modulus = 0 then 1 else s mod minstd_modulus)"

definition minstd_step :: "nat \<Rightarrow> nat" where
  "minstd_step x = 48271 * x mod minstd_modulus"

type_synonym distribution = "int \<Rightarrow> int \<Rightarrow> nat \<Rightarrow> int \<times> nat"

text \<open>\<^verbatim>\<open>std::random_device\<close> gives the seed.\<close>

definition RandomGenerator_new :: "nat \<Rightarrow> nat" where
  "RandomGenerator_new device = minstd_seed device"

definition RandomGenerator_get :: "distribution \<Rightarrow> int \<Rightarrow> int \<Rightarrow> nat \<Rightarrow> int \<times> nat" where
  "RandomGenerator_get D lo hi engine = D lo hi engine"

definition RandomGenerator_get_any :: "distribution \<Rightarrow> nat \<Rightarrow> int \<times> nat" where
  "RandomGenerator_get_any D engine = D 0 (2 ^ 31 - 1) engine"

section \<open>Its draws\<close>

definition engine_ok :: "nat \<Rightarrow> bool" where
  "engine_ok e \<longleftrightarrow> 0 < e \<and> e < minstd_modulus"

text \<open>The contract between the generator and the operations that draw from it.\<close>

locale random_draws =
  fixes draw :: "int \<Rightarrow> int \<Rightarrow> 'e \<Rightarrow> int \<times> 'e" and valid :: "'e \<Rightarrow> bool"
  assumes draw_range: "valid e \<Longrightarrow> lo \<le> hi \<Longrightarrow> lo \<le> fst (draw lo hi e) \<and> fst (draw lo hi e) \<le> hi"
    and draw_valid: "valid e \<Longrightarrow> lo \<le> hi \<Longrightarrow> valid (snd (draw lo hi e))"
begin

text \<open>A sequence of draws, each from its own range.\<close>

fun draws :: "(int \<times> int) list \<Rightarrow> 'e \<Rightarrow> int list" where
  "draws [] e = []"
| "draws ((lo, hi) # rs) e = fst (draw lo hi e) # draws rs (snd (draw lo hi e))"

lemma draws_in_range:
  "valid e \<Longrightarrow> list_all (\<lambda>(lo, hi). lo \<le> hi) rs \<Longrightarrow> list_all2 (\<lambda>(lo, hi) v. lo \<le> v \<and> v \<le> hi) rs (draws rs e)"
  by (induction rs e rule: draws.induct) (simp_all add: draw_range draw_valid)

end

definition uniform_ok :: "distribution \<Rightarrow> bool" where
  "uniform_ok D \<longleftrightarrow>
     (\<forall>lo hi e. lo \<le> hi \<longrightarrow> lo \<le> fst (D lo hi e) \<and> fst (D lo hi e) \<le> hi \<and> (\<exists>k. snd (D lo hi e) = (minstd_step ^^ k) e))"

lemma engine_seeded: "engine_ok (RandomGenerator_new device)"
  by (simp add: engine_ok_def RandomGenerator_new_def minstd_seed_def minstd_modulus_def)

text \<open>The engine never reaches 0, where it would stay: the multiplier and the modulus are coprime.\<close>

lemma engine_step: "engine_ok e \<Longrightarrow> engine_ok (minstd_step e)"
proof -
  assume e: "engine_ok e"
  have c: "coprime minstd_modulus 48271"
    by (simp add: minstd_modulus_def coprime_iff_gcd_eq_1 gcd_non_0_nat)
  have "\<not> minstd_modulus dvd 48271 * e"
  proof
    assume "minstd_modulus dvd 48271 * e"
    then have "minstd_modulus dvd e" using c by (simp add: coprime_dvd_mult_right_iff)
    with e show False by (auto simp: engine_ok_def dest: dvd_imp_le)
  qed
  then show ?thesis by (simp add: engine_ok_def minstd_step_def mod_greater_zero_iff_not_dvd minstd_modulus_def)
qed

lemma engine_steps: "engine_ok e \<Longrightarrow> engine_ok ((minstd_step ^^ k) e)"
  by (induction k) (simp_all add: engine_step)

text \<open>The generator keeps the contract, for every distribution that keeps the standard's promises.\<close>

interpretation rg: random_draws "RandomGenerator_get D" "\<lambda>e. uniform_ok D \<and> engine_ok e" for D
proof unfold_locales
  show "uniform_ok D \<and> engine_ok e \<Longrightarrow> lo \<le> hi \<Longrightarrow>
      lo \<le> fst (RandomGenerator_get D lo hi e) \<and> fst (RandomGenerator_get D lo hi e) \<le> hi" for D e lo hi
    by (simp add: uniform_ok_def RandomGenerator_get_def)
  show "uniform_ok D \<and> engine_ok (snd (RandomGenerator_get D lo hi e))"
    if u: "uniform_ok D \<and> engine_ok e" "lo \<le> hi" for D e lo hi
  proof -
    obtain k where "snd (D lo hi e) = (minstd_step ^^ k) e" using u unfolding uniform_ok_def by blast
    with u show ?thesis by (simp add: RandomGenerator_get_def engine_steps)
  qed
qed

text \<open>So the draws of a new generator lie in their ranges, whatever device seeded it.\<close>

lemma generator_draws:
  "uniform_ok D \<Longrightarrow> list_all (\<lambda>(lo, hi). lo \<le> hi) rs \<Longrightarrow>
     list_all2 (\<lambda>(lo, hi) v. lo \<le> v \<and> v \<le> hi) rs (random_draws.draws (RandomGenerator_get D) rs (RandomGenerator_new device))"
  by (rule rg.draws_in_range) (simp_all add: engine_seeded)

end
