(* ===== verification/Reporting_Facts.thy ===== *)
theory Reporting_Facts
  imports Reporting
begin

text \<open>
  What the reports promise: between \<open>RecordStart\<close> and \<open>RecordStop\<close> every result of every thread
  is counted exactly once, whatever intervals are reported meanwhile, and the statistics are
  those of the latencies recorded.
\<close>

section \<open>Totality and frame\<close>

text \<open>The outside world keeps to the monitoring protocol: a reply ends with a newline and fits the
  64 bytes the reader asks for; a lookup that succeeds has a result.\<close>

definition world_ok :: "world \<Rightarrow> bool" where
  "world_ok W \<longleftrightarrow>
     (\<forall>k. (case monitor_read W k of None \<Rightarrow> True | Some bs \<Rightarrow> newline_ended bs \<and> length bs \<le> 64) \<and>
          length (stack_buf W k) = 64 \<and> 0 < monitor_socket W k \<and> (\<forall>h. monitor_lookup W k h \<noteq> Resolved []))"

text \<open>The part of the state that sampling leaves alone.\<close>

definition totals :: "Reporter \<Rightarrow> Tallies \<times> int \<times> int \<times> int \<times> int \<times> Counters list" where
  "totals g = (tallies g, successful g, unsuccessful g, totalBytesSent g, totalBytesReceived g, accumulatedResults g)"

lemma totals_simps [simp]:
  "totals (tick g) = totals g" "totals (log_fd as g) = totals g"
  "totals (g\<lparr>remoteCpuSocket := a\<rparr>) = totals g" "totals (g\<lparr>remote2CpuSocket := a\<rparr>) = totals g"
  "totals (g\<lparr>remoteSamples := s\<rparr>) = totals g" "totals (g\<lparr>remote2Samples := s\<rparr>) = totals g"
  "totals (g\<lparr>clientSamples := s\<rparr>) = totals g" "totals (g\<lparr>cpuUsage := u\<rparr>) = totals g"
  "totals (g\<lparr>clientMem := d\<rparr>) = totals g" "totals (g\<lparr>remoteMem := d\<rparr>) = totals g"
  "totals (g\<lparr>remote2Mem := d\<rparr>) = totals g" "totals (g\<lparr>startTime := t\<rparr>) = totals g"
  "totals (g\<lparr>intervalStartTime := t\<rparr>) = totals g" "totals (g\<lparr>stopTime := t\<rparr>) = totals g"
  by (simp_all add: totals_def tick_def log_fd_def)

lemma getRemoteStat_total:
  assumes "world_ok W"
  obtains d fd' g' where "getRemoteStat W cmd fd g = Some (d, fd', g')" "totals g' = totals g"
proof (cases "monitor_write W (calls g) = int (length cmd) \<and> monitor_read W (calls g) \<noteq> None")
  case True
  then obtain bs where bs: "monitor_read W (calls g) = Some bs" by auto
  have "newline_ended bs" using assms bs by (auto simp: world_ok_def split: option.splits dest: spec [of _ "calls g"])
  then obtain d where "strtod (store_at (stack_buf W (calls g)) 0 bs) = Some d"
    using strtod_LF by (auto simp: store_at_def)
  with True bs that show ?thesis by (simp add: getRemoteStat_def Let_def)
next
  case False
  then have "getRemoteStat W cmd fd g = Some (Fin 0, 0, log_fd [Closed fd] (log_fd [Sent fd cmd] (tick g)))"
    by (auto simp: getRemoteStat_def Let_def split: option.split)
  with that show ?thesis by simp
qed

lemma connectMonitor_total:
  assumes "world_ok W"
  obtains fd' g' where "connectMonitor W hn fd g = Some (fd', g')" "totals g' = totals g"
proof -
  have "0 < monitor_socket W (calls g)" "monitor_lookup W (calls g) h \<noteq> Resolved []" for h
    using assms by (auto simp: world_ok_def)
  then have "\<exists>fd' g'. connectMonitor W hn fd g = Some (fd', g') \<and> totals g' = totals g"
    by (auto simp: connectMonitor_def Let_def split: option.split lookup_answer.split list.split)
  with that show ?thesis by blast
qed

lemma start_monitor_total:
  assumes "world_ok W"
  obtains fd' g' where "start_monitor W host fd g = Some (fd', g')" "totals g' = totals g"
proof -
  obtain fd1 g1 where "connectMonitor W host fd g = Some (fd1, g1)" "totals g1 = totals g"
    by (rule connectMonitor_total [OF assms])
  moreover obtain d fd2 g2 where "getRemoteStat W kCPUCmd fd g = Some (d, fd2, g2)" "totals g2 = totals g"
    by (rule getRemoteStat_total [OF assms])
  ultimately show ?thesis
    using that by (cases "host = []"; cases "fd = 0") (auto simp: start_monitor_def)
qed

lemma sample_remote_total:
  assumes "world_ok W"
  obtains d g' where "sample_remote W g = Some (d, g')" "totals g' = totals g"
proof -
  obtain d fd' g' where "getRemoteStat W kCPUCmd (remoteCpuSocket g) g = Some (d, fd', g')" "totals g' = totals g"
    by (rule getRemoteStat_total [OF assms])
  with that show ?thesis by (cases "remoteCpuSocket g = 0") (auto simp: sample_remote_def)
qed

lemma sample_remote2_total:
  assumes "world_ok W"
  obtains d g' where "sample_remote2 W g = Some (d, g')" "totals g' = totals g"
proof -
  obtain d fd' g' where "getRemoteStat W kCPUCmd (remote2CpuSocket g) g = Some (d, fd', g')" "totals g' = totals g"
    by (rule getRemoteStat_total [OF assms])
  with that show ?thesis by (cases "remote2CpuSocket g = 0") (auto simp: sample_remote2_def)
qed

lemma sample_client_total:
  obtains d g' where "sample_client W g = Some (d, g')" "totals g' = totals g"
proof -
  let ?k = "calls g"
  obtain d u where "cpu_GetInterval (strings W) (heap_block W ?k) (proc_stat W ?k) (at_time W ?k) (stack_usage W ?k) (cpuUsage g) = Some (d, u)"
    using cpu_GetInterval_total by blast
  with that show ?thesis by (auto simp: sample_client_def Let_def)
qed

lemma SampleCPU_total:
  assumes "world_ok W"
  obtains g' where "SampleCPU W g = Some g'" "totals g' = totals g"
proof -
  obtain d1 g1 where 1: "sample_remote W g = Some (d1, g1)" "totals g1 = totals g"
    by (rule sample_remote_total [OF assms])
  obtain d2 g2 where 2: "sample_remote2 W g1 = Some (d2, g2)" "totals g2 = totals g1"
    by (rule sample_remote2_total [OF assms])
  obtain d3 g3 where 3: "sample_client W g2 = Some (d3, g3)" "totals g3 = totals g2"
    by (rule sample_client_total)
  from 1 2 3 that [of g3] show ?thesis by (simp add: SampleCPU_def)
qed

lemma collect_eq:
  "collect ts g =
     (sum_list (map successfulRequests ts), sum_list (map failedRequests ts),
      g\<lparr>totalBytesReceived := totalBytesReceived g + sum_list (map bytesRead ts),
        totalBytesSent := totalBytesSent g + sum_list (map bytesWritten ts),
        accumulatedResults := accumulatedResults g @ ts\<rparr>,
      map (\<lambda>_. new_Counters) ts)"
  by (induction ts arbitrary: g) (simp_all add: exchangeCounters_def Let_def)

section \<open>Accounting\<close>

text \<open>What happens during a run, in any order: the I/O threads count results and bytes in their own
  counters, connections are tallied, and the main thread samples or reports an interval. Taking
  one thread's counters is one atomic exchange, which commutes with the other threads' updates,
  so that reporting an interval is one event.\<close>

datatype report_event =
    Finished nat int int | BytesRead nat nat | BytesWritten nat nat
  | SocketFailed | ConnectionMade | Interval int bool | Sampled

fun report_step :: "world \<Rightarrow> report_event \<Rightarrow> Reporter \<times> Counters list \<Rightarrow> (Reporter \<times> Counters list) option" where
  "report_step W (Finished i status latency) (g, ts) = Some (g, ts[i := recordResult status latency (ts ! i)])"
| "report_step W (BytesRead i n) (g, ts) = Some (g, ts[i := recordRead n (ts ! i)])"
| "report_step W (BytesWritten i n) (g, ts) = Some (g, ts[i := recordWrite n (ts ! i)])"
| "report_step W SocketFailed (g, ts) = Some (g\<lparr>tallies := RecordSocketError (tallies g)\<rparr>, ts)"
| "report_step W ConnectionMade (g, ts) = Some (g\<lparr>tallies := RecordConnectionOpen (tallies g)\<rparr>, ts)"
| "report_step W (Interval d w) (g, ts) = map_option snd (ReportInterval W d w (g, ts))"
| "report_step W Sampled (g, ts) = map_option (\<lambda>h. (h, ts)) (SampleCPU W g)"

fun report_run :: "world \<Rightarrow> report_event list \<Rightarrow> Reporter \<times> Counters list \<Rightarrow> (Reporter \<times> Counters list) option" where
  "report_run W [] st = Some st"
| "report_run W (e # es) st = do { st' \<leftarrow> report_step W e st; report_run W es st' }"

fun event_ok :: "nat \<Rightarrow> report_event \<Rightarrow> bool" where
  "event_ok n (Finished i s l) \<longleftrightarrow> i < n"
| "event_ok n (BytesRead i b) \<longleftrightarrow> i < n"
| "event_ok n (BytesWritten i b) \<longleftrightarrow> i < n"
| "event_ok n _ \<longleftrightarrow> True"

text \<open>What the events say should be counted.\<close>

record account =
  good :: int
  bad :: int
  received :: int
  sent :: int
  failures :: int
  opened :: int
  times :: "int multiset"

definition no_account :: account where
  "no_account = \<lparr>good = 0, bad = 0, received = 0, sent = 0, failures = 0, opened = 0, times = {#}\<rparr>"

fun book :: "report_event \<Rightarrow> account \<Rightarrow> account" where
  "book (Finished i s l) a =
     (if 200 \<le> s \<and> s < 300 then a\<lparr>good := good a + 1, times := add_mset l (times a)\<rparr>
      else a\<lparr>bad := bad a + 1, times := add_mset l (times a)\<rparr>)"
| "book (BytesRead i n) a = a\<lparr>received := received a + int n\<rparr>"
| "book (BytesWritten i n) a = a\<lparr>sent := sent a + int n\<rparr>"
| "book SocketFailed a = a\<lparr>failures := failures a + 1\<rparr>"
| "book ConnectionMade a = a\<lparr>opened := opened a + 1\<rparr>"
| "book (Interval d w) a = a"
| "book Sampled a = a"

definition booked :: "report_event list \<Rightarrow> account" where
  "booked es = fold book es no_account"

text \<open>What the reporter and the threads have counted so far.\<close>

definition counted :: "Reporter \<times> Counters list \<Rightarrow> account" where
  "counted st = (case st of (g, ts) \<Rightarrow>
     \<lparr>good = successful g + sum_list (map successfulRequests ts),
      bad = unsuccessful g + sum_list (map failedRequests ts),
      received = totalBytesReceived g + sum_list (map bytesRead ts),
      sent = totalBytesSent g + sum_list (map bytesWritten ts),
      failures = socketErrors (tallies g), opened = connectionsOpened (tallies g),
      times = mset (concat (map latencies (accumulatedResults g @ ts)))\<rparr>)"

lemma counted_totals: "totals h = totals g \<Longrightarrow> counted (h, ts) = counted (g, ts)"
  by (simp add: totals_def counted_def)

lemma sum_list_update:
  "i < length ts \<Longrightarrow> sum_list (map f (ts[i := c])) = sum_list (map f ts) + (f c - f (ts ! i))" for f :: "'a \<Rightarrow> int"
  by (induction ts arbitrary: i) (auto split: nat.split)

lemma mset_update:
  "i < length ts \<Longrightarrow> f c = f (ts ! i) @ ls \<Longrightarrow>
     mset (concat (map f (ts[i := c]))) = mset (concat (map f ts)) + mset ls"
  by (induction ts arbitrary: i) (auto split: nat.split)

lemma recordResult_fields:
  "successfulRequests (recordResult s l c) = successfulRequests c + (if 200 \<le> s \<and> s < 300 then 1 else 0)"
  "failedRequests (recordResult s l c) = failedRequests c + (if 200 \<le> s \<and> s < 300 then 0 else 1)"
  "successfulRequests (recordRead n c) = successfulRequests c" "failedRequests (recordRead n c) = failedRequests c"
  "successfulRequests (recordWrite n c) = successfulRequests c" "failedRequests (recordWrite n c) = failedRequests c"
  by (simp_all add: recordResult_def recordRead_def recordWrite_def Let_def)

lemma mset_same:
  "i < length ts \<Longrightarrow> f c = f (ts ! i) \<Longrightarrow> map f (ts[i := c]) = map f ts"
  by (simp add: list_eq_iff_nth_eq nth_list_update)

lemma counted_result:
  "i < length ts \<Longrightarrow> counted (g, ts[i := recordResult s l (ts ! i)]) = book (Finished i s l) (counted (g, ts))"
  using mset_update [of i ts latencies "recordResult s l (ts ! i)" "[l]"]
  by (simp add: counted_def sum_list_update recordResult_fields)

lemma counted_bytes:
  assumes "i < length ts"
  shows "counted (g, ts[i := recordRead n (ts ! i)]) = book (BytesRead i n) (counted (g, ts))"
    "counted (g, ts[i := recordWrite n (ts ! i)]) = book (BytesWritten i n) (counted (g, ts))"
  using assms mset_same [of i ts latencies "recordRead n (ts ! i)"] mset_same [of i ts latencies "recordWrite n (ts ! i)"]
  by (simp_all add: counted_def sum_list_update recordResult_fields)

lemma ReportInterval_counted:
  assumes "world_ok W"
  obtains out g' ts' where "ReportInterval W d w (g, ts) = Some (out, g', ts')"
    "counted (g', ts') = counted (g, ts)" "length ts' = length ts" "reporting (tallies g') = reporting (tallies g)"
proof -
  obtain d1 g1 where 1: "sample_remote W g = Some (d1, g1)" "totals g1 = totals g"
    by (rule sample_remote_total [OF assms])
  obtain d2 g2 where 2: "sample_remote2 W g1 = Some (d2, g2)" "totals g2 = totals g1"
    by (rule sample_remote2_total [OF assms])
  obtain d3 g3 where 3: "sample_client W g2 = Some (d3, g3)" "totals g3 = totals g2"
    by (rule sample_client_total)
  have t: "totals g3 = totals g" using 1 2 3 by simp
  let ?g = "snd (now W g3)"
  let ?h = "?g\<lparr>totalBytesReceived := totalBytesReceived ?g + sum_list (map bytesRead ts),
        totalBytesSent := totalBytesSent ?g + sum_list (map bytesWritten ts),
        accumulatedResults := accumulatedResults ?g @ ts,
        successful := successful ?g + sum_list (map successfulRequests ts),
        unsuccessful := unsuccessful ?g + sum_list (map failedRequests ts),
        intervalStartTime := at_time W (calls g3)\<rparr>"
  have "totals ?g = totals g" using t by (simp add: now_def)
  then have c: "counted (?h, map (\<lambda>_. new_Counters) ts) = counted (g, ts)"
    "reporting (tallies ?h) = reporting (tallies g)"
    by (simp_all add: counted_def totals_def o_def)
  have "\<exists>out. ReportInterval W d w (g, ts) = Some (out, ?h, map (\<lambda>_. new_Counters) ts)"
    using 1 2 3 by (simp add: ReportInterval_def ReportIntervalResults_def collect_eq now_def Let_def)
  with c that show ?thesis by fastforce
qed

lemma report_step_counted:
  assumes "world_ok W" "event_ok (length ts) e" "reporting (tallies g)"
  obtains g' ts' where "report_step W e (g, ts) = Some (g', ts')" "counted (g', ts') = book e (counted (g, ts))"
    "length ts' = length ts" "reporting (tallies g')"
proof (cases e)
  case (Interval d w)
  obtain out g' ts' where "ReportInterval W d w (g, ts) = Some (out, g', ts')"
    "counted (g', ts') = counted (g, ts)" "length ts' = length ts" "reporting (tallies g') = reporting (tallies g)"
    by (rule ReportInterval_counted [OF assms(1)])
  with Interval assms(3) that show ?thesis by simp
next
  case Sampled
  obtain g' where "SampleCPU W g = Some g'" "totals g' = totals g" by (rule SampleCPU_total [OF assms(1)])
  with Sampled assms(3) that [of g' ts] counted_totals [of g' g ts] show ?thesis by (simp add: totals_def)
qed (use assms that counted_result counted_bytes in
      \<open>auto simp: counted_def RecordSocketError_def RecordConnectionOpen_def\<close>)

lemma report_run_counted:
  assumes "world_ok W"
  shows "list_all (event_ok (length ts)) es \<Longrightarrow> reporting (tallies g) \<Longrightarrow>
    \<exists>g' ts'. report_run W es (g, ts) = Some (g', ts') \<and> counted (g', ts') = fold book es (counted (g, ts)) \<and>
      length ts' = length ts"
proof (induction es arbitrary: g ts)
  case (Cons e es)
  obtain g1 ts1 where 1: "report_step W e (g, ts) = Some (g1, ts1)"
    "counted (g1, ts1) = book e (counted (g, ts))" "length ts1 = length ts" "reporting (tallies g1)"
    by (rule report_step_counted [OF assms, of ts e g]) (use Cons.prems in auto)
  with Cons.IH [of ts1 g1] Cons.prems show ?case by simp
qed simp

lemma RecordStart_counted:
  assumes "world_ok W"
  obtains g' where "RecordStart W b (g, ts) = Some (g', map (\<lambda>_. new_Counters) ts)"
    "counted (g', map (\<lambda>_. new_Counters) ts) = no_account" "reporting (tallies g') = b"
proof -
  let ?g = "reset_totals b g"
  let ?k = "calls ?g"
  obtain u where u: "cpu_GetUsage (strings W) (heap_block W ?k) (proc_stat W ?k) (at_time W ?k) (cpuUsage ?g) = Some u"
    using cpu_GetUsage_total by blast
  let ?g2 = "tick (?g\<lparr>cpuUsage := u\<rparr>)"
  obtain fd g3 where 3: "start_monitor W (remoteMonitorHost ?g2) (remoteCpuSocket ?g2) ?g2 = Some (fd, g3)" "totals g3 = totals ?g2"
    by (rule start_monitor_total [OF assms])
  let ?g4 = "g3\<lparr>remoteCpuSocket := fd\<rparr>"
  obtain fd2 g5 where 5: "start_monitor W (remote2MonitorHost ?g4) (remote2CpuSocket ?g4) ?g4 = Some (fd2, g5)" "totals g5 = totals ?g4"
    by (rule start_monitor_total [OF assms])
  let ?t = "at_time W (calls (g5\<lparr>remote2CpuSocket := fd2\<rparr>))"
  let ?g' = "(tick (g5\<lparr>remote2CpuSocket := fd2\<rparr>))\<lparr>startTime := ?t, intervalStartTime := ?t,
      clientSamples := [], remoteSamples := [], remote2Samples := []\<rparr>"
  have r: "RecordStart W b (g, ts) = Some (?g', map (\<lambda>_. new_Counters) ts)"
    using u 3(1) 5(1) by (simp add: RecordStart_def Let_def now_def exchangeCounters_def)
  have "totals ?g' = totals ?g" using 3(2) 5(2) by simp
  then have "counted (?g', map (\<lambda>_. new_Counters) ts) = no_account" "reporting (tallies ?g') = b"
    by (simp_all add: totals_def counted_def reset_totals_def no_account_def o_def)
  with r that show ?thesis by blast
qed

lemma stop_remotes_total:
  assumes "world_ok W"
  obtains g1 g2 where "stop_remote W g = Some g1" "stop_remote2 W g1 = Some g2" "totals g2 = totals g"
proof -
  obtain d fd h where h: "getRemoteStat W kMemCmd (remoteCpuSocket g) g = Some (d, fd, h)" "totals h = totals g"
    by (rule getRemoteStat_total [OF assms])
  then obtain g1 where 1: "stop_remote W g = Some g1" "totals g1 = totals g"
    by (cases "remoteCpuSocket g = 0") (simp_all add: stop_remote_def)
  obtain d fd h where h: "getRemoteStat W kMemCmd (remote2CpuSocket g1) g1 = Some (d, fd, h)" "totals h = totals g1"
    by (rule getRemoteStat_total [OF assms])
  then obtain g2 where 2: "stop_remote2 W g1 = Some g2" "totals g2 = totals g1"
    by (cases "remote2CpuSocket g1 = 0") (simp_all add: stop_remote2_def)
  with 1 that show ?thesis by simp
qed

lemma RecordStop_counted:
  assumes "world_ok W"
  obtains g' where "RecordStop W (g, ts) = Some (g', map (\<lambda>_. new_Counters) ts)"
    "counted (g', []) = counted (g, ts)" "\<not> reporting (tallies g')"
proof -
  obtain g1 where 1: "SampleCPU W g = Some g1" "totals g1 = totals g" by (rule SampleCPU_total [OF assms])
  let ?k = "calls g1"
  obtain m where m: "cpu_GetMemoryUsage (strings W) (heap_block W ?k) (proc_meminfo W ?k) = Some m"
    using cpu_GetMemoryUsage_total by blast
  obtain g3 g4 where 3: "stop_remote W (tick (g1\<lparr>clientMem := m\<rparr>)) = Some g3" "stop_remote2 W g3 = Some g4"
    "totals g4 = totals (tick (g1\<lparr>clientMem := m\<rparr>))" by (rule stop_remotes_total [OF assms])
  have t: "totals g4 = totals g" using 1(2) 3(3) by simp
  let ?g5 = "g4\<lparr>tallies := (tallies g4)\<lparr>reporting := False\<rparr>\<rparr>"
  let ?g6 = "tick (?g5\<lparr>totalBytesReceived := totalBytesReceived ?g5 + sum_list (map bytesRead ts),
        totalBytesSent := totalBytesSent ?g5 + sum_list (map bytesWritten ts),
        accumulatedResults := accumulatedResults ?g5 @ ts,
        successful := successful ?g5 + sum_list (map successfulRequests ts),
        unsuccessful := unsuccessful ?g5 + sum_list (map failedRequests ts)\<rparr>)"
  have "RecordStop W (g, ts) = Some (?g6\<lparr>stopTime := at_time W (calls g4)\<rparr>, map (\<lambda>_. new_Counters) ts)"
    using 1(1) m 3(1,2) by (simp add: RecordStop_def Let_def collect_eq now_def)
  moreover have "counted (?g6\<lparr>stopTime := s\<rparr>, []) = counted (g, ts)" "\<not> reporting (tallies (?g6\<lparr>stopTime := s\<rparr>))" for s
    using t by (simp_all add: counted_def totals_def tick_def)
  ultimately show ?thesis using that by blast
qed

end
