(* ===== verification/Reporting_Results.thy ===== *)
theory Reporting_Results
  imports Reporting_Facts
begin

text \<open>
  The statistics of \<^verbatim>\<open>ReportResults\<close> and the properties of the reports.
\<close>

section \<open>Percentiles\<close>

text \<open>The index of a percentile is computed in floating point, with three roundings; none of them
  can push it past the end of the list.\<close>

definition percent_index :: "nat \<Rightarrow> int \<Rightarrow> nat option" where
  "percent_index n p = d_to_uint64 (dmul (ddiv (d_of_int (int n)) (Fin 100)) (d_of_int p))"

lemma rnd_up: "2 powi (- 1022) \<le> x \<Longrightarrow> rnd x \<le> x * (1001 / 1000)"
proof -
  assume x: "2 powi (- 1022) \<le> x"
  then have "0 \<le> x" using zero_le_power_int [of "2::rat" "- 1022"] by linarith
  moreover have "(2::rat) powi (- 53) \<le> 1 / 1000" by (simp add: power_int_def power_one_over)
  ultimately have "x * 2 powi (- 53) \<le> x * (1 / 1000)" by (intro mult_left_mono)
  with rnd_error [OF x] have "\<bar>rnd x - x\<bar> \<le> x * (1 / 1000)" by (rule order.trans)
  then have "rnd x - x \<le> x * (1 / 1000)" by (simp only: abs_le_iff)
  then show ?thesis by (simp add: algebra_simps)
qed

lemma small_powi: "(2::rat) powi (- 1022) \<le> 1 / 200"
proof -
  have "(2::rat) powi (- 1022) \<le> 2 powi (- 8)" by (intro power_int_increasing) auto
  also have "(2::rat) powi (- 8) \<le> 1 / 200" by (simp add: power_int_def power_one_over)
  finally show ?thesis .
qed

text \<open>Two roundings of a product with a percentage below 100 do not reach the whole.\<close>

lemma percent_bounds:
  fixes n p :: rat
  assumes "1 \<le> n" "0 \<le> p" "p \<le> 99"
  shows "0 \<le> rnd (rnd n / 100)" "rnd (rnd n / 100) * p < n"
    "0 \<le> rnd (rnd (rnd n / 100) * p)" "rnd (rnd (rnd n / 100) * p) < n"
proof -
  let ?q = "rnd (rnd n / 100)"
  have a1: "1 \<le> rnd n" using rnd_mono [of 1 n] assms(1) by simp
  have small: "2 powi (- 1022) \<le> x" if "1 / 200 \<le> x" for x :: rat using small_powi that by linarith
  have a2: "rnd n \<le> n * (1001 / 1000)" using assms(1) by (intro rnd_up small) simp
  have q2: "?q \<le> rnd n / 100 * (1001 / 1000)" using a1 by (intro rnd_up small) simp
  show q0: "0 \<le> ?q" using a1 by (simp add: rnd_nonneg)
  have qp: "?q * p \<le> n * (1001 / 1000) / 100 * (1001 / 1000) * 99"
  proof (rule mult_mono)
    show "?q \<le> n * (1001 / 1000) / 100 * (1001 / 1000)" using q2 a2 by simp
  qed (use assms in auto)
  then show "?q * p < n" using assms(1) by simp
  show "0 \<le> rnd (?q * p)" using q0 assms(2) by (simp add: rnd_nonneg)
  show "rnd (?q * p) < n"
  proof (cases "2 powi (- 1022) \<le> ?q * p")
    case True
    have "rnd (?q * p) \<le> ?q * p * (1001 / 1000)" by (rule rnd_up [OF True])
    also have "\<dots> \<le> n * (1001 / 1000) / 100 * (1001 / 1000) * 99 * (1001 / 1000)"
      using qp by (intro mult_right_mono) auto
    finally show ?thesis using assms(1) by simp
  next
    case False
    then have "?q * p \<le> 1 / 200" using small_powi by linarith
    then have "rnd (?q * p) \<le> rnd (1 / 200)" using q0 assms(2) by (intro rnd_mono) auto
    also have "\<dots> \<le> 1 / 200 * (1001 / 1000)" by (intro rnd_up small) simp
    finally show ?thesis using assms(1) by linarith
  qed
qed

lemma percent_index:
  assumes "0 < n" "int n < 2 ^ 63" "0 \<le> p" "p < 100"
  obtains x where "percent_index n p = Some (nat \<lfloor>x\<rfloor>)" "0 \<le> x" "x < of_nat n"
    "x = rnd (rnd (rnd (of_nat n) / 100) * of_int p)"
proof -
  let ?a = "rnd (of_nat n) :: rat" and ?p = "of_int p :: rat"
  let ?q = "rnd (?a / 100)"
  have n1: "(1::rat) \<le> of_nat n" and p: "0 \<le> ?p" "?p \<le> 99" using assms(1,3,4) by auto
  note b = percent_bounds [OF n1 p]
  have a: "d_of_int (int n) = Fin ?a" "0 \<le> ?a" "?a \<le> 2 ^ 63"
    using d_of_int_Fin [of "int n"] assms(2) by simp_all
  have big: "(2::rat) ^ 70 \<le> 2 powi 1023"
    using power_int_increasing [of 70 1023 "2::rat"] by (simp add: power_int_def)
  have "ddiv (Fin ?a) (Fin 100) = fl (?a / 100)" by simp
  also have "\<dots> = Fin ?q" using a big by (intro fl_Fin) auto
  finally have q: "ddiv (d_of_int (int n)) (Fin 100) = Fin ?q" using a(1) by simp
  have pI: "d_of_int p = Fin ?p"
    using d_of_int_Fin(1) [of p] rnd_int [of p] assms(3,4) by simp
  have "of_nat n \<le> (2::rat) ^ 63"
    using assms(2) by (metis less_imp_le of_int_le_iff of_int_numeral of_int_of_nat_eq of_int_power)
  then have fin: "?q * ?p \<le> 2 powi 1023" "rnd (?q * ?p) < 2 ^ 64" using b(2,4) big by simp_all
  have "dmul (Fin ?q) (Fin ?p) = Fin (rnd (?q * ?p))"
    using fl_Fin [of "?q * ?p"] b(1) p(1) fin(1) by simp
  then have "percent_index n p = Some (nat \<lfloor>rnd (?q * ?p)\<rfloor>)"
    using q pI b(3) fin(2) by (simp add: percent_index_def)
  with b(3,4) that show ?thesis by blast
qed

lemma percent_index_mono:
  assumes "0 < n" "int n < 2 ^ 63" "0 \<le> p" "p \<le> q" "q < 100" "percent_index n p = Some i" "percent_index n q = Some j"
  shows "i \<le> j" "j < n"
proof -
  let ?c = "rnd (rnd (of_nat n) / 100) :: rat"
  obtain x where x: "percent_index n p = Some (nat \<lfloor>x\<rfloor>)" "x = rnd (?c * of_int p)"
    using percent_index [OF assms(1-3)] assms(4,5) by (metis order_le_less_trans)
  obtain y where y: "percent_index n q = Some (nat \<lfloor>y\<rfloor>)" "y = rnd (?c * of_int q)" "0 \<le> y" "y < of_nat n"
    using percent_index [OF assms(1,2), of q] assms(3-5) by auto
  have "0 \<le> ?c" by (intro rnd_nonneg divide_nonneg_nonneg) auto
  then have "x \<le> y" unfolding x y using assms(3,4) by (intro rnd_mono mult_left_mono mult_nonneg_nonneg) auto
  then show "i \<le> j" using x y assms(6,7) by (simp add: floor_mono nat_mono)
  show "j < n" using y assms(7) by (simp add: nat_less_iff floor_less_iff)
qed

definition percent_pos :: "nat \<Rightarrow> int \<Rightarrow> nat" where
  "percent_pos n p = (if p = 100 then n - 1 else the (percent_index n p))"

lemma percent_pos:
  assumes "0 < n" "int n < 2 ^ 63"
  shows "0 \<le> p \<Longrightarrow> p \<le> 100 \<Longrightarrow> percent_pos n p < n"
    "0 \<le> p \<Longrightarrow> p \<le> q \<Longrightarrow> q \<le> 100 \<Longrightarrow> percent_pos n p \<le> percent_pos n q"
    "percent_pos n 0 = 0" "percent_pos n 100 = n - 1"
proof -
  have some: "\<exists>i. percent_index n p = Some i" if "0 \<le> p" "p < 100" for p
    using percent_index [OF assms that] by blast
  show lt: "percent_pos n p < n" if "0 \<le> p" "p \<le> 100" for p
    using percent_index_mono(2) [OF assms that(1) order.refl] some [of p] that assms(1)
    by (cases "p = 100") (auto simp: percent_pos_def)
  show "percent_pos n p \<le> percent_pos n q" if "0 \<le> p" "p \<le> q" "q \<le> 100"
    using percent_index_mono(1) [OF assms that(1,2)] some [of p] some [of q] lt [of p] that
    by (cases "q = 100"; cases "p = 100") (auto simp: percent_pos_def)
  have "percent_index n 0 = Some 0"
  proof (rule percent_index [OF assms])
    fix x :: rat
    assume "percent_index n 0 = Some (nat \<lfloor>x\<rfloor>)" "x = rnd (rnd (rnd (of_nat n) / 100) * of_int 0)"
    then show "percent_index n 0 = Some 0" by simp
  qed simp_all
  then show "percent_pos n 0 = 0" by (simp add: percent_pos_def)
qed (simp add: percent_pos_def)

lemma getLatencyPercent_pos:
  assumes "ls \<noteq> []" "int (length ls) < 2 ^ 63" "0 \<le> p" "p \<le> 100"
  shows "getLatencyPercent ls p = Some (ls ! percent_pos (length ls) p)"
proof (cases "p = 100")
  case True
  have "nat (int (length ls) - 1) = length ls - 1" by simp
  with True show ?thesis using assms(1) by (simp add: getLatencyPercent_def percent_pos_def rd_def in_bounds_def)
next
  case False
  have "0 < length ls" "p < 100" using assms(1,4) False by auto
  then have "\<exists>k. percent_index (length ls) p = Some k"
    by (rule percent_index [OF _ assms(2,3)]) simp
  then obtain k where "percent_index (length ls) p = Some k" ..
  moreover have "percent_pos (length ls) p < length ls" using percent_pos(1) assms by simp
  ultimately show ?thesis using assms(1) False
    by (simp add: getLatencyPercent_def percent_index_def percent_pos_def rd_Some)
qed

lemma percentiles_map:
  "(\<And>p. p \<in> set ps \<Longrightarrow> getLatencyPercent ls p = Some (f p)) \<Longrightarrow> percentiles ls ps = Some (map (\<lambda>p. Milliseconds (f p)) ps)"
  by (induction ps) auto

section \<open>Average\<close>

lemma foldl_sum: "foldl (+) a xs = a + sum_list xs" for a :: int
  by (induction xs arbitrary: a) simp_all

lemma sum_list_between:
  assumes "\<forall>x \<in> set xs. lo \<le> x \<and> x \<le> (hi::int)"
  shows "int (length xs) * lo \<le> sum_list xs" "sum_list xs \<le> int (length xs) * hi"
  using assms by (induction xs) (auto simp: algebra_simps)

lemma average_between:
  assumes "ls \<noteq> []" "\<forall>x \<in> set ls. lo \<le> x \<and> x \<le> hi" "0 \<le> lo"
  shows "lo \<le> getAverageLatency ls" "getAverageLatency ls \<le> hi"
proof -
  let ?n = "int (length ls)"
  have n: "0 < ?n" using assms(1) by simp
  have s: "?n * lo \<le> sum_list ls" "sum_list ls \<le> ?n * hi" by (rule sum_list_between [OF assms(2)])+
  have "0 \<le> sum_list ls" using s(1) assms(3) n by (meson mult_nonneg_nonneg order.trans less_imp_le)
  then have "getAverageLatency ls = sum_list ls div ?n" using assms(1) n by (simp add: getAverageLatency_def foldl_sum)
  then show "lo \<le> getAverageLatency ls" "getAverageLatency ls \<le> hi"
    using n s zdiv_mono1 [OF s(1) n] zdiv_mono1 [OF s(2) n] by simp_all
qed

lemma Milliseconds_uint64:
  assumes "0 \<le> t" "t < 2 ^ 63"
  obtains k where "d_to_uint64 (Milliseconds t) = Some k"
proof -
  let ?x = "rnd (rnd (of_int t) / 1000000)"
  have m: "Milliseconds t = Fin ?x" "0 \<le> ?x"
    using scaled_Fin [OF assms, of 1000000] by (simp_all add: Milliseconds_def million)
  have r: "0 \<le> rnd (of_int t)" "rnd (of_int t) \<le> (2::rat) ^ 63" using d_of_int_Fin [OF assms] by simp_all
  have "rnd (of_int t) / 1000000 \<le> of_int (2 ^ 53)" using r by simp
  then have "?x \<le> rnd (of_int (2 ^ 53))" using r(1) by (intro rnd_mono) auto
  also have "\<dots> = of_int (2 ^ 53)" by (rule rnd_int) simp_all
  finally have "?x < 2 ^ 64" by simp
  with m that show ?thesis by simp
qed

lemma fl_exact:
  assumes "0 < x" "x = of_int m * 2 powi k" "ulp_exp x \<le> k" "x \<le> 2 powi 1023"
  shows "fl x = Fin x"
  using fl_Fin [of x] rnd_exact [OF assms(1-3)] assms(1,4) by simp

lemma fl_examples:
  "fl (1 / 2) = Fin (1 / 2)" "fl (3 / 2) = Fin (3 / 2)" "fl (1 / 4) = Fin (1 / 4)" "fl 2 = Fin 2" "fl 1 = Fin 1"
proof -
  have u: "ulp_exp (1 / 2 :: rat) \<le> - 2" "ulp_exp (3 / 2 :: rat) \<le> - 1" "ulp_exp (1 / 4 :: rat) \<le> - 2"
    "ulp_exp (2 :: rat) \<le> 0" "ulp_exp (1 :: rat) \<le> 0" by code_simp+
  have "(2::rat) powi 1 \<le> 2 powi 1023" by (intro power_int_increasing) auto
  then have big: "x \<le> 2 powi 1023" if "x \<le> 2" for x :: rat using that by simp
  have q: "(1 / 4 :: rat) = 2 powi (- 2)" "(1 / 2 :: rat) = 2 powi (- 1)" by (simp_all add: power_int_def power2_eq_square)
  show "fl (1 / 2) = Fin (1 / 2)" by (rule fl_exact [where m = 2 and k = "- 2"]) (use u big in \<open>simp_all add: q(1) [symmetric]\<close>)
  show "fl (3 / 2) = Fin (3 / 2)" by (rule fl_exact [where m = 3 and k = "- 1"]) (use u big in \<open>simp_all add: q(2) [symmetric]\<close>)
  show "fl (1 / 4) = Fin (1 / 4)" by (rule fl_exact [where m = 1 and k = "- 2"]) (use u big in \<open>simp_all add: q(1) [symmetric]\<close>)
  show "fl 2 = Fin 2" by (rule fl_exact [where m = 2 and k = 0]) (use u big in simp_all)
  show "fl 1 = Fin 1" by (rule fl_exact [where m = 1 and k = 0]) (use u big in simp_all)
qed

section \<open>The fields of a CSV line\<close>

lemma pad_zeros_plain: "c \<in> set (pad_zeros d s) \<Longrightarrow> c = CHR ''0'' \<or> c \<in> set s"
  by (auto simp: pad_zeros_def)

lemma no_comma:
  "CHR '','' \<notin> set (show_nat n)" "CHR '','' \<notin> set (show_int i)" "CHR '','' \<notin> set (fixed d x)"
proof -
  have digit: "\<not> is_digit (CHR '','')" by (simp add: is_digit_def byte_of_def)
  show s: "CHR '','' \<notin> set (show_nat n)" for n using digit show_nat_is_digit by blast
  show "CHR '','' \<notin> set (show_int i)" using s by (simp add: show_int_def)
  show "CHR '','' \<notin> set (fixed d x)"
    using s by (cases x) (auto simp: fixed_nat_def dest: pad_zeros_plain)
qed

lemma split_at_joined:
  "ps \<noteq> [] \<Longrightarrow> \<forall>p \<in> set ps. c \<notin> set p \<Longrightarrow> split_at c (join_with [c] ps) = ps"
  by (rule split_unique [symmetric]) auto

section \<open>Properties\<close>


definition example_world :: world where
  "example_world =
     \<lparr>strings = absl_reference, at_time = (\<lambda>k. int k * 1000000000), proc_stat = (\<lambda>k. Some (stat_text [k, 0, k, 100] '''')),
      proc_meminfo = (\<lambda>k. None), heap_block = (\<lambda>k. replicate 8192 NUL),
      stack_usage = (\<lambda>k. \<lparr>idle = 0, nonIdle = 0, timestamp = 0\<rparr>), stack_buf = (\<lambda>k. replicate 64 NUL),
      monitor_write = (\<lambda>k. 4), monitor_read = (\<lambda>k. Some (''0.25'' @ [LF])),
      monitor_lookup = (\<lambda>k h. Resolved [(AF_INET, replicate 14 NUL)]),
      monitor_socket = (\<lambda>k. 7), monitor_connect = (\<lambda>k. 0)\<rparr>"

definition example_reporter :: Reporter where
  "example_reporter =
     \<lparr>tallies = \<lparr>reporting = False, socketErrors = 0, connectionsOpened = 2\<rparr>, cpuAvailable = True, successful = 2,
      unsuccessful = 1, startTime = 0, stopTime = 2000000000, intervalStartTime = 0,
      accumulatedResults = [recordResult 404 9000000 (recordResult 200 1500000 new_Counters), recordResult 200 3000000 new_Counters],
      clientSamples = [], remoteSamples = [], remote2Samples = [], clientMem = Fin 0, remoteMem = Fin 0, remote2Mem = Fin 0,
      cpuUsage = \<lparr>idle = 0, nonIdle = 0, timestamp = 0\<rparr>, remoteCpuSocket = 0, remote2CpuSocket = 0,
      remoteMonitorHost = '''', remote2MonitorHost = '''', totalBytesSent = 10, totalBytesReceived = 20, calls = 0, fd_log = []\<rparr>"

lemma example_world_ok: "world_ok example_world"
  by (simp add: world_ok_def example_world_def newline_ended_def isspace_def byte_of_def)


lemma sorted_ends:
  fixes ls :: "'a::linorder list"
  assumes "sorted ls" "ls \<noteq> []"
  shows "ls ! 0 = Min (set ls)" "ls ! (length ls - 1) = Max (set ls)"
proof -
  have "x \<in> set ls \<Longrightarrow> ls ! 0 \<le> x \<and> x \<le> ls ! (length ls - 1)" for x
    using assms(1) by (auto simp: in_set_conv_nth intro!: sorted_nth_mono)
  moreover have "ls ! 0 \<in> set ls" "ls ! (length ls - 1) \<in> set ls" using assms(2) by auto
  ultimately show "ls ! 0 = Min (set ls)" "ls ! (length ls - 1) = Max (set ls)"
    by (auto intro!: Min_eqI [symmetric] Max_eqI [symmetric])
qed

lemma ReportResults_defined:
  assumes "all_latencies g = ls" "ls \<noteq> []" "int (length ls) < 2 ^ 63" "\<forall>l \<in> set ls. 0 \<le> l \<and> l < 2 ^ 63"
  obtains r where "ReportResults M g = Some r"
    "r_latencies r = map (\<lambda>p. Milliseconds (ls ! percent_pos (length ls) p)) [0..100]"
    "r_averageLatency r = Milliseconds (getAverageLatency ls)"
    "r_completedRequests r = to_int32 (successful g + unsuccessful g)"
    "r_successfulRequests r = to_int32 (successful g)" "r_unsuccessfulRequests r = to_int32 (unsuccessful g)"
proof -
  have "percentiles ls [0..100] = Some (map (\<lambda>p. Milliseconds (ls ! percent_pos (length ls) p)) [0..100])"
    using assms(2,3) by (intro percentiles_map getLatencyPercent_pos) auto
  moreover obtain k where "d_to_uint64 (Milliseconds (getAverageLatency ls)) = Some k"
  proof (rule Milliseconds_uint64)
    show "0 \<le> getAverageLatency ls" "getAverageLatency ls < 2 ^ 63"
      using average_between [OF assms(2), of 0 "2 ^ 63 - 1"] assms(4) by force+
  qed
  then have "\<exists>dev. getLatencyStdDev M ls = Some dev" by (simp add: getLatencyStdDev_def assms(2))
  ultimately show ?thesis using that assms(1) by (auto simp: ReportResults_def Let_def)
qed


definition exact_libm :: libm where
  "exact_libm = \<lparr>pow = (\<lambda>x y. dmul x x), sqrt_d = (\<lambda>x. if x = Fin (1 / 4) then Fin (1 / 2) else NaN)\<rparr>"

lemma example_latencies: "all_latencies example_reporter = [1500000, 3000000, 9000000]"
  by (simp add: all_latencies_def example_reporter_def)




text \<open>The standard deviation is taken around an average cut to whole milliseconds: two requests
  of exactly 1.5 ms have the reported deviation 0.5 ms, whatever the mathematical library does
  beyond its exact results.\<close>

theorem std_dev_of_equal_latencies:
  assumes "pow M (Fin (1 / 2)) (Fin 2) = Fin (1 / 4)" "sqrt_d M (Fin (1 / 4)) = Fin (1 / 2)"
  shows "getLatencyStdDev M [1500000, 1500000] = Some (Fin (1 / 2))"
proof -
  note f = fl_examples
  have "rnd (of_int 1500000) = of_int 1500000" by (rule rnd_int) simp_all
  then have "d_of_int 1500000 = Fin 1500000" using d_of_int_Fin(1) [of 1500000] by simp
  then have m: "Milliseconds 1500000 = Fin (3 / 2)" by (simp add: Milliseconds_def million f)
  have a: "getAverageLatency [1500000, 1500000] = 1500000" by (simp add: getAverageLatency_def)
  have fl32: "\<lfloor>3 / 2 :: rat\<rfloor> = 1" by (simp add: floor_unique)
  have i: "d_of_int 1 = Fin 1" "d_of_int 2 = Fin 2" using f by (simp_all add: d_of_int_def)
  have z: "dadd (Fin 0) (Fin (1 / 4)) = Fin (1 / 4)" using f by simp
  have s: "dsub (Fin (3 / 2)) (Fin 1) = Fin (1 / 2)" using f by (simp add: dsub_def)
  have z2: "dadd (Fin (1 / 4)) (Fin (1 / 4)) = Fin (1 / 2)" "ddiv (Fin (1 / 2)) (Fin 2) = Fin (1 / 4)" using f by simp_all
  show ?thesis
    by (simp add: getLatencyStdDev_def a m fl32 i s z z2 assms del: dadd.simps ddiv.simps)
qed

lemma std_dev_of_equal_latencies_witness: "getLatencyStdDev exact_libm [1500000, 1500000] = Some (Fin (1 / 2))"
  by (rule std_dev_of_equal_latencies) (simp_all add: exact_libm_def fl_examples)

text \<open>A failed connection to a monitor leaves its closed descriptor behind: the descriptor stays
  in the variable that means a connection when it is not 0, so the next sample writes the command
  to that number, which may belong to another connection by then, and when the write fails the
  number is closed a second time.\<close>

theorem failed_monitor_descriptor_reused:
  assumes "find_char (CHR '':'') host = Some i" "SimpleAtoi (strings W) (drop (i + 1) host) = Some port"
    and "monitor_lookup W (calls g) (take i host) = Resolved ((fam, data) # others)"
    and "0 < monitor_socket W (calls g)" "monitor_connect W (calls g) \<noteq> 0"
    and "monitor_write W (calls g + 1) \<noteq> 4"
  shows "\<exists>g1 g2. start_monitor W host 0 g = Some (monitor_socket W (calls g), g1) \<and>
    sample_remote W (g1\<lparr>remoteCpuSocket := monitor_socket W (calls g)\<rparr>) = Some (Fin 0, g2) \<and>
    fd_log g2 = fd_log g @ [Opened (monitor_socket W (calls g)),
      Connected (monitor_socket W (calls g)) fam (store_at data 0 (htons (to_uint16 port))),
      Closed (monitor_socket W (calls g)),
      Sent (monitor_socket W (calls g)) kCPUCmd, Closed (monitor_socket W (calls g))]"
  using assms by (cases "host = []")
    (simp_all add: start_monitor_def connectMonitor_def Let_def sample_remote_def getRemoteStat_def
      log_fd_def tick_def kCPUCmd_def)

lemma decimal_value_80: "decimal_value ''80'' = Some 80"
  by code_simp

lemma failed_monitor_descriptor_reused_witness:
  "\<exists>g1 g2. start_monitor (example_world\<lparr>monitor_connect := \<lambda>k. - 1, monitor_write := \<lambda>k. - 1\<rparr>) ''db:80'' 0 example_reporter = Some (7, g1) \<and>
    sample_remote (example_world\<lparr>monitor_connect := \<lambda>k. - 1, monitor_write := \<lambda>k. - 1\<rparr>) (g1\<lparr>remoteCpuSocket := 7\<rparr>) = Some (Fin 0, g2) \<and>
    fd_log g2 = [Opened 7, Connected 7 AF_INET (store_at (replicate 14 NUL) 0 (htons 80)), Closed 7, Sent 7 kCPUCmd, Closed 7]"
  using failed_monitor_descriptor_reused [of "''db:80''" 2 "example_world\<lparr>monitor_connect := \<lambda>k. - 1, monitor_write := \<lambda>k. - 1\<rparr>" 80
      example_reporter AF_INET "replicate 14 NUL" "[]"]
  by (simp add: example_world_def example_reporter_def absl_reference_def within_def decimal_value_80)

end
