(* ===== verification/Accounting.thy ===== *)
theory Accounting
  imports IOThread Reporting_Results
begin

text \<open>
  The I/O threads and the reports together: what the threads count is what they did on the
  network, and what the main thread reports is what the threads counted. A step of a thread is a
  sequence of the events that \<open>Reporting_Facts\<close> accounts for, and the program is its threads and its
  reporter, whose steps interleave.
\<close>

section \<open>Events and the network\<close>

text \<open>The effect of an event on the counters of the thread that causes it, and on the tallies.\<close>

fun record_event :: "report_event \<Rightarrow> Counters \<times> Tallies \<Rightarrow> Counters \<times> Tallies" where
  "record_event (Finished i status latency) (c, g) = (recordResult status latency c, g)"
| "record_event (BytesRead i n) (c, g) = (recordRead n c, g)"
| "record_event (BytesWritten i n) (c, g) = (recordWrite n c, g)"
| "record_event SocketFailed (c, g) = (c, RecordSocketError g)"
| "record_event ConnectionMade (c, g) = (c, RecordConnectionOpen g)"
| "record_event (Interval d w) (c, g) = (c, g)"
| "record_event Sampled (c, g) = (c, g)"

fun event_of :: "nat \<Rightarrow> report_event \<Rightarrow> bool" where
  "event_of i (Finished j s l) \<longleftrightarrow> j = i"
| "event_of i (BytesRead j n) \<longleftrightarrow> j = i"
| "event_of i (BytesWritten j n) \<longleftrightarrow> j = i"
| "event_of i SocketFailed \<longleftrightarrow> True"
| "event_of i ConnectionMade \<longleftrightarrow> True"
| "event_of i (Interval d w) \<longleftrightarrow> False"
| "event_of i Sampled \<longleftrightarrow> False"

text \<open>What the trace of a thread shows of the network: bytes sent and sockets opened.\<close>

definition net_bytes :: "net_event list \<Rightarrow> int" where
  "net_bytes tr = int (length (Requests.sent tr))"

definition net_opens :: "net_event list \<Rightarrow> int" where
  "net_opens tr = int (length (filter (\<lambda>e. case e of net_event.Opened n \<Rightarrow> True | _ \<Rightarrow> False) tr))"

lemma net_simps [simp]:
  "net_bytes [] = 0" "net_bytes (tr @ tr') = net_bytes tr + net_bytes tr'" "net_bytes (map net_event.Closed fds) = 0"
  "net_bytes [net_event.Opened n] = 0" "net_bytes [net_event.Sent s] = int (length s)"
  "net_opens [] = 0" "net_opens (tr @ tr') = net_opens tr + net_opens tr'" "net_opens (map net_event.Closed fds) = 0"
  "net_opens [net_event.Opened n] = 1" "net_opens [net_event.Sent s] = 0"
  by (simp_all add: net_bytes_def net_opens_def filter_map o_def)

lemma booked_simps [simp]:
  "account.sent (booked []) = 0" "account.opened (booked []) = 0"
  by (simp_all add: booked_def no_account_def)

lemma fold_book:
  "account.sent (fold book es a) = account.sent a + account.sent (booked es)"
  "account.opened (fold book es a) = account.opened a + account.opened (booked es)"
proof -
  have z: "account.sent no_account = 0" "account.opened no_account = 0" by (simp_all add: no_account_def)
  have b: "account.sent (book e a) = account.sent a + account.sent (book e no_account)"
    "account.opened (book e a) = account.opened a + account.opened (book e no_account)" for e a
    by (cases e; simp add: no_account_def)+
  have "account.sent (fold book es a) = account.sent a + account.sent (booked es) \<and>
    account.opened (fold book es a) = account.opened a + account.opened (booked es)" for a
  proof (induction es arbitrary: a)
    case (Cons e es)
    show ?case
      using Cons.IH [of "book e a"] Cons.IH [of "book e no_account"] b [of e a]
      unfolding booked_def by simp
  qed (simp add: booked_def z)
  then show "account.sent (fold book es a) = account.sent a + account.sent (booked es)"
    "account.opened (fold book es a) = account.opened a + account.opened (booked es)"
    by simp_all
qed

lemma booked_append [simp]:
  "account.sent (booked (es @ es')) = account.sent (booked es) + account.sent (booked es')"
  "account.opened (booked (es @ es')) = account.opened (booked es) + account.opened (booked es')"
  using fold_book [of es' "booked es"] by (simp_all add: booked_def)

section \<open>A connection\<close>

type_synonym ledger = "Counters \<times> Tallies \<times> net_event list"

text \<open>The events of thread \<open>i\<close> lead from one state of its ledger to the next, and agree with what the
  network saw meanwhile.\<close>

definition explains :: "nat \<Rightarrow> report_event list \<Rightarrow> ledger \<Rightarrow> ledger \<Rightarrow> bool" where
  "explains i es l l' \<longleftrightarrow>
     (case (l, l') of ((c, g, tr), (c', g', tr')) \<Rightarrow>
        list_all (event_of i) es \<and> fold record_event es (c, g) = (c', g') \<and>
        (\<exists>new. tr' = tr @ new \<and> net_bytes new = account.sent (booked es) \<and> net_opens new = account.opened (booked es)))"

lemma explains_refl: "explains i [] l l"
  by (cases l) (simp add: explains_def)

lemma explains_trans: "explains i es l l' \<Longrightarrow> explains i es' l' l'' \<Longrightarrow> explains i (es @ es') l l''"
  by (fastforce simp: explains_def split: prod.splits)

definition ledger_of :: "view \<Rightarrow> ledger" where
  "ledger_of w = (view.counters w, view.tallies w, view.trace w)"

definition observed :: "nat \<Rightarrow> view \<Rightarrow> view \<Rightarrow> bool" where
  "observed i w w' \<longleftrightarrow> (\<exists>es. explains i es (ledger_of w) (ledger_of w'))"

lemma observedI: "explains i es (ledger_of w) (ledger_of w') \<Longrightarrow> observed i w w'"
  by (auto simp: observed_def)

lemma same_ledger: "ledger_of w' = ledger_of w \<Longrightarrow> observed i w w'"
  unfolding observed_def by (simp, rule exI, rule explains_refl)

interpretation ob: handler_frame "observed i" for i
proof unfold_locales
  show "observed i w w" for w by (rule same_ledger) simp
  show "observed i u v \<Longrightarrow> observed i v w \<Longrightarrow> observed i u w" for u v w
    using explains_trans unfolding observed_def by blast
  show "observed i w (on_conn f w)" for f w by (rule same_ledger) (simp add: ledger_of_def on_conn_def)
  show "observed i w (w\<lparr>tick := n\<rparr>)" for w n by (rule same_ledger) (simp add: ledger_of_def)
  show "observed i w (close_all fds w)" for w fds
    by (rule observedI [where es = "[]"]) (simp add: explains_def ledger_of_def close_all_def)
  show "observed i w (record_error w)" for w
    by (rule observedI [where es = "[SocketFailed]"])
      (simp add: explains_def ledger_of_def record_error_def booked_def no_account_def)
  show "observed i w (Frames.opened m w)" for w m
    by (rule observedI [where es = "[ConnectionMade]"])
      (simp add: explains_def ledger_of_def Frames.opened_def booked_def no_account_def)
  show "observed i w (w\<lparr>counters := recordResult st lat (counters w)\<rparr>)" for w st lat
    by (rule observedI [where es = "[Finished i st lat]"])
      (simp add: explains_def ledger_of_def booked_def no_account_def)
  show "observed i w (w\<lparr>counters := recordRead n (counters w)\<rparr>)" for w n
    by (rule observedI [where es = "[BytesRead i n]"])
      (simp add: explains_def ledger_of_def booked_def no_account_def)
  show "observed i w (sent_bytes s w)" for w s
    by (rule observedI [where es = "[BytesWritten i (length s)]"])
      (simp add: explains_def ledger_of_def sent_bytes_def booked_def no_account_def)
qed

section \<open>A thread\<close>

definition thread_ledger :: "Thread \<Rightarrow> ledger" where
  "thread_ledger T = (th_counters T, th_tallies T, th_trace T)"

definition thread_observed :: "nat \<Rightarrow> Thread \<Rightarrow> Thread \<Rightarrow> bool" where
  "thread_observed i T T' \<longleftrightarrow> (\<exists>es. explains i es (thread_ledger T) (thread_ledger T'))"

lemma thread_observed_refl [simp]: "thread_ledger T' = thread_ledger T \<Longrightarrow> thread_observed i T T'"
  unfolding thread_observed_def by (simp, rule exI, rule explains_refl)

lemma thread_observed_trans: "thread_observed i T T' \<Longrightarrow> thread_observed i T' T'' \<Longrightarrow> thread_observed i T T''"
  using explains_trans unfolding thread_observed_def by blast

lemma put_view_observed:
  "observed i (view_of T j) w \<Longrightarrow> thread_ledger T = thread_ledger T0 \<Longrightarrow> thread_observed i T0 (put_view T j w)"
  by (auto simp: observed_def thread_observed_def thread_ledger_def ledger_of_def view_of_def put_view_def)

lemma start_connection_observed: "start_connection E T = Some T' \<Longrightarrow> thread_observed i T T'"
  by (auto simp: start_connection_def Let_def thread_ledger_def split: Option.bind_splits
      intro!: put_view_observed elim!: ob.StartConnect)

lemma start_connections_observed: "start_connections E n T = Some T' \<Longrightarrow> thread_observed i T T'"
proof (induction n arbitrary: T)
  case (Suc n)
  then show ?case
    using start_connection_observed by (fastforce split: Option.bind_splits intro: thread_observed_trans)
qed simp

lemma stop_last_ledger [simp]: "thread_ledger ((stop_last ^^ n) T) = thread_ledger T"
  by (induction n) (simp_all add: thread_ledger_def stop_last_def Let_def)

lemma execute_command_observed: "execute_command E c T = Some T' \<Longrightarrow> thread_observed i T T'"
proof (cases "cmd c")
  case SET_CONNECTIONS
  moreover assume "execute_command E c T = Some T'"
  ultimately show ?thesis
    by (auto simp: execute_command_def setNumConnections_def dest: start_connections_observed split: if_splits)
qed (auto simp: execute_command_def thread_ledger_def)

lemma process_queue_observed: "process_queue E q T = Some T' \<Longrightarrow> thread_observed i T T'"
proof (induction q arbitrary: T)
  case (Cons c q)
  then show ?case
    using execute_command_observed by (fastforce split: Option.bind_splits intro: thread_observed_trans)
qed simp

lemma thread_step_observed:
  assumes "thread_step E T T'" "Connection_Safety.world_ok E"
  shows "thread_observed i T T'"
  using assms(1)
proof (cases rule: thread_step.cases)
  case (event j e n w)
  then show ?thesis using put_view_observed [OF ob.handle [OF event(5) assms(2)]] by simp
next
  case wakeup
  then show ?thesis
    using process_queue_observed [of E _ "T\<lparr>commands := empty_queue, async_pending := False\<rparr>"]
    by (auto simp: processCommands_def thread_observed_def thread_ledger_def)
qed (simp_all add: thread_ledger_def hardShutdown_def RequestStop_def SetNumConnections_def)

lemma threadLoopBody_observed: "threadLoopBody E (Start T) = Some T' \<Longrightarrow> thread_observed i T T'"
  using start_connections_observed [of E _ "(Start T)\<lparr>refs := refs T + 1 - 1\<rparr>"]
  by (auto simp: threadLoopBody_def Let_def thread_observed_def thread_ledger_def Start_def
      split: Option.bind_splits if_splits)

section \<open>The program\<close>

record program =
  reporter :: Reporter
  io_threads :: "Thread list"

definition counters_of :: "program \<Rightarrow> Counters list" where
  "counters_of P = map th_counters (io_threads P)"

text \<open>A thread's step starts from the process-wide tallies and leaves them changed; an operation of the
  reports exchanges the counters of all threads.\<close>

definition with_thread :: "nat \<Rightarrow> Thread \<Rightarrow> program \<Rightarrow> program" where
  "with_thread i T P = P\<lparr>reporter := (reporter P)\<lparr>tallies := th_tallies T\<rparr>, io_threads := (io_threads P)[i := T]\<rparr>"

definition the_thread :: "program \<Rightarrow> nat \<Rightarrow> Thread" where
  "the_thread P i = (io_threads P ! i)\<lparr>th_tallies := Reporter.tallies (reporter P)\<rparr>"

definition with_counters :: "Reporter \<Rightarrow> Counters list \<Rightarrow> program \<Rightarrow> program" where
  "with_counters g cs P = P\<lparr>reporter := g, io_threads := map2 (\<lambda>T c. T\<lparr>th_counters := c\<rparr>) (io_threads P) cs\<rparr>"

inductive program_step :: "world \<Rightarrow> environment \<Rightarrow> program \<Rightarrow> program \<Rightarrow> bool" for W E where
  starts: "i < length (io_threads P) \<Longrightarrow> threadLoopBody E (Start (the_thread P i)) = Some T \<Longrightarrow>
    program_step W E P (with_thread i T P)"
| runs: "i < length (io_threads P) \<Longrightarrow> thread_step E (the_thread P i) T \<Longrightarrow> program_step W E P (with_thread i T P)"
| interval: "ReportInterval W d w (reporter P, counters_of P) = Some (out, g, cs) \<Longrightarrow>
    program_step W E P (with_counters g cs P)"
| samples: "SampleCPU W (reporter P) = Some g \<Longrightarrow> program_step W E P (P\<lparr>reporter := g\<rparr>)"

definition bytes_sent :: "program \<Rightarrow> int" where
  "bytes_sent P = sum_list (map (\<lambda>T. net_bytes (th_trace T)) (io_threads P))"

definition sockets_opened :: "program \<Rightarrow> int" where
  "sockets_opened P = sum_list (map (\<lambda>T. net_opens (th_trace T)) (io_threads P))"


section \<open>Steps of the program are runs of the reports\<close>

lemma thread_run:
  assumes "list_all (event_of i) es" "i < length ts" "fold record_event es (ts ! i, Reporter.tallies g) = (c', t')"
  shows "report_run W es (g, ts) = Some (g\<lparr>tallies := t'\<rparr>, ts[i := c']) \<and> list_all (event_ok (length ts)) es"
  using assms
proof (induction es arbitrary: g ts)
  case (Cons e es)
  show ?case
    using Cons.prems Cons.IH [of "ts[i := x]" g for x] Cons.IH [of ts "g\<lparr>tallies := x\<rparr>" for x]
    by (cases e) auto
qed auto

lemma report_run_append:
  "report_run W (es @ es') st = Option.bind (report_run W es st) (report_run W es')"
  by (induction es arbitrary: st) (simp_all split: Option.bind_split)

text \<open>What one step of the program reports, and what it did on the network.\<close>

definition accounted :: "world \<Rightarrow> program \<Rightarrow> program \<Rightarrow> bool" where
  "accounted W P P' \<longleftrightarrow>
     length (io_threads P') = length (io_threads P) \<and>
     (\<exists>es. list_all (event_ok (length (io_threads P))) es \<and>
        report_run W es (reporter P, counters_of P) = Some (reporter P', counters_of P') \<and>
        bytes_sent P' = bytes_sent P + account.sent (booked es) \<and>
        sockets_opened P' = sockets_opened P + account.opened (booked es))"

lemma accounted_refl: "accounted W P P"
  by (auto simp: accounted_def intro!: exI [where x = "[]"])

lemma accounted_trans:
  assumes "accounted W P P'" "accounted W P' P''"
  shows "accounted W P P''"
proof -
  obtain es es' where "list_all (event_ok (length (io_threads P))) es"
    "report_run W es (reporter P, counters_of P) = Some (reporter P', counters_of P')"
    "bytes_sent P' = bytes_sent P + account.sent (booked es)"
    "sockets_opened P' = sockets_opened P + account.opened (booked es)"
    "list_all (event_ok (length (io_threads P'))) es'"
    "report_run W es' (reporter P', counters_of P') = Some (reporter P'', counters_of P'')"
    "bytes_sent P'' = bytes_sent P' + account.sent (booked es')"
    "sockets_opened P'' = sockets_opened P' + account.opened (booked es')"
    using assms unfolding accounted_def by blast
  then show ?thesis
    using assms by (auto simp: accounted_def report_run_append intro!: exI [where x = "es @ es'"])
qed

lemma with_thread_accounted:
  assumes "i < length (io_threads P)" "thread_observed i (the_thread P i) T"
  shows "accounted W P (with_thread i T P)"
proof -
  obtain es new where e: "list_all (event_of i) es"
    "fold record_event es (th_counters (io_threads P ! i), Reporter.tallies (reporter P)) = (th_counters T, th_tallies T)"
    "th_trace T = th_trace (io_threads P ! i) @ new" "net_bytes new = account.sent (booked es)"
    "net_opens new = account.opened (booked es)"
    using assms(2) by (auto simp: thread_observed_def explains_def thread_ledger_def the_thread_def)
  have "counters_of (with_thread i T P) = (counters_of P)[i := th_counters T]"
    by (simp add: counters_of_def with_thread_def map_update)
  moreover have "bytes_sent (with_thread i T P) = bytes_sent P + net_bytes new"
    "sockets_opened (with_thread i T P) = sockets_opened P + net_opens new"
    using assms(1) e(3) by (simp_all add: bytes_sent_def sockets_opened_def with_thread_def sum_list_update)
  moreover have "report_run W es (reporter P, counters_of P) =
      Some ((reporter P)\<lparr>tallies := th_tallies T\<rparr>, (counters_of P)[i := th_counters T])"
    "list_all (event_ok (length (io_threads P))) es"
    using thread_run [of i es "counters_of P" "reporter P" "th_counters T" "th_tallies T" W] assms(1) e(1,2)
    by (simp_all add: counters_of_def)
  ultimately show ?thesis
    using e(4,5) by (auto simp: accounted_def with_thread_def intro!: exI [where x = es])
qed

lemma with_counters_simps:
  assumes "length cs = length (io_threads P)"
  shows "reporter (with_counters g cs P) = g" "counters_of (with_counters g cs P) = cs"
    "length (io_threads (with_counters g cs P)) = length (io_threads P)"
    "bytes_sent (with_counters g cs P) = bytes_sent P" "sockets_opened (with_counters g cs P) = sockets_opened P"
proof -
  have m: "map (\<lambda>x. f (fst x)) (zip (io_threads P) cs) = map f (io_threads P)" for f :: "Thread \<Rightarrow> int"
    using map_map [of f fst "zip (io_threads P) cs"] assms by (simp add: o_def)
  show "bytes_sent (with_counters g cs P) = bytes_sent P" "sockets_opened (with_counters g cs P) = sockets_opened P"
    by (simp_all add: with_counters_def bytes_sent_def sockets_opened_def o_def split_def
        m [of "\<lambda>T. net_bytes (th_trace T)"] m [of "\<lambda>T. net_opens (th_trace T)"])
qed (use assms in \<open>simp_all add: with_counters_def counters_of_def o_def split_def flip: snd_def\<close>)

lemma program_step_accounted:
  assumes "program_step W E P P'" "Reporting_Facts.world_ok W" "Connection_Safety.world_ok E"
  shows "accounted W P P'"
  using assms(1)
proof (cases rule: program_step.cases)
  case (starts i T)
  then show ?thesis using with_thread_accounted threadLoopBody_observed by simp
next
  case (runs i T)
  then show ?thesis using with_thread_accounted thread_step_observed assms(3) by simp
next
  case (interval d w out g cs)
  have "length cs = length (io_threads P)"
    using ReportInterval_counted [OF assms(2), of d w "reporter P" "counters_of P"] interval(2)
    by (auto simp: counters_of_def)
  with interval show ?thesis
    by (auto simp: accounted_def with_counters_simps booked_def no_account_def intro!: exI [where x = "[Interval d w]"])
next
  case (samples g)
  then show ?thesis
    by (auto simp: accounted_def counters_of_def bytes_sent_def sockets_opened_def booked_def no_account_def
        intro!: exI [where x = "[Sampled]"])
qed

lemma program_run_accounted:
  assumes "(program_step W E)\<^sup>*\<^sup>* P Q" "Reporting_Facts.world_ok W" "Connection_Safety.world_ok E"
  shows "accounted W P Q"
  using assms(1)
  by induction (blast intro: accounted_refl accounted_trans program_step_accounted assms(2,3))+


lemma booked_results: "good (booked es) + bad (booked es) = int (size (times (booked es)))"
proof -
  have "good (fold book es a) + bad (fold book es a) = int (size (times (fold book es a)))"
    if "good a + bad a = int (size (times a))" for a
    using that
  proof (induction es arbitrary: a)
    case (Cons e es)
    then show ?case using Cons.IH [of "book e a"] by (cases e) simp_all
  qed simp
  then show ?thesis by (simp add: booked_def no_account_def)
qed

section \<open>The property\<close>


text \<open>One thread with two connections starts.\<close>

definition example_program :: program where
  "example_program =
     \<lparr>reporter = example_reporter,
      io_threads = [IOThread_new (example_config\<lparr>numConnections := 2\<rparr>) 1 example_tallies]\<rparr>"


lemma example_start:
  obtains g0 where "RecordStart example_world True (reporter example_program, counters_of example_program) = Some (g0, [new_Counters])"
    "the_thread (with_counters g0 [new_Counters] example_program) 0 =
       IOThread_new (example_config\<lparr>numConnections := int 2\<rparr>) 1 example_tallies"
proof -
  have cs: "counters_of example_program = [new_Counters]"
    by (simp add: counters_of_def example_program_def IOThread_new_def)
  obtain g0 where g0: "RecordStart example_world True (reporter example_program, [new_Counters]) = Some (g0, [new_Counters])"
    "counted (g0, [new_Counters]) = no_account" "reporting (Reporter.tallies g0)"
    using RecordStart_counted [OF example_world_ok, of True "reporter example_program" "[new_Counters]"] by auto
  then have "Reporter.tallies g0 = example_tallies"
    by (cases "Reporter.tallies g0") (auto simp: counted_def no_account_def example_tallies_def)
  then have "the_thread (with_counters g0 [new_Counters] example_program) 0 =
      IOThread_new (example_config\<lparr>numConnections := int 2\<rparr>) 1 example_tallies"
    by (simp add: the_thread_def with_counters_def example_program_def IOThread_new_def)
  with g0(1) show ?thesis using that cs by simp
qed


end
