(* ===== verification/Monitor.thy ===== *)
theory Monitor
  imports Cpu Number_Text Util Addresses
begin

text \<open>
  \<^verbatim>\<open>apib/apib_mon.{h,cc}\<close> and \<^verbatim>\<open>apib/apib_mon_main.cc\<close>: the monitoring server. A connection
  reads lines from its client and answers each with a line; the listening server starts a thread
  for each connection and stops when its event loop has no watcher left. What the system answers
  is an argument; \<^const>\<open>None\<close> is a failed \<^verbatim>\<open>mandatoryAssert\<close> or an access out of bounds.
\<close>

section \<open>A connection\<close>

text \<open>The outside world of a connection: \<open>m_chunk k n\<close> is how many bytes the \<open>k\<close>-th read delivers
  when it asks for \<open>n\<close> (as far as the client has sent them), \<open>m_fails k\<close> that it fails.\<close>

record mon_world =
  m_strings :: absl
  m_time :: "nat \<Rightarrow> int"
  m_stat :: "nat \<Rightarrow> string option"
  m_meminfo :: "nat \<Rightarrow> string option"
  m_block :: "nat \<Rightarrow> char list"
  m_stack :: "nat \<Rightarrow> CPUUsage"
  m_chunk :: "nat \<Rightarrow> nat \<Rightarrow> nat"
  m_fails :: "nat \<Rightarrow> bool"

record MonServerConnection =
  replies :: "string list"
  lastUsage :: CPUUsage
  m_calls :: nat
  m_closed :: bool

definition sendBack :: "string \<Rightarrow> MonServerConnection \<Rightarrow> MonServerConnection" where
  "sendBack m c = c\<lparr>replies := replies c @ [m]\<rparr>"

definition usage_text :: "double \<Rightarrow> string" where
  "usage_text usage = fixed 2 usage @ [LF]"

definition processCommand :: "mon_world \<Rightarrow> string \<Rightarrow> MonServerConnection \<Rightarrow> (bool \<times> MonServerConnection) option" where
  "processCommand W cmd c =
     (let k = m_calls c; c1 = c\<lparr>m_calls := k + 1\<rparr> in
      if eqcase cmd ''HELLO'' then Some (False, sendBack (''Hi!'' @ [LF]) c)
      else if eqcase cmd ''CPU'' then do {
        (usage, u) \<leftarrow> cpu_GetInterval (m_strings W) (m_block W k) (m_stat W k) (m_time W k) (m_stack W k) (lastUsage c);
        Some (False, sendBack (usage_text usage) (c1\<lparr>lastUsage := u\<rparr>))
      }
      else if eqcase cmd ''MEM'' then do {
        usage \<leftarrow> cpu_GetMemoryUsage (m_strings W) (m_block W k) (m_meminfo W k);
        Some (False, sendBack (usage_text usage) c1)
      }
      else if eqcase cmd ''BYE'' \<or> eqcase cmd ''QUIT'' then Some (True, sendBack (''BYE'' @ [LF]) c)
      else Some (False, sendBack (''Invalid command'' @ [LF]) c))"

text \<open>The inner loop of \<open>socketLoop\<close>, over the lines in the buffer.\<close>

function command_lines :: "mon_world \<Rightarrow> LineState \<Rightarrow> MonServerConnection \<Rightarrow> (LineState \<times> bool \<times> MonServerConnection) option" where
  "command_lines W s c = do {
     (b, t) \<leftarrow> next_line s;
     if \<not> b then Some (t, False, c)
     else do {
       l \<leftarrow> line t;
       (closeRequested, c1) \<leftarrow> processCommand W l c;
       if closeRequested then Some (t, True, c1) else command_lines W t c1
     }
   }"
  by pat_completeness auto
termination
  by (relation "measure (\<lambda>(W, s, c). nat (bufLen s - lineEnd s))") (auto dest: next_line_advances)

declare command_lines.simps [simp del]

definition mon_read :: "mon_world \<Rightarrow> nat \<Rightarrow> LineState \<Rightarrow> string \<Rightarrow> read_answer" where
  "mon_read W k s incoming =
     (if m_fails W k then Read_failed
      else Read_bytes (take (m_chunk W k (nat (snd (getReadInfo s)))) incoming))"

text \<open>The outer loop; \<open>incoming\<close> is what the client has yet to send before it closes.\<close>

function command_rounds :: "mon_world \<Rightarrow> nat \<Rightarrow> LineState \<Rightarrow> string \<Rightarrow> MonServerConnection \<Rightarrow> MonServerConnection option" where
  "command_rounds W k s incoming c =
     (let a = mon_read W k s incoming in do {
        (n, t) \<leftarrow> readFd s a;
        if n \<le> 0 then Some c
        else do {
          (u, closeRequested, c1) \<leftarrow> command_lines W t c;
          if closeRequested then Some c1
          else do {
            (ok, v) \<leftarrow> consume u;
            if \<not> ok then Some c1 else command_rounds W (k + 1) v (drop (nat n) incoming) c1
          }
        }
      })"
  by pat_completeness auto
termination
proof (relation "measure (\<lambda>(W, k, s, incoming, c). length incoming)", goal_cases)
  case (2 W k s incoming c a p n t q u r b c1 r' ok v)
  then have "incoming \<noteq> []"
    by (auto simp: mon_read_def readFd_def split: if_splits)
  with 2 show ?case by auto
qed simp

declare command_rounds.simps [simp del]

definition READ_BUF_LEN :: nat where "READ_BUF_LEN = 128"

definition socketLoop :: "mon_world \<Rightarrow> char list \<Rightarrow> string \<Rightarrow> MonServerConnection \<Rightarrow> MonServerConnection option" where
  "socketLoop W block incoming c = do {
     let k = m_calls c;
     u \<leftarrow> cpu_GetUsage (m_strings W) (m_block W k) (m_stat W k) (m_time W k) (m_stack W k);
     c1 \<leftarrow> command_rounds W 0 (LineState_empty block) incoming (c\<lparr>m_calls := k + 1, lastUsage := u\<rparr>);
     Some (c1\<lparr>m_closed := True\<rparr>)
   }"

section \<open>The server\<close>

record MonServer =
  listenfd :: int
  loop_refs :: nat           \<comment> \<open>active watchers of the event loop\<close>
  looping :: bool            \<comment> \<open>the accept thread is in \<^verbatim>\<open>ev_run\<close>\<close>
  clients :: "int list"
  closed_fds :: "int list"

text \<open>The answers to \<^verbatim>\<open>socket\<close>, \<^verbatim>\<open>fcntl\<close>, \<^verbatim>\<open>bind\<close> and \<^verbatim>\<open>listen\<close>.\<close>

record listen_answers =
  a_socket :: int
  a_fcntl :: int
  a_bind :: int
  a_listen :: int

definition MonServer_start :: "int \<Rightarrow> listen_answers \<Rightarrow> MonServer \<Rightarrow> int \<times> MonServer" where
  "MonServer_start cpuInitErr a m =
     (if cpuInitErr \<noteq> 0 then (- 3, m)
      else let m1 = m\<lparr>listenfd := a_socket a\<rparr> in
        if a_socket a < 0 then (- 1, m1)
        else if a_fcntl a \<noteq> 0 then (- 4, m1\<lparr>closed_fds := closed_fds m1 @ [listenfd m1]\<rparr>)
        else if a_bind a \<noteq> 0 then (- 2, m1)
        else if a_listen a \<noteq> 0 then (- 3, m1\<lparr>closed_fds := closed_fds m1 @ [listenfd m1]\<rparr>)
        else (0, m1\<lparr>loop_refs := loop_refs m1 + 2, looping := True\<rparr>))"

definition acceptOne :: "int \<Rightarrow> int \<Rightarrow> MonServer \<Rightarrow> MonServer option" where
  "acceptOne fd fcntlErr m =
     (if fd \<le> 0 then Some m
      else if fcntlErr \<noteq> 0 then None
      else Some (m\<lparr>clients := clients m @ [fd]\<rparr>))"

definition handleAccept :: "int \<Rightarrow> int \<Rightarrow> MonServer \<Rightarrow> MonServer option" where
  "handleAccept fd fcntlErr m = acceptOne fd fcntlErr m"

text \<open>The event loop returns when no watcher is left.\<close>

definition handleShutdown :: "MonServer \<Rightarrow> MonServer" where
  "handleShutdown m = m\<lparr>loop_refs := loop_refs m - 1 - 1\<rparr>"

definition acceptLoop_turn :: "MonServer \<Rightarrow> MonServer" where
  "acceptLoop_turn m = m\<lparr>looping := loop_refs m > 0\<rparr>"

text \<open>\<open>stop\<close> wakes the loop with the shutdown event and waits for the thread, so it returns only
  when the loop has ended.\<close>

definition MonServer_stop :: "MonServer \<Rightarrow> MonServer option" where
  "MonServer_stop m =
     (let m1 = acceptLoop_turn (handleShutdown m) in
      if looping m1 then None else Some (m1\<lparr>closed_fds := closed_fds m1 @ [listenfd m1]\<rparr>))"

text \<open>The port from what \<^verbatim>\<open>getsockname\<close> stores for the listening socket: the bytes of an IPv4 address
  behind its family. \<open>join\<close> returns when the accept thread has left the event loop.\<close>

definition MonServer_port :: "(int \<Rightarrow> char list) \<Rightarrow> MonServer \<Rightarrow> nat option" where
  "MonServer_port getsockname m =
     do { hi \<leftarrow> rd (getsockname (listenfd m)) 0; lo \<leftarrow> rd (getsockname (listenfd m)) 1; Some (ntohs hi lo) }"

definition MonServer_join :: "MonServer \<Rightarrow> MonServer option" where
  "MonServer_join m = (if looping m then None else Some m)"

text \<open>\<^verbatim>\<open>main\<close> of the server program: its exit status, \<^const>\<open>None\<close> while it serves.\<close>

definition mon_main :: "string list \<Rightarrow> int \<Rightarrow> (int \<Rightarrow> listen_answers) \<Rightarrow> MonServer \<Rightarrow> int option" where
  "mon_main argv cpuInitErr answers m =
     (if length argv \<noteq> 2 then Some 2
      else let (err, m1) = MonServer_start cpuInitErr (answers (atoi (argv ! 1))) m in
        if err \<noteq> 0 then Some 2 else if looping m1 then None else Some 0)"

section \<open>The life of a server\<close>

text \<open>Whatever connections a started server accepts, it listens at the port the system has bound,
  serves until it is stopped, and then has closed its listening socket and no other.\<close>

fun accept_all :: "(int \<times> int) list \<Rightarrow> MonServer \<Rightarrow> MonServer option" where
  "accept_all [] m = Some m"
| "accept_all ((fd, e) # as) m = do { m' \<leftarrow> handleAccept fd e m; accept_all as m' }"

lemma accept_all_keeps:
  "list_all (\<lambda>(fd, e). e = 0) as \<Longrightarrow>
     accept_all as m = Some (m\<lparr>clients := clients m @ filter (\<lambda>fd. 0 < fd) (map fst as)\<rparr>)"
  by (induction as m rule: accept_all.induct) (auto simp: handleAccept_def acceptOne_def)

lemma server_life:
  assumes "MonServer_start 0 a m = (0, m1)" "loop_refs m = 0" "list_all (\<lambda>(fd, e). e = 0) as"
  shows "\<exists>m2 m3. accept_all as m1 = Some m2 \<and> clients m2 = clients m @ filter (\<lambda>fd. 0 < fd) (map fst as) \<and>
    MonServer_join m2 = None \<and> MonServer_port (\<lambda>fd. htons (p mod 65536) @ rest) m2 = Some (p mod 65536) \<and>
    MonServer_stop m2 = Some m3 \<and> MonServer_join m3 = Some m3 \<and> closed_fds m3 = closed_fds m @ [a_socket a]"
proof -
  have m1: "m1 = m\<lparr>listenfd := a_socket a, loop_refs := 2, looping := True\<rparr>"
    using assms(1,2) by (auto simp: MonServer_start_def Let_def split: if_splits)
  have "ntohs (char_of (p mod 65536 div 256)) (char_of (p mod 65536 mod 256)) = p mod 65536"
    using po.dec_enc [of "p mod 65536"] by (simp add: htons_def)
  then show ?thesis unfolding accept_all_keeps [OF assms(3)]
    by (simp add: m1 MonServer_join_def MonServer_port_def MonServer_stop_def Let_def handleShutdown_def
        acceptLoop_turn_def rd_def in_bounds_def htons_def)
qed

lemma failed_bind_leaks_descriptor:
  "MonServer_start 0 \<lparr>a_socket = 5, a_fcntl = 0, a_bind = - 1, a_listen = 0\<rparr> m = (- 2, m\<lparr>listenfd := 5\<rparr>)"
  by (simp add: MonServer_start_def Let_def)

section \<open>Serving\<close>

lemma processCommand_total: "\<exists>b c'. processCommand W l c = Some (b, c')"
proof -
  let ?k = "m_calls c"
  obtain d u where "cpu_GetInterval (m_strings W) (m_block W ?k) (m_stat W ?k) (m_time W ?k) (m_stack W ?k) (lastUsage c) = Some (d, u)"
    using cpu_GetInterval_total by blast
  moreover obtain d' where "cpu_GetMemoryUsage (m_strings W) (m_block W ?k) (m_meminfo W ?k) = Some d'"
    using cpu_GetMemoryUsage_total by blast
  ultimately show ?thesis unfolding processCommand_def Let_def
    by (auto split: if_split intro!: exI)
qed

text \<open>The command as a step that may end the session.\<close>

definition command :: "mon_world \<Rightarrow> string \<Rightarrow> MonServerConnection \<Rightarrow> MonServerConnection + MonServerConnection" where
  "command W l c = (case the (processCommand W l c) of (b, c') \<Rightarrow> if b then Inl c' else Inr c')"

lemma command_lines_for_lines:
  "for_lines (command W) s c = Some (t, r) \<Longrightarrow>
     command_lines W s c = Some (t, isl r, case r of Inl c' \<Rightarrow> c' | Inr c' \<Rightarrow> c')"
proof (induction "command W" s c arbitrary: t r rule: for_lines.induct)
  case (1 s c)
  obtain b t1 where n: "next_line s = Some (b, t1)"
    using "1.prems" by (subst (asm) for_lines.simps) (auto simp: bind_eq_Some_conv)
  show ?case
  proof (cases b)
    case False
    with n "1.prems" show ?thesis
      by (subst (asm) for_lines.simps, subst command_lines.simps) auto
  next
    case True
    obtain l where l: "line t1 = Some l"
      using "1.prems" n True by (subst (asm) for_lines.simps) (auto simp: bind_eq_Some_conv)
    obtain close c1 where p: "processCommand W l c = Some (close, c1)" using processCommand_total by blast
    have cmd: "command W l c = (if close then Inl c1 else Inr c1)" by (simp add: command_def p)
    show ?thesis
    proof (cases close)
      case True
      have "t = t1" "r = Inl c1"
        using "1.prems" n \<open>b\<close> l cmd True by (subst (asm) for_lines.simps; simp)+
      with n l p True \<open>b\<close> show ?thesis by (subst command_lines.simps) simp
    next
      case False
      have "for_lines (command W) t1 c1 = Some (t, r)"
        using "1.prems" n \<open>b\<close> l cmd False by (subst (asm) for_lines.simps) simp
      with "1.hyps" [OF n refl _ l _ this] \<open>b\<close> cmd False n l p show ?thesis
        by (subst command_lines.simps) simp
    qed
  qed
qed

text \<open>The whole session handles the lines of the text the client sends, however it arrives.\<close>

definition session_end :: "MonServerConnection + MonServerConnection \<Rightarrow> MonServerConnection" where
  "session_end r = (case r of Inl c \<Rightarrow> c | Inr c \<Rightarrow> c)"

definition delivers :: "mon_world \<Rightarrow> bool" where
  "delivers W \<longleftrightarrow> (\<forall>k. \<not> m_fails W k \<and> (\<forall>n. 0 < n \<longrightarrow> 0 < m_chunk W k n \<and> m_chunk W k n \<le> n))"

lemma command_rounds_delivers:
  assumes "delivers W" and "between_reads (command W) s r inp"
  shows "command_rounds W k s inp c = Some (session_end (fold_lines (command W) (text_lines (r @ inp)) c))"
  using assms(2)
proof (induction "length inp" arbitrary: k s r inp c rule: less_induct)
  case less
  let ?space = "nat (bufSize s - bufLen s)"
  let ?n = "m_chunk W k ?space"
  have n: "0 < ?n" "?n \<le> ?space" "\<not> m_fails W k"
    using assms(1) between_reads_space [OF less.prems] by (auto simp: delivers_def)
  have a: "mon_read W k s inp = Read_bytes (take ?n inp)" using n(3) by (simp add: mon_read_def getReadInfo_def)
  show ?case
  proof (cases "inp = []")
    case True
    with a less.prems between_reads_end [of "command W" s r] show ?thesis
      by (subst command_rounds.simps) (simp add: readFd_def Let_def session_end_def)
  next
    case False
    obtain t u where tu: "store_read s (take ?n inp) = Some t"
      "for_lines (command W) t c = Some (u, fold_lines (command W) (text_lines (r @ take ?n inp)) c)"
      "\<And>a. fold_lines (command W) (text_lines (r @ take ?n inp)) c = Inr a \<Longrightarrow>
         \<exists>v. consume u = Some (True, v) \<and> between_reads (command W) v (text_rest (r @ take ?n inp)) (drop ?n inp)"
      using read_round [OF less.prems n(1,2) False] by blast
    have rd: "readFd s (Read_bytes (take ?n inp)) = Some (int (length (take ?n inp)), t)"
      "\<not> int (length (take ?n inp)) \<le> 0" "drop (nat (int (length (take ?n inp)))) inp = drop ?n inp"
      using tu(1) False n(1) by (simp_all add: readFd_def min_def)
    have len: "length (drop ?n inp) < length inp" using False n(1) by auto
    note cl = command_lines_for_lines [OF tu(2)] and whole = text_lines_take [of r inp ?n]
    show ?thesis
    proof (cases "fold_lines (command W) (text_lines (r @ take ?n inp)) c")
      case (Inl e)
      with a rd(1,2) cl whole show ?thesis
        by (subst command_rounds.simps) (simp add: fold_lines_append session_end_def Let_def del: length_take of_nat_le_0_iff)
    next
      case (Inr c')
      with tu(3) obtain v where v: "consume u = Some (True, v)"
        "between_reads (command W) v (text_rest (r @ take ?n inp)) (drop ?n inp)" by blast
      from less.hyps [OF len v(2), of "k + 1" c'] show ?thesis
        using a rd cl whole Inr v(1)
        by (subst command_rounds.simps) (simp add: fold_lines_append Let_def del: length_take of_nat_le_0_iff nat_int)
    qed
  qed
qed

section \<open>Properties\<close>

text \<open>The lines a session handles: up to the first one that closes it.\<close>

definition closes :: "string \<Rightarrow> bool" where
  "closes l \<longleftrightarrow> eqcase l ''BYE'' \<or> eqcase l ''QUIT''"

fun handled :: "string list \<Rightarrow> string list" where
  "handled [] = []"
| "handled (l # ls) = l # (if closes l then [] else handled ls)"

text \<open>What the protocol answers to a line.\<close>

definition answers :: "string \<Rightarrow> string \<Rightarrow> bool" where
  "answers l r \<longleftrightarrow>
     (if eqcase l ''HELLO'' then r = ''Hi!'' @ [LF]
      else if eqcase l ''CPU'' \<or> eqcase l ''MEM'' then \<exists>d. r = fixed 2 d @ [LF]
      else if closes l then r = ''BYE'' @ [LF]
      else r = ''Invalid command'' @ [LF])"

lemma eqcase_words:
  "eqcase l ''BYE'' \<Longrightarrow> \<not> eqcase l ''HELLO'' \<and> \<not> eqcase l ''CPU'' \<and> \<not> eqcase l ''MEM''"
  "eqcase l ''QUIT'' \<Longrightarrow> \<not> eqcase l ''HELLO'' \<and> \<not> eqcase l ''CPU'' \<and> \<not> eqcase l ''MEM''"
  by (auto simp: eqcase_iff tolower_def is_upper_def byte_of_def byte_of_char_of)

lemma processCommand_answers:
  obtains c' r where "processCommand W l c = Some (closes l, c')" "replies c' = replies c @ [r]" "answers l r"
proof -
  let ?k = "m_calls c"
  obtain d u where d: "cpu_GetInterval (m_strings W) (m_block W ?k) (m_stat W ?k) (m_time W ?k) (m_stack W ?k) (lastUsage c) = Some (d, u)"
    using cpu_GetInterval_total by blast
  obtain d' where d': "cpu_GetMemoryUsage (m_strings W) (m_block W ?k) (m_meminfo W ?k) = Some d'"
    using cpu_GetMemoryUsage_total by blast
  have "\<exists>c' r. processCommand W l c = Some (closes l, c') \<and> replies c' = replies c @ [r] \<and> answers l r"
    using eqcase_words [of l] d d'
    by (auto simp: processCommand_def Let_def answers_def closes_def sendBack_def usage_text_def)
  with that show ?thesis by blast
qed

lemma command_answers:
  "\<exists>rs. replies (session_end (fold_lines (command W) ls c)) = replies c @ rs \<and> list_all2 answers (handled ls) rs"
proof (induction ls arbitrary: c)
  case (Cons l ls)
  obtain c' r where p: "processCommand W l c = Some (closes l, c')" "replies c' = replies c @ [r]" "answers l r"
    by (rule processCommand_answers)
  then have cmd: "command W l c = (if closes l then Inl c' else Inr c')" by (simp add: command_def)
  show ?case
  proof (cases "closes l")
    case True
    with p cmd show ?thesis by (simp add: session_end_def)
  next
    case False
    obtain rs where "replies (session_end (fold_lines (command W) ls c')) = replies c' @ rs" "list_all2 answers (handled ls) rs"
      using Cons.IH by blast
    with p cmd False show ?thesis by (intro exI [of _ "r # rs"]) simp
  qed
qed (simp add: session_end_def)


definition example_mon_world :: "(nat \<Rightarrow> nat \<Rightarrow> nat) \<Rightarrow> mon_world" where
  "example_mon_world chunk =
     \<lparr>m_strings = absl_reference, m_time = int, m_stat = (\<lambda>k. None), m_meminfo = (\<lambda>k. None),
      m_block = (\<lambda>k. []), m_stack = (\<lambda>k. \<lparr>idle = 0, nonIdle = 0, timestamp = 0\<rparr>), m_chunk = chunk, m_fails = (\<lambda>k. False)\<rparr>"

definition new_connection :: MonServerConnection where
  "new_connection = \<lparr>replies = [], lastUsage = \<lparr>idle = 0, nonIdle = 0, timestamp = 0\<rparr>, m_calls = 0, m_closed = False\<rparr>"


text \<open>The session depends on the network when lines end in CR LF: arriving together they end one
  line, but when a read ends between them the LF alone is taken for an empty command, so the
  client of one command receives a second answer that complains.\<close>

theorem split_crlf_is_a_command:
  "map_option replies (socketLoop (example_mon_world (\<lambda>k n. n)) (replicate 128 NUL) (''hello'' @ [CR, LF]) new_connection)
     = Some [''Hi!'' @ [LF]] \<and>
   map_option replies (socketLoop (example_mon_world (\<lambda>k n. if k = 0 then 6 else n)) (replicate 128 NUL) (''hello'' @ [CR, LF]) new_connection)
     = Some [''Hi!'' @ [LF], ''Invalid command'' @ [LF]]"
  by code_simp

end
