(* ===== verification/Spec2Isabelle.thy ===== *)
theory Spec2Isabelle
  imports Command_Queue Util Lines Absl Codec Addresses Url_Parser Url Base64 Doubles Apib_Time Number_Text OAuth
    Socket Counters Counter_Exchange Http_Message Http_Safety Http_Feed Http_Response Connection Connection_Safety Frames
    Requests Responses IOThread
    Cpu Cpu_Bsd Main_Program Main_Facts Getopt Command_Line Messages Apib_Rand Reporting_Facts Reporting_Results
    Accounting Monitor
begin

text \<open>
  A model of \<^verbatim>\<open>apib\<close>, an HTTP load generator, and the theorems that make it correct.

  \<^bold>\<open>The program.\<close> \<^verbatim>\<open>main\<close> (\<^verbatim>\<open>src/apib/apib_main.cc\<close>) reads the options, parses the URL or the file
  of URLs (\<^verbatim>\<open>apib_url.cc\<close>, which resolves the host through \<^verbatim>\<open>addresses.cc\<close>), and starts I/O
  threads. Each thread (\<^verbatim>\<open>apib_iothread.cc\<close>) runs an event loop over its connections
  (\<^verbatim>\<open>apib_io_basic.cc\<close>): a connection connects a plain or TLS socket (\<^verbatim>\<open>socket.cc\<close>,
  \<^verbatim>\<open>tlssocket.cc\<close>), writes a request, signed with OAuth if asked for (\<^verbatim>\<open>apib_oauth.cc\<close>), reads the
  response through the HTTP parser, records the result in its thread's counters and starts again,
  after a think time or on a new connection. The main thread sends it commands through a queue
  (\<^verbatim>\<open>apib_commandqueue.h\<close>), exchanges its counters at every interval and prints the reports
  (\<^verbatim>\<open>apib_reporting.cc\<close>). The reports include the CPU and memory usage of the machine
  (\<^verbatim>\<open>apib_cpu_proc.cc\<close>, over the line buffer of \<^verbatim>\<open>apib_lines.cc\<close>) and of up to two others, where
  the second program, \<^verbatim>\<open>apibmon\<close> (\<^verbatim>\<open>apib_mon.cc\<close>), answers commands with numbers.

  \<^bold>\<open>Conventions.\<close> A C++ object is a record with the names of its members; an operation is a
  function that returns the new state. \<^const>\<open>None\<close> is the program's undefined behaviour or abort: an
  access out of bounds (\<open>rd\<close>, \<open>wr\<close> of \<open>Prelude\<close>), a failed \<^verbatim>\<open>assert\<close>, a null pointer, a division by
  zero, an undefined conversion; so a theorem that an operation is \<^const>\<open>Some\<close> says that it has none
  of these. Error statuses of the code are values of a sum type (\<open>Util\<close>). What the system and the
  libraries answer is an argument: for one call a value, for a history of calls a record of functions
  of the number of calls made so far (\<open>environment\<close> of \<open>Connection\<close>, \<open>world\<close> of \<open>Reporting\<close>,
  \<open>mon_world\<close> of \<open>Monitor\<close>, \<open>system\<close> of \<open>Main_Program\<close>). Integers are kept at their width where the
  code narrows them or where bits matter (16-bit URL fields, 32-bit results and casts, bit masks);
  64-bit counters and times are unbounded integers.

  \<^bold>\<open>Theories.\<close>
  \<^item> \<open>Prelude\<close>, \<open>CText\<close>, \<open>Doubles\<close>, \<open>Number_Text\<close>, \<open>Absl\<close>: bounded memory; the C library's characters
    and numbers; IEEE doubles as rationals with explicit rounding; printing and reading decimals
    (\<open>fixed\<close>, \<open>strtod\<close>); the string library's interface and its documented behaviour \<open>absl_ok\<close>.
  \<^item> \<open>Codec\<close>: the locale \<open>codec\<close> of an encoding that can be undone, and \<open>codec_chain\<close> of one after another,
    with a \<^theory_text>\<open>sublocale\<close> that makes a chain a codec. Port numbers (\<open>Addresses\<close>), Base64 (\<open>Base64\<close>) and
    percent encoding (\<open>OAuth\<close>) are interpretations, the signature in a query string is a chain.
  \<^item> \<open>Util\<close> (\<^verbatim>\<open>apib_util.cc\<close>, \<^verbatim>\<open>status.cc\<close>), \<open>Apib_Time\<close> (\<^verbatim>\<open>apib_time.cc\<close>), \<open>Base64\<close>
    (\<^verbatim>\<open>third_party/base64\<close>), \<open>Command_Queue\<close> (\<^verbatim>\<open>apib_commandqueue.cc\<close>, with the locale \<open>fifo\<close>).
  \<^item> \<open>Lines\<close> (\<^verbatim>\<open>apib_lines.cc\<close>): \<open>LineState\<close> on a heap block of given size. No sequence of calls leaves
    the block (outside HTTP mode), the lines delivered are those of the text however it is cut into
    reads, and \<open>nextToken\<close> gives the words of a line.
  \<^item> \<open>Addresses\<close> (\<^verbatim>\<open>addresses.cc\<close>), \<open>Url_Parser\<close> (\<^verbatim>\<open>http_parser_parse_url\<close>), \<open>Url\<close> (\<^verbatim>\<open>apib_url.cc\<close>):
    every byte string is parsed without an error of memory and well-formed URLs into their parts; the
    URL file; round robin over the addresses; which URLs share a connection.
  \<^item> \<open>OAuth\<close> (\<^verbatim>\<open>apib_oauth.cc\<close>): percent encoding, the base string and its independence of the order
    of parameters, the signature that is sent.
  \<^item> \<open>Socket\<close> (\<^verbatim>\<open>socket.cc\<close>, \<^verbatim>\<open>tlssocket.cc\<close>): the locale \<open>transfers\<close> is the contract both kinds keep,
    and is interpreted on both.
  \<^item> \<open>Http_Message\<close> (\<^verbatim>\<open>http_parser_execute\<close> of \<^verbatim>\<open>third_party/http_parser\<close>, for responses): one definition per
    \<^verbatim>\<open>case\<close> of its \<^verbatim>\<open>switch\<close> (\<open>on_header_value\<close>, \<open>on_chunk_size\<close>, \<dots>), the loop \<open>parse_bytes\<close> over the input,
    and keep-alive. \<open>Http_Safety\<close>: its invariant; no input fails an \<^verbatim>\<open>assert\<close> and all input is consumed.
    \<open>Http_Feed\<close>: it is equivalent to \<open>feed\<close>, which takes one byte at a time, so the cut of a response into reads
    does not matter. \<open>Http_Response\<close>: the texts of responses (\<open>response_text\<close>) as a specification, and that the
    parser takes them to be complete at their last byte, with the right status and keep-alive decision.
  \<^item> \<open>Connection\<close> (\<^verbatim>\<open>apib_io_basic.cc\<close> and class \<^verbatim>\<open>ConnectionState\<close> of \<^verbatim>\<open>apib_iothread.cc\<close>): every
    operation and event handler on a \<open>view\<close>, the connection and what it shares with its thread.
    \<open>Connection_Safety\<close>: between events a connection waits for exactly one thing and no handler
    aborts. \<open>Frames\<close>: what the handlers leave alone, as locales (\<open>sending_frame\<close> for the operations
    that send, \<open>handler_frame\<close> for whole handlers) that are interpreted in \<open>Requests\<close>, \<open>IOThread\<close> and
    \<open>Accounting\<close>. \<open>Requests\<close>: the bytes of a request and their delivery, retries, the end of responses
    and of the loops that read them. \<open>Responses\<close>: the read handler, the parser and the counters together: a
    response that the network delivers becomes one result.
  \<^item> \<open>IOThread\<close> (the rest of \<^verbatim>\<open>apib_iothread.cc\<close>): a thread's commands and event loop as the step
    relation \<open>thread_step\<close> (its own events and the requests of the main thread) with \<open>thread_reachable\<close>,
    which adds what happens to the state it shares: its counters are exchanged, and other threads
    change the tallies; its invariant in every reachable state, and how the loop ends.
  \<^item> \<open>Counters\<close> and \<open>Counter_Exchange\<close>: the counters a thread records into; their exchange as one
    step, and at the grain of memory accesses, where it races with recording.
  \<^item> \<open>Cpu\<close> (\<^verbatim>\<open>apib_cpu_proc.cc\<close>, \<^verbatim>\<open>apib_cpu_generic.cc\<close>), \<open>Cpu_Bsd\<close> (\<^verbatim>\<open>apib_cpu_bsd.cc\<close>): the usage ratios
    computed from the text of the files under \<^verbatim>\<open>/proc\<close>.
  \<^item> \<open>Reporting\<close> (\<^verbatim>\<open>apib_reporting.cc\<close>): the file's static variables are the record \<open>Reporter\<close>.
    \<open>Reporting_Facts\<close> and \<open>Reporting_Results\<close>: every result is counted once, the percentiles and
    averages are those of the recorded latencies, the columns of the printed line.
  \<^item> \<open>Accounting\<close>: the threads and the reporter together, as a step relation of the whole program: what is
    reported between \<open>RecordStart\<close> and \<open>RecordStop\<close> is what the threads' sockets sent and opened.
  \<^item> \<open>Monitor\<close> (\<^verbatim>\<open>apib_mon.cc\<close>, \<^verbatim>\<open>apib_mon_main.cc\<close>): sessions, and the listening server
    from its start to its stop.
  \<^item> \<open>Main_Program\<close> (\<^verbatim>\<open>apib_main.cc\<close>): \<open>Settings\<close> are its static variables; the calls of a run are a
    list. \<open>Main_Facts\<close>: the spreading of connections, the measured time, the headers that are sent.
  \<^item> \<open>Getopt\<close> and \<open>Command_Line\<close> (the option tables of \<^verbatim>\<open>apib_main.cc\<close>): \<^verbatim>\<open>getopt_long\<close> as its manual describes
    it, on the tables of the program; \<^const>\<open>None\<close> is a search that leaves the table of long names, which
    has no terminating entry. What a command line means, and that the settings it leads to are well formed.
  \<^item> \<open>Messages\<close>: the usage (the options it documents are those of the table), the versions, the TLS
    debugging callback, \<^verbatim>\<open>Address::str\<close>, \<^verbatim>\<open>LineState::debug\<close> and \<open>c_line\<close>.
  \<^item> \<open>Apib_Rand\<close> (\<^verbatim>\<open>apib_rand.cc\<close>): the generator behind the draws that other components take as arguments,
    with the locale \<open>random_draws\<close>.
  \<^item> This theory: what the reports read from a monitoring server is what it measured.

  \<^bold>\<open>Assumptions.\<close> \<open>absl_ok\<close>: the documented behaviour of the string library. The two \<open>world_ok\<close>
  (of \<open>Connection_Safety\<close> and \<open>Reporting_Facts\<close>): system calls return counts in the range asked for,
  a successful lookup has a result, and a monitor's reply is a line that fits the buffer.
  \<open>delivers\<close>: every read of a monitoring session succeeds with some part of what the client sent;
  \<open>network_delivers\<close>: every read of a connection succeeds with the next block of the response. Each is satisfied by a
  concrete instance, which the witnesses use. \<open>uniform_ok\<close>: a random distribution draws from its range.

  \<^bold>\<open>Loops.\<close> A loop over data is structural recursion or has a termination proof; a monitoring
  session ends because every read takes a part of what the client sent. Only the loops of the read
  and write handlers have fuel, the number of rounds of \<open>repeat_while_positive\<close> (an argument of
  \<open>handle\<close>), with a result of its own for running out. The write handler ends in at most as many
  rounds as there are bytes to send, and one more (\<open>request_delivered\<close>); the read handler need not
  end at all when the peer has closed early (\<open>closed_peer_spins\<close>), but ends one round after the
  last data when the socket then blocks (\<open>response_read_ends\<close>); the invariants of the
  handlers hold for every number of rounds.

  \<^bold>\<open>Concurrency.\<close> The operations of a component are steps, and the components interleave at their
  calls (\<open>Accounting\<close> composes the threads with the reports): commands arrive at an I/O thread between two handlers, the counters are recorded and
  exchanged in any order. \<open>Counter_Exchange\<close> shows what the second of these leaves out.

  \<^bold>\<open>Not modelled.\<close> Verbose
  output and the error messages on standard error; destructors that only free memory. The
  insides of libev, OpenSSL and the resolver are not part of the repository. Of \<^verbatim>\<open>http_parser_execute\<close>,
  vendored code, the states of requests, which the program's parser cannot reach, and the calls of
  callbacks that the program does not install are left out; so is its strict mode, which the build
  turns off.
\<close>

section \<open>Across components\<close>

text \<open>C32. A remote measurement arrives rounded to two decimals. When the monitoring server's CPU
  usage is the number \<open>x\<close>, the command that the reports send is one line that the server answers
  with one message, and from this message the reports read \<open>x\<close> rounded to hundredths, whatever
  was on the stack behind it, and keep the connection.\<close>

theorem remote_usage_arrives:
  assumes "cpu_GetInterval (m_strings V) (m_block V (m_calls c)) (m_stat V (m_calls c)) (m_time V (m_calls c))
      (m_stack V (m_calls c)) (lastUsage c) = Some (Fin x, u)"
    and "0 \<le> x" "monitor_write W (calls g) = 4" "monitor_read W (calls g) = Some (usage_text (Fin x))"
  shows "\<exists>c' g'. text_lines kCPUCmd = [''cpu''] \<and>
    processCommand V ''cpu'' c = Some (False, c') \<and> replies c' = replies c @ [usage_text (Fin x)] \<and>
    getRemoteStat W kCPUCmd d g = Some (fl (of_int (round_even (x * 100)) / 100), d, g')"
proof -
  have lines: "text_lines kCPUCmd = [''cpu'']" and words: "\<not> eqcase ''cpu'' ''HELLO''" "eqcase ''cpu'' ''CPU''"
    by code_simp+
  have p: "processCommand V ''cpu'' c = Some (False, sendBack (usage_text (Fin x)) (c\<lparr>m_calls := m_calls c + 1, lastUsage := u\<rparr>))"
    using assms(1) words by (simp add: processCommand_def Let_def)
  have r: "store_at (stack_buf W (calls g)) 0 (usage_text (Fin x)) =
      fixed 2 (Fin x) @ LF # drop (length (usage_text (Fin x))) (stack_buf W (calls g))"
    by (simp add: store_at_def usage_text_def)
  have "strtod (fixed 2 (Fin x) @ LF # drop (length (usage_text (Fin x))) (stack_buf W (calls g))) =
      Some (fl (of_int (round_even (x * 10 ^ 2)) / 10 ^ 2))"
    by (rule strtod_fixed [OF assms(2)])
      (simp_all add: is_base_digit_def digit_value_def is_digit_def is_upper_def is_lower_def tolower_def byte_of_def)
  then have "getRemoteStat W kCPUCmd d g =
      Some (fl (of_int (round_even (x * 100)) / 100), d, log_fd [fd_action.Sent d kCPUCmd] (Reporting.tick g))"
    using assms(3,4) unfolding getRemoteStat_def r by (simp add: Let_def r kCPUCmd_def del: fixed.simps)
  with lines p show ?thesis by (simp add: sendBack_def)
qed

lemma remote_usage_arrives_witness:
  "\<exists>c' g'. text_lines kCPUCmd = [''cpu''] \<and>
    processCommand (example_mon_world (\<lambda>k n. n)) ''cpu'' new_connection = Some (False, c') \<and>
    replies c' = replies new_connection @ [usage_text (Fin 0)] \<and>
    getRemoteStat (example_world\<lparr>monitor_read := \<lambda>k. Some (usage_text (Fin 0))\<rparr>) kCPUCmd 7 example_reporter =
      Some (fl (of_int (round_even (0 * 100)) / 100), 7, g')"
  by (rule remote_usage_arrives)
    (simp_all add: example_mon_world_def example_world_def cpu_GetInterval_def getTicks_def)

end
